(* ===== verification/Prelude.thy ===== *)
theory Prelude
  imports Complex_Main "HOL-Library.Word" "HOL-Library.Char_ord" "HOL-Library.List_Lexorder" "HOL-Library.Multiset"
begin

text \<open>
  The shared part of the development: the names of the machine types, the faults a run of the
  program can end in, the C++ containers and algorithms the components use, and the generic
  lemmas about them.
  \<^item> An unsigned 64-bit counter (\<open>uint64_t\<close>, \<open>size_t\<close>) is a \<open>64 word\<close>: incrementing it wraps.
  \<^item> \<open>int64_t\<close> quantities (deadlines, latencies, clock readings) are \<open>int\<close>: the program only
    subtracts and compares them, and signed overflow has no defined result.
  \<^item> A \<open>std::map\<close> with string keys is an association list sorted by key, because the code's
    iteration order (and so every tie-break of the allocator) is the key order.
  \<^item> \<open>std::min_element\<close> and \<open>std::max_element\<close> return the position of the first extremal
    element; the comparison is indexed by the number of comparisons made so far, because one of
    the code's comparisons reads the clock each time it is called.
\<close>

section \<open>Collections of facts\<close>

named_theorems eval "equations that evaluate the model on concrete inputs"

section \<open>Machine types, pointers and faults\<close>

type_synonym u64 = "64 word"

text \<open>Task objects and edge-node objects are shared through \<open>std::shared_ptr\<close>: a reference
  names the object in the store, and a possibly null pointer is an option of a reference.\<close>

type_synonym tref = nat
type_synonym nref = nat

text \<open>What a run of the C++ code can end in instead of a result: dereferencing a null
  \<open>shared_ptr\<close>, locking a \<open>std::mutex\<close> that the same thread already holds,
  assigning to a \<open>std::thread\<close> that is still joinable (\<open>std::terminate\<close>), or an index modulo
  zero.\<close>

datatype fault = NullDeref | SelfDeadlock | Terminate | DivByZero

section \<open>Sequencing of operations that can fault\<close>

fun bind_sum :: "'e + 'a \<Rightarrow> ('a \<Rightarrow> 'e + 'b) \<Rightarrow> 'e + 'b" where
  "bind_sum (Inl e) f = Inl e"
| "bind_sum (Inr x) f = f x"

lemma bind_sum_Inr: "bind_sum m f = Inr y \<longleftrightarrow> (\<exists>x. m = Inr x \<and> f x = Inr y)"
  by (cases m) auto

lemma bind_sum_cong [fundef_cong]:
  "m = m' \<Longrightarrow> (\<And>x. m' = Inr x \<Longrightarrow> f x = f' x) \<Longrightarrow> bind_sum m f = bind_sum m' f'"
  by (cases m') auto

section \<open>\<open>std::clamp\<close>\<close>

definition clamp :: "'a :: linorder \<Rightarrow> 'a \<Rightarrow> 'a \<Rightarrow> 'a" where
  "clamp v lo hi = (if v < lo then lo else if hi < v then hi else v)"

lemma clamp_bounds: "lo \<le> hi \<Longrightarrow> lo \<le> clamp v lo hi \<and> clamp v lo hi \<le> hi"
  by (auto simp: clamp_def)

lemma clamp_id: "lo \<le> v \<Longrightarrow> v \<le> hi \<Longrightarrow> clamp v lo hi = v"
  by (auto simp: clamp_def)

lemma clamp_mono: "v \<le> w \<Longrightarrow> lo \<le> hi \<Longrightarrow> clamp v lo hi \<le> clamp w lo hi"
  by (auto simp: clamp_def)

section \<open>\<open>std::map\<close> with ordered keys\<close>

text \<open>\<open>map_put\<close> is \<open>m[k] = v\<close>, \<open>map_erase\<close> is \<open>m.erase(k)\<close> and \<open>map_of\<close> is \<open>m.find(k)\<close>.\<close>

fun map_put :: "'k :: linorder \<Rightarrow> 'v \<Rightarrow> ('k \<times> 'v) list \<Rightarrow> ('k \<times> 'v) list" where
  "map_put k v [] = [(k, v)]"
| "map_put k v ((a, b) # m) =
     (if k < a then (k, v) # (a, b) # m
      else if k = a then (k, v) # m
      else (a, b) # map_put k v m)"

fun map_erase :: "'k \<Rightarrow> ('k \<times> 'v) list \<Rightarrow> ('k \<times> 'v) list" where
  "map_erase k [] = []"
| "map_erase k ((a, b) # m) = (if k = a then m else (a, b) # map_erase k m)"

definition map_ok :: "('k :: linorder \<times> 'v) list \<Rightarrow> bool" where
  "map_ok m \<longleftrightarrow> sorted_wrt (<) (map fst m)"

lemma map_ok_Nil [simp]: "map_ok []"
  by (simp add: map_ok_def)

lemma map_ok_Cons: "map_ok ((a, b) # m) \<longleftrightarrow> (\<forall>k\<in>fst ` set m. a < k) \<and> map_ok m"
  by (simp add: map_ok_def)

lemma map_ok_single [simp]: "map_ok [x]"
  by (simp add: map_ok_def)

lemma map_of_put [simp]: "map_of (map_put k v m) = (map_of m)(k \<mapsto> v)"
  by (induction k v m rule: map_put.induct) (auto simp: fun_eq_iff)

lemma fst_set_put [simp]: "fst ` set (map_put k v m) = insert k (fst ` set m)"
  by (induction k v m rule: map_put.induct) auto

lemma set_put_subset: "set (map_put k v m) \<subseteq> insert (k, v) (set m)"
  by (induction k v m rule: map_put.induct) auto

lemma map_ok_put: "map_ok m \<Longrightarrow> map_ok (map_put k v m)"
proof (induction k v m rule: map_put.induct)
  case (2 k v a b m)
  then show ?case by (auto simp: map_ok_Cons)
qed (simp add: map_ok_def)

lemma set_erase_subset: "set (map_erase k m) \<subseteq> set m"
  by (induction k m rule: map_erase.induct) auto

lemma map_ok_erase: "map_ok m \<Longrightarrow> map_ok (map_erase k m)"
proof (induction k m rule: map_erase.induct)
  case (2 k a b m)
  then show ?case using set_erase_subset [of k m] by (auto simp: map_ok_Cons)
qed simp

lemma map_of_none_above: "\<forall>a\<in>fst ` set m. k < a \<Longrightarrow> map_of m (k :: 'k :: linorder) = None"
  by (auto simp: map_of_eq_None_iff)

lemma map_of_erase: "map_ok m \<Longrightarrow> map_of (map_erase k m) = (map_of m)(k := None)"
proof (induction k m rule: map_erase.induct)
  case (2 k a b m)
  then show ?case using map_of_none_above [of m a] by (auto simp: map_ok_Cons fun_eq_iff)
qed (simp add: fun_eq_iff)

lemma map_ok_distinct: "map_ok m \<Longrightarrow> distinct (map fst m)"
  by (simp add: map_ok_def strict_sorted_iff)

lemma map_ok_Some: "map_ok m \<Longrightarrow> map_of m k = Some v \<longleftrightarrow> (k, v) \<in> set m"
  by (meson map_of_SomeD map_of_is_SomeI map_ok_distinct)

lemma find_append: "find P (xs @ ys) = (case find P xs of Some x \<Rightarrow> Some x | None \<Rightarrow> find P ys)"
  by (induction xs) auto

section \<open>A keyed registry\<close>

text \<open>
  The monitor, the executor and the table of task profiles all hold a \<open>std::map\<close> behind an
  insert-or-replace operation and a lookup. The contract they share, with what a client may
  conclude from it.
\<close>

locale registry =
  fixes put :: "'k \<Rightarrow> 'v \<Rightarrow> 's \<Rightarrow> 's"
    and look :: "'s \<Rightarrow> 'k \<Rightarrow> 'v option"
    and wf :: "'s \<Rightarrow> bool"
  assumes look_put: "wf s \<Longrightarrow> look (put k v s) = (look s)(k \<mapsto> v)"
    and wf_put: "wf s \<Longrightarrow> wf (put k v s)"
begin

lemma wf_puts: "wf s \<Longrightarrow> wf (fold (\<lambda>(k, v). put k v) kvs s)"
  by (induction kvs arbitrary: s) (auto simp: wf_put)

lemma look_puts: "wf s \<Longrightarrow> look (fold (\<lambda>(k, v). put k v) kvs s) = look s ++ map_of (rev kvs)"
  by (induction kvs arbitrary: s) (auto simp: look_put wf_put map_add_def fun_eq_iff split: option.splits)

lemma look_overwrite: "wf s \<Longrightarrow> look (put k w (put k v s)) = look (put k w s)"
  by (simp add: look_put wf_put)

lemma look_commute: "wf s \<Longrightarrow> k \<noteq> l \<Longrightarrow> look (put k v (put l w s)) = look (put l w (put k v s))"
  by (simp add: look_put wf_put fun_upd_twist)

end

locale erasable_registry = registry +
  fixes del :: "'k \<Rightarrow> 's \<Rightarrow> 's"
  assumes look_del: "wf s \<Longrightarrow> look (del k s) = (look s)(k := None)"
    and wf_del: "wf s \<Longrightarrow> wf (del k s)"
begin

lemma del_put: "wf s \<Longrightarrow> look (del k (put k v s)) = look (del k s)"
  by (simp add: look_put look_del wf_put wf_del)

lemma put_after_del: "wf s \<Longrightarrow> look (put k v (del k s)) = look (put k v s)"
  by (simp add: look_put look_del wf_put wf_del)

end


section \<open>First-in first-out queues\<close>

text \<open>The contract of a \<open>std::queue\<close> behind a mutex, as an edge node and the task manager
  both provide it: \<open>deq\<close> of an empty queue gives a null pointer and changes nothing.\<close>

locale fifo =
  fixes enq :: "'a \<Rightarrow> 's \<Rightarrow> 's"
    and deq :: "'s \<Rightarrow> 'a option \<times> 's"
    and items :: "'s \<Rightarrow> 'a list"
  assumes items_enq: "items (enq x s) = items s @ [x]"
    and deq_empty: "items s = [] \<Longrightarrow> deq s = (None, s)"
    and deq_front: "items s = x # xs \<Longrightarrow> fst (deq s) = Some x \<and> items (snd (deq s)) = xs"
begin

lemma items_enqs: "items (fold enq xs s) = items s @ xs"
  by (induction xs arbitrary: s) (auto simp: items_enq)

lemma deq_None_iff: "fst (deq s) = None \<longleftrightarrow> items s = []"
  using deq_empty [of s] deq_front [of s] by (cases "items s") auto

lemma items_deq: "items (snd (deq s)) = tl (items s)"
  using deq_empty [of s] deq_front [of s] by (cases "items s") auto

lemma fst_deq: "fst (deq s) = (case items s of [] \<Rightarrow> None | x # _ \<Rightarrow> Some x)"
  using deq_empty [of s] deq_front [of s] by (cases "items s") auto

lemma deq_enq: "fst (deq (enq x s)) = (case items s of [] \<Rightarrow> Some x | y # _ \<Rightarrow> Some y)"
  by (simp add: fst_deq items_enq split: list.splits)

lemma items_deqs: "items (((\<lambda>s. snd (deq s)) ^^ n) s) = drop n (items s)"
  by (induction n) (auto simp: items_deq tl_drop drop_Suc)

text \<open>The element enqueued after \<open>n\<close> others is the one the \<open>n+1\<close>st dequeue returns.\<close>

lemma deq_order:
  assumes "n < length (items s)"
  shows "fst (deq (((\<lambda>s. snd (deq s)) ^^ n) s)) = Some (items s ! n)"
  using assms by (simp add: fst_deq items_deqs Cons_nth_drop_Suc [symmetric])

end

section \<open>Choosing a best element\<close>

text \<open>
  All the selections of the program keep a best element so far and replace it only by a
  strictly better one, so the first of the best elements wins. What that needs of the
  comparison is irreflexivity, transitivity and that two elements neither of which is better
  than the other are interchangeable.
\<close>

locale preference =
  fixes better :: "'k \<Rightarrow> 'k \<Rightarrow> bool"
  assumes irrefl: "\<not> better a a"
    and trans: "better a b \<Longrightarrow> better b c \<Longrightarrow> better a c"
    and swap: "better b c \<Longrightarrow> \<not> better a c \<Longrightarrow> better b a"

text \<open>The loop of the allocation strategies: \<open>for (edge : viable) if (key better than best) ...\<close>.\<close>

fun scan_best :: "('k \<Rightarrow> 'k \<Rightarrow> bool) \<Rightarrow> ('a \<Rightarrow> 'k) \<Rightarrow> 'k \<Rightarrow> 'a option \<Rightarrow> 'a list \<Rightarrow> 'k \<times> 'a option" where
  "scan_best better key bound best [] = (bound, best)"
| "scan_best better key bound best (x # xs) =
     (if better (key x) bound then scan_best better key (key x) (Some x) xs
      else scan_best better key bound best xs)"

text \<open>\<open>std::min_element\<close>/\<open>std::max_element\<close>: the position of the first best element, with the
  \<open>j\<close>th comparison made at the list's \<open>j\<close>th position.\<close>

fun elem_loop :: "(nat \<Rightarrow> 'a \<Rightarrow> 'a \<Rightarrow> bool) \<Rightarrow> nat \<Rightarrow> 'a \<Rightarrow> nat \<Rightarrow> 'a list \<Rightarrow> nat" where
  "elem_loop better j b bi [] = bi"
| "elem_loop better j b bi (x # xs) =
     (if better j x b then elem_loop better (Suc j) x j xs
      else elem_loop better (Suc j) b bi xs)"

definition min_element :: "(nat \<Rightarrow> 'a \<Rightarrow> 'a \<Rightarrow> bool) \<Rightarrow> 'a list \<Rightarrow> nat" where
  "min_element cmp xs = (case xs of [] \<Rightarrow> 0 | x # r \<Rightarrow> elem_loop (\<lambda>j a b. cmp j a b) 1 x 0 r)"

definition max_element :: "(nat \<Rightarrow> 'a \<Rightarrow> 'a \<Rightarrow> bool) \<Rightarrow> 'a list \<Rightarrow> nat" where
  "max_element cmp xs = (case xs of [] \<Rightarrow> 0 | x # r \<Rightarrow> elem_loop (\<lambda>j a b. cmp j b a) 1 x 0 r)"

definition remove_at :: "nat \<Rightarrow> 'a list \<Rightarrow> 'a list" where
  "remove_at i xs = take i xs @ drop (Suc i) xs"

definition first_best :: "('k \<Rightarrow> 'k \<Rightarrow> bool) \<Rightarrow> ('a \<Rightarrow> 'k) \<Rightarrow> 'a \<Rightarrow> 'a list \<Rightarrow> bool" where
  "first_best better key b xs \<longleftrightarrow>
     (\<exists>ys zs. xs = ys @ b # zs \<and> (\<forall>y\<in>set ys. better (key b) (key y)) \<and> (\<forall>z\<in>set zs. \<not> better (key z) (key b)))"

context preference begin

lemma asym: "better a b \<Longrightarrow> \<not> better b a"
  using irrefl trans by blast

lemma first_best_in: "first_best better key b xs \<Longrightarrow> b \<in> set xs"
  by (auto simp: first_best_def)

lemma first_best_all: "first_best better key b xs \<Longrightarrow> x \<in> set xs \<Longrightarrow> \<not> better (key x) (key b)"
  by (auto simp: first_best_def irrefl) (use asym in blast)

lemma first_best_Cons1: "first_best better key b xs \<Longrightarrow> better (key b) (key x) \<Longrightarrow> first_best better key b (x # xs)"
  unfolding first_best_def by (metis append_Cons set_ConsD)

lemma first_best_Cons2: "\<forall>y\<in>set xs. \<not> better (key y) (key x) \<Longrightarrow> first_best better key x (x # xs)"
  unfolding first_best_def by force

lemma scan_none: "\<forall>x\<in>set xs. \<not> better (key x) bound \<Longrightarrow> scan_best better key bound best xs = (bound, best)"
  by (induction xs) auto

lemma scan_some:
  "\<exists>x\<in>set xs. better (key x) bound \<Longrightarrow>
   \<exists>b. scan_best better key bound best xs = (key b, Some b) \<and> first_best better key b xs \<and> better (key b) bound"
proof (induction xs arbitrary: bound best)
  case (Cons x xs)
  show ?case
  proof (cases "better (key x) bound")
    case x: True
    show ?thesis
    proof (cases "\<exists>y\<in>set xs. better (key y) (key x)")
      case True
      with Cons.IH [of "key x" "Some x"] x show ?thesis by (auto intro: first_best_Cons1 trans)
    next
      case False
      with x show ?thesis by (auto simp: scan_none intro: first_best_Cons2)
    qed
  next
    case x: False
    with Cons obtain b where "scan_best better key bound best xs = (key b, Some b)"
      "first_best better key b xs" "better (key b) bound" by auto
    with x show ?thesis using swap by (auto intro: first_best_Cons1)
  qed
qed simp

lemma scan_chosen: "snd (scan_best better key bound None xs) = Some b \<Longrightarrow> first_best better key b xs"
  using scan_none [of xs key bound None] scan_some [of xs key bound None] by force

lemma elem_loop_spec:
  assumes "bi < length pre" "b = pre ! bi"
    and "\<forall>q<bi. better (key b) (key (pre ! q))"
    and "\<forall>q<length pre. \<not> better (key (pre ! q)) (key b)"
    and "p = elem_loop (\<lambda>_ x y. better (key x) (key y)) (length pre) b bi xs"
  shows "p < length (pre @ xs) \<and> (\<forall>q<p. better (key ((pre @ xs) ! p)) (key ((pre @ xs) ! q))) \<and>
    (\<forall>q<length (pre @ xs). \<not> better (key ((pre @ xs) ! q)) (key ((pre @ xs) ! p)))"
  using assms
proof (induction xs arbitrary: pre b bi)
  case Nil
  then show ?case by simp
next
  case (Cons x xs)
  show ?case
  proof (cases "better (key x) (key b)")
    case True
    have "\<forall>q<length pre. better (key x) (key (pre ! q))"
      using True Cons.prems(4) swap by blast
    then have "\<forall>q<length (pre @ [x]). \<not> better (key ((pre @ [x]) ! q)) (key x)"
      using asym irrefl by (auto simp: nth_append)
    with Cons.IH [of "length pre" "pre @ [x]" x] Cons.prems(5) True \<open>\<forall>q<length pre. better (key x) (key (pre ! q))\<close>
    show ?thesis by (simp add: nth_append)
  next
    case False
    with Cons.prems have "\<forall>q<length (pre @ [x]). \<not> better (key ((pre @ [x]) ! q)) (key b)"
      by (auto simp: nth_append)
    with Cons.IH [of bi "pre @ [x]" b] Cons.prems False show ?thesis by (simp add: nth_append)
  qed
qed

lemma element_spec:
  assumes "xs \<noteq> []" "p = (case xs of [] \<Rightarrow> 0 | x # r \<Rightarrow> elem_loop (\<lambda>_ x y. better (key x) (key y)) 1 x 0 r)"
  shows "p < length xs \<and> (\<forall>q<p. better (key (xs ! p)) (key (xs ! q))) \<and>
    (\<forall>x\<in>set xs. \<not> better (key x) (key (xs ! p)))"
proof -
  obtain x r where xs: "xs = x # r" using assms(1) by (cases xs) auto
  have "p < length xs \<and> (\<forall>q<p. better (key (xs ! p)) (key (xs ! q))) \<and>
    (\<forall>q<length xs. \<not> better (key (xs ! q)) (key (xs ! p)))"
    using elem_loop_spec [of 0 "[x]" x key p r] assms(2) irrefl by (simp add: xs)
  then show ?thesis by (metis in_set_conv_nth)
qed

end

interpretation lowest: preference "(<) :: 'k :: linorder \<Rightarrow> 'k \<Rightarrow> bool"
  by unfold_locales auto

interpretation highest: preference "(>) :: 'k :: linorder \<Rightarrow> 'k \<Rightarrow> bool"
  by unfold_locales auto

lemma max_element_spec:
  assumes "xs \<noteq> []" "p = max_element (\<lambda>_ a b. key a < (key b :: 'k :: linorder)) xs"
  shows "p < length xs \<and> (\<forall>q<p. key (xs ! q) < key (xs ! p)) \<and> (\<forall>x\<in>set xs. key x \<le> key (xs ! p))"
  using highest.element_spec [of xs p key] assms by (auto simp: max_element_def not_less)

lemma min_element_spec:
  assumes "xs \<noteq> []" "p = min_element (\<lambda>_ a b. key a < (key b :: 'k :: linorder)) xs"
  shows "p < length xs \<and> (\<forall>q<p. key (xs ! p) < key (xs ! q)) \<and> (\<forall>x\<in>set xs. key (xs ! p) \<le> key x)"
  using lowest.element_spec [of xs p key] assms by (auto simp: min_element_def not_less)

lemma elem_loop_lt: "bi < j \<Longrightarrow> elem_loop better j b bi xs < j + length xs"
  by (induction better j b bi xs rule: elem_loop.induct) auto

lemma min_element_lt: "xs \<noteq> [] \<Longrightarrow> min_element cmp xs < length xs"
  using elem_loop_lt [of 0 1] by (fastforce simp: min_element_def split: list.splits)

lemma max_element_lt: "xs \<noteq> [] \<Longrightarrow> max_element cmp xs < length xs"
  using elem_loop_lt [of 0 1] by (fastforce simp: max_element_def split: list.splits)

lemma mset_remove_at: "i < length xs \<Longrightarrow> add_mset (xs ! i) (mset (remove_at i xs)) = mset xs"
proof -
  assume "i < length xs"
  then have "mset xs = mset (take i xs @ xs ! i # drop (Suc i) xs)" by (simp add: id_take_nth_drop [symmetric])
  then show ?thesis by (simp add: remove_at_def)
qed

lemma length_remove_at: "i < length xs \<Longrightarrow> length (remove_at i xs) = length xs - 1"
  by (auto simp: remove_at_def)

lemma set_remove_at_subset: "set (remove_at i xs) \<subseteq> set xs"
  by (auto simp: remove_at_def dest: in_set_takeD in_set_dropD)

section \<open>Decimal numbers with leading zeros\<close>

text \<open>\<open>oss << std::setfill('0') << std::setw(w) << n\<close>.\<close>

definition digit_char :: "nat \<Rightarrow> char" where
  "digit_char d = char_of (48 + d)"

fun dec :: "nat \<Rightarrow> string" where
  "dec n = (if n < 10 then [digit_char n] else dec (n div 10) @ [digit_char (n mod 10)])"

declare dec.simps [simp del]

lemma digit_chars [eval]:
  "digit_char 0 = CHR ''0''" "digit_char (Suc 0) = CHR ''1''" "digit_char 1 = CHR ''1''" "digit_char 2 = CHR ''2''"
  "digit_char 3 = CHR ''3''" "digit_char 4 = CHR ''4''" "digit_char 5 = CHR ''5''" "digit_char 6 = CHR ''6''"
  "digit_char 7 = CHR ''7''" "digit_char 8 = CHR ''8''" "digit_char 9 = CHR ''9''"
  by code_simp+

definition pad_dec :: "nat \<Rightarrow> nat \<Rightarrow> string" where
  "pad_dec w n = replicate (w - length (dec n)) (CHR ''0'') @ dec n"

definition undec :: "string \<Rightarrow> nat" where
  "undec s = foldl (\<lambda>a c. 10 * a + (of_char c - 48)) 0 s"

lemma undec_snoc: "undec (s @ [c]) = 10 * undec s + (of_char c - 48)"
  by (simp add: undec_def)

lemma of_digit_char: "d < 10 \<Longrightarrow> of_char (digit_char d) = 48 + d"
  by (simp add: digit_char_def)

lemma undec_dec [simp]: "undec (dec n) = n"
proof (induction n rule: dec.induct)
  case (1 n)
  show ?case
  proof (cases "n < 10")
    case True
    then have "undec ([] @ [digit_char n]) = n" by (simp only: undec_snoc of_digit_char) (simp add: undec_def)
    with True show ?thesis by (subst dec.simps) simp
  next
    case False
    with 1 show ?thesis by (subst dec.simps) (simp add: undec_snoc of_digit_char)
  qed
qed

lemma undec_zeros: "undec (replicate k (CHR ''0'') @ s) = undec s"
  by (induction k) (simp_all add: undec_def)

lemma undec_pad_dec [simp]: "undec (pad_dec w n) = n"
  by (simp add: pad_dec_def undec_zeros)

lemma pad_dec_inject: "pad_dec w m = pad_dec w n \<longleftrightarrow> m = n"
  by (metis undec_pad_dec)

lemma length_pad_dec: "length (pad_dec w n) = max w (length (dec n))"
  by (simp add: pad_dec_def)

end
