(* ===== verification/Text.thy ===== *)
theory Text
  imports Prelude
begin

text \<open>
  The operations of \<open>std::string\<close> and of the string streams that the web server and the database
  manager use, as functions on lists of characters. \<open>npos\<close> is \<open>None\<close>.
\<close>

section \<open>Searching\<close>

text \<open>\<open>s.find(p)\<close>.\<close>

fun find_sub :: "'a list \<Rightarrow> 'a list \<Rightarrow> nat option" where
  "find_sub p [] = (if p = [] then Some 0 else None)"
| "find_sub p (x # s) = (if take (length p) (x # s) = p then Some 0 else map_option Suc (find_sub p s))"

definition contains_sub :: "'a list \<Rightarrow> 'a list \<Rightarrow> bool" where
  "contains_sub p s \<longleftrightarrow> find_sub p s \<noteq> None"

text \<open>\<open>s.find(c)\<close> of a character.\<close>

fun find_char :: "'a \<Rightarrow> 'a list \<Rightarrow> nat option" where
  "find_char c [] = None"
| "find_char c (x # s) = (if x = c then Some 0 else map_option Suc (find_char c s))"

lemma find_sub_Some:
  "find_sub p s = Some i \<Longrightarrow> i + length p \<le> length s \<and> take (length p) (drop i s) = p"
proof (induction p s arbitrary: i rule: find_sub.induct)
  case (2 p x s)
  show ?case
  proof (cases "take (length p) (x # s) = p")
    case True
    then have "length p \<le> length (x # s)" by (metis length_take min.cobounded1)
    with 2 True show ?thesis by simp
  next
    case False
    with 2 show ?thesis by auto
  qed
qed (auto split: if_splits)

lemma find_sub_append:
  "find_sub p s = Some i \<Longrightarrow> find_sub p (s @ t) = Some i"
proof (induction p s arbitrary: i rule: find_sub.induct)
  case (1 p)
  then show ?case by (cases t) (auto split: if_splits)
next
  case (2 p x s)
  show ?case
  proof (cases "take (length p) (x # s) = p")
    case True
    then have "length p \<le> length (x # s)" by (metis length_take min.cobounded1)
    then have "take (length p) ((x # s) @ t) = p" using True by (simp del: append_Cons)
    with 2 True show ?thesis by simp
  next
    case False
    with "2.prems" obtain j where j: "find_sub p s = Some j" "i = Suc j" by (auto simp del: take_Suc_Cons)
    from find_sub_Some [OF j(1)] have l: "length p \<le> length s" by simp
    then have "length p \<le> length (x # s)" by simp
    then have "take (length p) ((x # s) @ t) = take (length p) (x # s)" by (simp del: append_Cons)
    with False have "take (length p) (x # (s @ t)) \<noteq> p" by simp
    with "2.IH" [OF False j(1)] j(2) show ?thesis by simp
  qed
qed

lemma find_sub_None_prefix:
  "find_sub p (s @ t) = None \<Longrightarrow> find_sub p s = None"
  using find_sub_append [of p s _ t] by (cases "find_sub p s") auto

lemma find_sub_first: "find_sub p (p @ t) = Some 0"
proof (cases "p @ t")
  case (Cons a l)
  then have "take (length p) (a # l) = p" by (metis append_eq_conv_conj)
  then show ?thesis unfolding Cons by simp
qed simp

lemma contains_sub_iff: "contains_sub p s \<longleftrightarrow> (\<exists>a b. s = a @ p @ b)"
proof
  assume "contains_sub p s"
  then obtain i where "find_sub p s = Some i" by (auto simp: contains_sub_def)
  then have "take (length p) (drop i s) = p" by (blast dest: find_sub_Some)
  then have "s = take i s @ p @ drop (length p) (drop i s)" by (metis append_take_drop_id)
  then show "\<exists>a b. s = a @ p @ b" by blast
next
  have "find_sub p (a @ p @ b) \<noteq> None" for a b
  proof (induction a)
    case Nil
    then show ?case using find_sub_first [of p b] by simp
  qed auto
  then show "\<exists>a b. s = a @ p @ b \<Longrightarrow> contains_sub p s" by (auto simp: contains_sub_def)
qed

lemma find_char_Some: "find_char c s = Some i \<Longrightarrow> i < length s \<and> s ! i = c \<and> c \<notin> set (take i s)"
  by (induction s arbitrary: i) (auto split: if_splits)

lemma find_char_None [simp]: "find_char c s = None \<longleftrightarrow> c \<notin> set s"
  by (induction s) auto

section \<open>Blanks\<close>

text \<open>The characters of \<open>trim\<close>: space, tab, carriage return and newline.\<close>

definition is_blank :: "char \<Rightarrow> bool" where
  "is_blank c \<longleftrightarrow> c = CHR '' '' \<or> c = CHR 0x09 \<or> c = CHR 0x0D \<or> c = CHR 0x0A"

definition trim :: "string \<Rightarrow> string" where
  "trim s = rev (dropWhile is_blank (rev (dropWhile is_blank s)))"

lemma dropWhile_hd_not: "s \<noteq> [] \<Longrightarrow> \<not> P (hd s) \<Longrightarrow> dropWhile P s = s"
  by (cases s) auto

lemma trim_id: "(s \<noteq> [] \<Longrightarrow> \<not> is_blank (hd s) \<and> \<not> is_blank (last s)) \<Longrightarrow> trim s = s"
  by (cases "s = []") (auto simp: trim_def dropWhile_hd_not hd_rev)

lemma trim_padding: "\<forall>c\<in>set a. is_blank c \<Longrightarrow> \<forall>c\<in>set b. is_blank c \<Longrightarrow> trim (a @ s @ b) = trim s"
proof -
  assume a: "\<forall>c\<in>set a. is_blank c" and b: "\<forall>c\<in>set b. is_blank c"
  show ?thesis
  proof (cases "\<forall>c\<in>set s. is_blank c")
    case True
    with a b show ?thesis by (simp add: trim_def dropWhile_append3 dropWhile_eq_Nil_conv [THEN iffD2])
  next
    case False
    then obtain c where c: "c \<in> set s" "\<not> is_blank c" by blast
    have "dropWhile is_blank (a @ s @ b) = dropWhile is_blank s @ b"
      using a c by (simp add: dropWhile_append2 dropWhile_append1 [of c])
    moreover have "dropWhile is_blank (rev b @ r) = dropWhile is_blank r" for r using b by (intro dropWhile_append2) auto
    ultimately show ?thesis by (simp add: trim_def)
  qed
qed

section \<open>Splitting\<close>

text \<open>The pieces of a text between the separators \<open>c\<close>.\<close>

fun split_on :: "'a \<Rightarrow> 'a list \<Rightarrow> 'a list list" where
  "split_on c [] = [[]]"
| "split_on c (x # s) =
     (if x = c then [] # split_on c s
      else (case split_on c s of [] \<Rightarrow> [[x]] | p # ps \<Rightarrow> (x # p) # ps))"

lemma split_on_no_sep: "c \<notin> set s \<Longrightarrow> split_on c s = [s]"
  by (induction s) auto

lemma split_on_append: "c \<notin> set s \<Longrightarrow> split_on c (s @ c # t) = s # split_on c t"
  by (induction s) auto

end
