(* ===== verification/Binary64.thy ===== *)
theory Binary64
  imports Prelude "HOL-Library.Log_Nat"
begin

text \<open>
  The program's \<open>double\<close> values: IEEE 754 binary64 numbers. A double is a rational number that
  is its own rounding, and every operation is the exact rational operation followed by one
  rounding to nearest, ties to even, with gradual underflow (53-bit significands, exponents from
  \<open>-1074\<close>). Everything evaluates: \<open>0.1 + 0.2\<close> and \<open>0.3\<close> are different doubles here too.

  Left out are the values the program never computes on the ranges it is used with: the two
  infinities and NaN (the exponent range is unbounded above, and the code guards each of its
  divisions against a zero divisor) and the sign of zero.

  The section on fitting requests is the arithmetic behind the allocator's promise never to
  overcommit a node: a request that fits the \<^emph>\<open>rounded\<close> remainder of a capacity can exceed the
  capacity by at most one unit in the last place, and not at all when the capacity's significand
  is even.
\<close>

section \<open>Rounding\<close>

text \<open>Round to nearest, ties to even.\<close>

definition rne :: "rat \<Rightarrow> int" where
  "rne y = (let f = \<lfloor>y\<rfloor>; d = y - of_int f in
     if d < 1 / 2 then f
     else if 1 / 2 < d then f + 1
     else if even f then f else f + 1)"

text \<open>The exponent of the leading bit of a positive rational.\<close>

definition ilog2 :: "rat \<Rightarrow> int" where
  "ilog2 x = (let (n, d) = quotient_of x; e = bitlen n - bitlen d in
     if 2 powi e \<le> x then e else e - 1)"

text \<open>The exponent, and the value, of one unit in the last place at \<open>x\<close>.\<close>

definition ulp_exp :: "rat \<Rightarrow> int" where
  "ulp_exp x = (if x = 0 then - 1074 else max (- 1074) (ilog2 \<bar>x\<bar> - 52))"

definition ulp :: "rat \<Rightarrow> rat" where
  "ulp x = 2 powi ulp_exp x"

definition fl :: "rat \<Rightarrow> rat" where
  "fl x = of_int (rne (x / ulp x)) * ulp x"

section \<open>Properties of rounding\<close>

lemma rne_bounds: "\<lfloor>y\<rfloor> \<le> rne y" "rne y \<le> \<lfloor>y\<rfloor> + 1"
  by (auto simp: rne_def Let_def)

lemma rne_of_int [simp]: "rne (of_int n) = n"
  by (simp add: rne_def)

lemma rne_err: "\<bar>of_int (rne y) - y\<bar> \<le> 1 / 2"
proof -
  have "of_int \<lfloor>y\<rfloor> \<le> y" "y < of_int \<lfloor>y\<rfloor> + 1" by linarith+
  then show ?thesis by (auto simp: rne_def Let_def abs_le_iff field_simps)
qed

lemma rne_mono:
  assumes "x \<le> y"
  shows "rne x \<le> rne y"
proof (cases "\<lfloor>x\<rfloor> = \<lfloor>y\<rfloor>")
  case True
  with assms show ?thesis by (simp add: rne_def Let_def)
next
  case False
  with floor_mono [OF assms] have "\<lfloor>x\<rfloor> + 1 \<le> \<lfloor>y\<rfloor>" by linarith
  with rne_bounds [of x] rne_bounds [of y] show ?thesis by linarith
qed

lemma rne_minus: "rne (- y) = - rne y"
proof (cases "y = of_int \<lfloor>y\<rfloor>")
  case True
  have "rne (- of_int \<lfloor>y\<rfloor>) = rne (of_int (- \<lfloor>y\<rfloor>))" by simp
  also have "\<dots> = - rne (of_int \<lfloor>y\<rfloor>)" by (simp only: rne_of_int)
  finally show ?thesis using True by metis
next
  case False
  have b: "of_int \<lfloor>y\<rfloor> \<le> y" "y < of_int \<lfloor>y\<rfloor> + 1" by linarith+
  with False have "of_int \<lfloor>y\<rfloor> < y" by (metis order_le_less)
  with b(2) have f: "\<lfloor>- y\<rfloor> = - \<lfloor>y\<rfloor> - 1"
    by (intro floor_unique) auto
  show ?thesis unfolding rne_def Let_def f by auto
qed

lemma two_powi_pos [simp]: "(0::rat) < 2 powi k"
  by simp

lemma two_powi_mono: "a \<le> b \<Longrightarrow> (2::rat) powi a \<le> 2 powi b"
  by (rule power_int_increasing) auto

lemma two_powi_less_iff: "(2::rat) powi a < 2 powi b \<longleftrightarrow> a < b"
  by (metis leD leI one_less_numeral_iff power_int_strict_increasing semiring_norm(76) two_powi_mono)

lemma two_powi_add: "(2::rat) powi (a + b) = 2 powi a * 2 powi b"
  by (simp add: power_int_add)

lemma bitlen_powi:
  assumes "0 < n"
  shows "(2::rat) powi (bitlen n - 1) \<le> of_int n" "of_int n < (2::rat) powi bitlen n"
proof -
  have b: "1 \<le> bitlen n"
    using assms bitlen_nonneg [of n] bitlen_eq_zero_iff [of n] by linarith
  have l: "2 ^ nat (bitlen n - 1) \<le> n" and u: "n < 2 ^ nat (bitlen n)"
    using bitlen_bounds [OF assms] by auto
  have "(2::rat) powi (bitlen n - 1) = of_int (2 ^ nat (bitlen n - 1))"
    using b by (simp add: power_int_def)
  also have "\<dots> \<le> of_int n" using l by (simp only: of_int_le_iff)
  finally show "(2::rat) powi (bitlen n - 1) \<le> of_int n" .
  have "(of_int n :: rat) < of_int (2 ^ nat (bitlen n))" using u by (simp only: of_int_less_iff)
  also have "\<dots> = 2 powi bitlen n" using b by (simp add: power_int_def)
  finally show "of_int n < (2::rat) powi bitlen n" .
qed

lemma ilog2_bounds:
  assumes "0 < x"
  shows "2 powi ilog2 x \<le> x" "x < 2 powi (ilog2 x + 1)"
proof -
  obtain n d where q: "quotient_of x = (n, d)" by fastforce
  have d: "0 < d" using quotient_of_denom_pos [OF q] .
  have x: "x = of_int n / of_int d" using quotient_of_div [OF q] .
  with assms d have n: "0 < n" by (simp add: zero_less_divide_iff)
  define e where "e = bitlen n - bitlen d"
  note bn = bitlen_powi [OF n] and bd = bitlen_powi [OF d]
  have "(2::rat) powi (e - 1) * of_int d \<le> 2 powi (e - 1) * 2 powi bitlen d"
    using bd(2) by (intro mult_left_mono) auto
  also have "\<dots> = 2 powi (bitlen n - 1)" by (simp flip: two_powi_add add: e_def)
  finally have lo: "2 powi (e - 1) \<le> x" using bn(1) d by (simp add: x field_simps)
  have "of_int n < (2::rat) powi (e + 1) * 2 powi (bitlen d - 1)"
    using bn(2) by (simp flip: two_powi_add add: e_def)
  also have "\<dots> \<le> 2 powi (e + 1) * of_int d" using bd(1) by (intro mult_left_mono) auto
  finally have hi: "x < 2 powi (e + 1)" using d by (simp add: x field_simps)
  show "2 powi ilog2 x \<le> x" "x < 2 powi (ilog2 x + 1)"
    using lo hi by (auto simp: ilog2_def q e_def [symmetric])
qed

lemma ilog2_less_iff: "0 < x \<Longrightarrow> ilog2 x < k \<longleftrightarrow> x < 2 powi k"
  using ilog2_bounds [of x] two_powi_mono [of "ilog2 x + 1" k] two_powi_mono [of k "ilog2 x"]
  by fastforce

lemma le_ilog2_iff: "0 < x \<Longrightarrow> k \<le> ilog2 x \<longleftrightarrow> 2 powi k \<le> x"
  using ilog2_less_iff [of x k] by linarith

lemma ilog2_mono: "0 < x \<Longrightarrow> x \<le> y \<Longrightarrow> ilog2 x \<le> ilog2 y"
  using ilog2_bounds(1) [of x] le_ilog2_iff [of y "ilog2 x"] by linarith

lemma ulp_exp_mono: "\<bar>x\<bar> \<le> \<bar>y\<bar> \<Longrightarrow> ulp_exp x \<le> ulp_exp y"
  using ilog2_mono [of "\<bar>x\<bar>" "\<bar>y\<bar>"] by (auto simp: ulp_exp_def)

lemma ulp_exp_ge: "- 1074 \<le> ulp_exp x"
  by (simp add: ulp_exp_def)

lemma ulp_pos [simp]: "0 < ulp x"
  by (simp add: ulp_def)

lemma ulp_nonzero [simp]: "ulp x \<noteq> 0"
  using ulp_pos [of x] by linarith

lemma ulp_mono: "\<bar>x\<bar> \<le> \<bar>y\<bar> \<Longrightarrow> ulp x \<le> ulp y"
  by (simp add: ulp_def two_powi_mono ulp_exp_mono)

lemma abs_less_ulp: "\<bar>x\<bar> < 2 ^ 53 * ulp x"
proof (cases "x = 0")
  case False
  have "\<bar>x\<bar> < 2 powi (53 + ulp_exp x)"
    using False by (simp add: ulp_exp_def flip: ilog2_less_iff)
  also have "\<dots> = 2 ^ 53 * ulp x" by (simp add: two_powi_add ulp_def)
  finally show ?thesis .
qed simp

lemma ulp_le_abs: "- 1074 < ulp_exp x \<Longrightarrow> 2 ^ 52 * ulp x \<le> \<bar>x\<bar>"
proof -
  assume a: "- 1074 < ulp_exp x"
  then have x: "x \<noteq> 0" and e: "ulp_exp x = ilog2 \<bar>x\<bar> - 52"
    by (auto simp: ulp_exp_def split: if_splits)
  have "2 ^ 52 * ulp x = 2 powi (52 + ulp_exp x)" by (simp add: two_powi_add ulp_def)
  also have "\<dots> \<le> \<bar>x\<bar>" using x by (simp add: e flip: le_ilog2_iff)
  finally show ?thesis .
qed

lemma ulp_minus [simp]: "ulp (- x) = ulp x"
  by (simp add: ulp_def ulp_exp_def)

lemma fl_minus [simp]: "fl (- x) = - fl x"
  by (simp add: fl_def rne_minus)

lemma fl_0 [simp]: "fl 0 = 0"
  using rne_of_int [of 0] by (simp add: fl_def)

lemma fl_err: "\<bar>fl x - x\<bar> \<le> ulp x / 2"
proof -
  have "fl x - x = (of_int (rne (x / ulp x)) - x / ulp x) * ulp x"
    by (simp add: fl_def field_simps)
  then have "\<bar>fl x - x\<bar> = \<bar>of_int (rne (x / ulp x)) - x / ulp x\<bar> * ulp x"
    by (simp add: abs_mult less_imp_le)
  also have "\<dots> \<le> 1 / 2 * ulp x"
    using rne_err by (intro mult_right_mono) (auto simp: less_imp_le)
  finally show ?thesis by simp
qed

lemma fl_nonneg: "0 \<le> x \<Longrightarrow> 0 \<le> fl x"
  using rne_mono [of 0 "x / ulp x"] rne_of_int [of 0]
  by (simp add: fl_def less_imp_le divide_nonneg_pos)

lemma fl_mono_pos:
  assumes "0 \<le> x" "x \<le> y"
  shows "fl x \<le> fl y"
proof (cases "ulp_exp x = ulp_exp y")
  case True
  then have u: "ulp x = ulp y" by (simp add: ulp_def)
  have "rne (x / ulp y) \<le> rne (y / ulp y)"
    using assms by (intro rne_mono divide_right_mono) (auto simp: less_imp_le)
  then show ?thesis by (simp add: fl_def u less_imp_le mult_right_mono)
next
  case False
  with assms ulp_exp_mono [of x y] have lt: "ulp_exp x + 1 \<le> ulp_exp y" by auto
  have "x / ulp x \<le> of_int (2 ^ 53)"
    using abs_less_ulp [of x] assms by (simp add: field_simps)
  then have "rne (x / ulp x) \<le> 2 ^ 53" using rne_mono rne_of_int by metis
  then have "of_int (rne (x / ulp x)) \<le> (of_int (2 ^ 53) :: rat)" by (simp only: of_int_le_iff)
  then have "of_int (rne (x / ulp x)) \<le> (2 ^ 53 :: rat)" by simp
  then have 1: "fl x \<le> 2 ^ 53 * ulp x" by (simp add: fl_def less_imp_le mult_right_mono)
  have "2 ^ 52 * ulp y \<le> \<bar>y\<bar>" using lt ulp_exp_ge [of x] by (intro ulp_le_abs) auto
  then have "of_int (2 ^ 52) \<le> y / ulp y" using assms by (simp add: field_simps)
  then have "2 ^ 52 \<le> rne (y / ulp y)" using rne_mono rne_of_int by metis
  then have "of_int (2 ^ 52) \<le> (of_int (rne (y / ulp y)) :: rat)" by (simp only: of_int_le_iff)
  then have "(2 ^ 52 :: rat) \<le> of_int (rne (y / ulp y))" by simp
  then have 2: "2 ^ 52 * ulp y \<le> fl y" by (simp add: fl_def less_imp_le mult_right_mono)
  have "2 * ulp x = 2 powi (1 + ulp_exp x)" by (simp add: ulp_def two_powi_add)
  also have "\<dots> \<le> ulp y" using lt by (simp add: ulp_def two_powi_mono add.commute)
  finally show ?thesis using 1 2 by simp
qed

lemma fl_mono: "x \<le> y \<Longrightarrow> fl x \<le> fl y"
proof -
  assume xy: "x \<le> y"
  consider "0 \<le> x" | "y \<le> 0" | "x \<le> 0" "0 \<le> y" by linarith
  then show ?thesis
  proof cases
    case 1
    then show ?thesis using xy by (rule fl_mono_pos)
  next
    case 2
    then have "fl (- y) \<le> fl (- x)" using xy by (intro fl_mono_pos) auto
    then show ?thesis by simp
  next
    case 3
    then show ?thesis using fl_nonneg [of y] fl_nonneg [of "- x"] by simp
  qed
qed

lemma fl_exact_aux:
  assumes "\<bar>m\<bar> < 2 ^ 53" "- 1074 \<le> k"
  shows "fl (of_int m * 2 powi k) = of_int m * 2 powi k" (is "fl ?x = ?x")
proof (cases "m = 0")
  case False
  have "\<bar>?x\<bar> = of_int \<bar>m\<bar> * 2 powi k" by (simp add: abs_mult)
  also have "\<dots> < of_int (2 ^ 53) * 2 powi k"
    using assms(1) by (intro mult_strict_right_mono) (auto simp only: of_int_less_iff two_powi_pos)
  also have "\<dots> = 2 powi (53 + k)" by (simp add: two_powi_add)
  finally have "ilog2 \<bar>?x\<bar> < 53 + k" using False by (simp add: ilog2_less_iff)
  then have e: "ulp_exp ?x \<le> k" using assms(2) by (auto simp: ulp_exp_def)
  have "2 powi k / ulp ?x = 2 powi (k - ulp_exp ?x)"
    by (simp add: ulp_def power_int_diff)
  also have "\<dots> = of_int (2 ^ nat (k - ulp_exp ?x))"
    using e by (simp add: power_int_def)
  finally have "of_int m * (2 powi k / ulp ?x) = of_int (m * 2 ^ nat (k - ulp_exp ?x))"
    by (simp only: of_int_mult)
  then have "?x / ulp ?x = of_int (m * 2 ^ nat (k - ulp_exp ?x))"
    by (simp only: times_divide_eq_right)
  then have "of_int (rne (?x / ulp ?x)) = ?x / ulp ?x" by (simp only: rne_of_int)
  then show ?thesis by (simp add: fl_def)
qed simp

lemma fl_exact:
  assumes "\<bar>m\<bar> \<le> 2 ^ 53" "- 1074 \<le> k"
  shows "fl (of_int m * 2 powi k) = of_int m * 2 powi k"
proof (cases "\<bar>m\<bar> = 2 ^ 53")
  case True
  have "of_int m * 2 powi k = of_int (sgn m) * (2 powi (53 + k) :: rat)"
    using True by (auto simp: two_powi_add abs_if split: if_splits)
  moreover have "fl (of_int (sgn m) * 2 powi (53 + k)) = of_int (sgn m) * 2 powi (53 + k)"
    using assms(2) by (intro fl_exact_aux) (auto simp: abs_sgn_eq)
  ultimately show ?thesis by simp
next
  case False
  then show ?thesis using assms by (intro fl_exact_aux) auto
qed

lemma rne_ulp_bound: "\<bar>rne (x / ulp x)\<bar> \<le> 2 ^ 53"
proof -
  have "of_int (- (2 ^ 53)) \<le> x / ulp x" "x / ulp x \<le> of_int (2 ^ 53)"
    using abs_less_ulp [of x] by (auto simp: field_simps abs_less_iff)
  from this [THEN rne_mono] show ?thesis by (simp only: rne_of_int)
qed

lemma fl_idem [simp]: "fl (fl x) = fl x"
  using fl_exact [OF rne_ulp_bound ulp_exp_ge, of x x] by (simp add: fl_def ulp_def)

lemma fl_of_int: "\<bar>n\<bar> \<le> 2 ^ 53 \<Longrightarrow> fl (of_int n) = of_int n"
  using fl_exact [of n 0] by simp

lemma fl_numeral [simp]: "(numeral n :: int) \<le> 2 ^ 53 \<Longrightarrow> fl (numeral n) = numeral n"
  using fl_of_int [of "numeral n"] by simp

lemma fl_one [simp]: "fl 1 = 1"
  using fl_of_int [of 1] by simp


lemma fl_eq_scaled: "fl x = x \<Longrightarrow> \<exists>m. x = of_int m * ulp x \<and> \<bar>m\<bar> < 2 ^ 53"
proof -
  assume "fl x = x"
  then have x: "x = of_int (rne (x / ulp x)) * ulp x" by (simp add: fl_def)
  have "of_int \<bar>rne (x / ulp x)\<bar> * ulp x = \<bar>x\<bar>"
    by (subst (3) x) (simp add: abs_mult less_imp_le)
  also have "\<dots> < of_int (2 ^ 53) * ulp x" using abs_less_ulp [of x] by simp
  finally have "\<bar>rne (x / ulp x)\<bar> < 2 ^ 53"
    by (simp only: mult_less_cancel_right of_int_less_iff) (auto simp: less_imp_le not_less)
  with x show ?thesis by blast
qed

lemma fl_add_ulp: "fl c = c \<Longrightarrow> 0 \<le> c \<Longrightarrow> fl (c + ulp c) = c + ulp c"
proof -
  assume "fl c = c" "0 \<le> c"
  then obtain m where m: "c = of_int m * ulp c" "\<bar>m\<bar> < 2 ^ 53" using fl_eq_scaled by blast
  have "0 \<le> m" using \<open>0 \<le> c\<close> m(1) by (metis less_imp_le mult_less_0_iff not_less of_int_less_0_iff ulp_pos)
  with m(2) have "fl (of_int (m + 1) * ulp c) = of_int (m + 1) * ulp c"
    unfolding ulp_def by (intro fl_exact) (auto simp: ulp_exp_ge)
  moreover have "of_int (m + 1) * ulp c = c + ulp c" using m(1) by (simp add: algebra_simps)
  ultimately show ?thesis by simp
qed

lemma fl_half_ulp:
  assumes "fl c = c" "0 \<le> c" "even (rne (c / ulp c))"
  shows "fl (c + ulp c / 2) = c"
proof -
  obtain m where m: "c = of_int m * ulp c" "\<bar>m\<bar> < 2 ^ 53" using fl_eq_scaled assms(1) by blast
  have cm: "c / ulp c = of_int m" by (subst m(1)) simp
  have em: "even m" using assms(3) by (simp only: cm rne_of_int)
  have "0 \<le> m" using assms(2) m(1) by (metis less_imp_le mult_less_0_iff not_less of_int_less_0_iff ulp_pos)
  have u: "ulp_exp (c + ulp c / 2) = ulp_exp c"
  proof (rule antisym)
    have "m + 1 \<le> 2 ^ 53" using m(2) by linarith
    then have "of_int (m + 1) * ulp c \<le> of_int (2 ^ 53) * ulp c"
      by (intro mult_right_mono) (simp_all only: of_int_le_iff less_imp_le ulp_pos)
    also have "of_int (m + 1) * ulp c = c + ulp c" using m(1) by (simp add: algebra_simps)
    finally have "c + ulp c \<le> of_int (2 ^ 53) * ulp c" .
    then have "c + ulp c / 2 < of_int (2 ^ 53) * ulp c" using ulp_pos [of c] by linarith
    also have "\<dots> = 2 powi (53 + ulp_exp c)" by (simp add: ulp_def two_powi_add)
    finally have b: "c + ulp c / 2 < 2 powi (53 + ulp_exp c)" .
    have "0 < c + ulp c / 2" using assms(2) ulp_pos [of c] by linarith
    then have "ilog2 \<bar>c + ulp c / 2\<bar> < 53 + ulp_exp c" using b by (simp add: ilog2_less_iff)
    then show "ulp_exp (c + ulp c / 2) \<le> ulp_exp c"
      using ulp_exp_ge [of c] by (auto simp: ulp_exp_def [of "c + ulp c / 2"])
    show "ulp_exp c \<le> ulp_exp (c + ulp c / 2)"
      using assms(2) by (intro ulp_exp_mono) (simp add: less_imp_le)
  qed
  then have "fl (c + ulp c / 2) = of_int (rne (of_int m + 1 / 2)) * ulp c"
    unfolding fl_def ulp_def [of "c + ulp c / 2"] u by (simp add: ulp_def [symmetric] add_divide_distrib cm)
  moreover have "rne (of_int m + 1 / 2) = m"
  proof -
    have "\<lfloor>of_int m + 1 / 2 :: rat\<rfloor> = m" by (intro floor_unique) auto
    then show ?thesis using em by (simp add: rne_def)
  qed
  ultimately show ?thesis using m(1) by simp
qed

section \<open>Fitting a request into a rounded remainder\<close>

lemma fl_fit_bound:
  assumes "0 \<le> u" "u \<le> c" "r \<le> fl (c - u)"
  shows "u + r \<le> c + ulp c / 2"
proof -
  have "fl (c - u) \<le> c - u + ulp (c - u) / 2" using fl_err [of "c - u"] by linarith
  moreover have "ulp (c - u) \<le> ulp c" using assms by (intro ulp_mono) auto
  ultimately show ?thesis using assms(3) by simp
qed

lemma fl_fit_ulp:
  assumes "fl c = c" "0 \<le> u" "u \<le> c" "r \<le> fl (c - u)"
  shows "fl (u + r) \<le> c + ulp c"
proof -
  have "u + r \<le> c + ulp c" using fl_fit_bound [OF assms(2-4)] ulp_pos [of c] by linarith
  then have "fl (u + r) \<le> fl (c + ulp c)" by (rule fl_mono)
  also have "\<dots> = c + ulp c" using assms by (intro fl_add_ulp) auto
  finally show ?thesis .
qed

lemma fl_fit_even:
  assumes "fl c = c" "even (rne (c / ulp c))" "0 \<le> u" "u \<le> c" "r \<le> fl (c - u)"
  shows "fl (u + r) \<le> c"
proof -
  have "fl (u + r) \<le> fl (c + ulp c / 2)" using fl_fit_bound [OF assms(3-5)] by (rule fl_mono)
  also have "\<dots> = c" using assms by (intro fl_half_ulp) auto
  finally show ?thesis .
qed

section \<open>The type of doubles\<close>

typedef double = "{x :: rat. fl x = x}"
  morphisms rat_of Double
  by (rule exI [of _ 0]) simp

setup_lifting type_definition_double

lift_definition dbl :: "rat \<Rightarrow> double" is fl
  by simp

instantiation double :: "{zero, one, plus, minus, uminus, times, inverse, linorder, equal}"
begin
lift_definition zero_double :: double is 0 by simp
lift_definition one_double :: double is 1 by simp
lift_definition plus_double :: "double \<Rightarrow> double \<Rightarrow> double" is "\<lambda>x y. fl (x + y)" by simp
lift_definition minus_double :: "double \<Rightarrow> double \<Rightarrow> double" is "\<lambda>x y. fl (x - y)" by simp
lift_definition uminus_double :: "double \<Rightarrow> double" is "\<lambda>x. - x" by simp
lift_definition times_double :: "double \<Rightarrow> double \<Rightarrow> double" is "\<lambda>x y. fl (x * y)" by simp
lift_definition divide_double :: "double \<Rightarrow> double \<Rightarrow> double" is "\<lambda>x y. fl (x / y)" by simp
lift_definition inverse_double :: "double \<Rightarrow> double" is "\<lambda>x. fl (1 / x)" by simp
lift_definition less_eq_double :: "double \<Rightarrow> double \<Rightarrow> bool" is "(\<le>)" .
lift_definition less_double :: "double \<Rightarrow> double \<Rightarrow> bool" is "(<)" .
lift_definition equal_double :: "double \<Rightarrow> double \<Rightarrow> bool" is "(=)" .
instance
  by standard (transfer; auto)+
end


section \<open>Doubles as rationals\<close>

lemma fl_rat_of [simp]: "fl (rat_of x) = rat_of x"
  using rat_of [of x] by simp

lemma rat_of_dbl [simp]: "rat_of (dbl x) = fl x"
  by (rule dbl.rep_eq)

lemma dbl_rat_of [simp]: "dbl (rat_of x) = x"
  by (simp flip: rat_of_inject)

lemma dbl_fl [simp]: "dbl (fl x) = dbl x"
  by (simp flip: rat_of_inject)

lemmas rat_of_ops =
  zero_double.rep_eq one_double.rep_eq plus_double.rep_eq minus_double.rep_eq
  uminus_double.rep_eq times_double.rep_eq divide_double.rep_eq

lemmas double_iffs = rat_of_inject [symmetric] less_eq_double.rep_eq less_double.rep_eq

text \<open>Literals and arithmetic on them, for evaluation.\<close>

lemma dbl_eq_iff [eval]: "dbl x = dbl y \<longleftrightarrow> fl x = fl y"
  by (simp add: double_iffs)

lemma dbl_le_iff [eval]: "dbl x \<le> dbl y \<longleftrightarrow> fl x \<le> fl y"
  by (simp add: double_iffs)

lemma dbl_less_iff [eval]: "dbl x < dbl y \<longleftrightarrow> fl x < fl y"
  by (simp add: double_iffs)

lemma dbl_plus [eval]: "dbl x + dbl y = dbl (fl x + fl y)"
  by (simp add: double_iffs rat_of_ops)

lemma dbl_minus [eval]: "dbl x - dbl y = dbl (fl x - fl y)"
  by (simp add: double_iffs rat_of_ops)

lemma dbl_times [eval]: "dbl x * dbl y = dbl (fl x * fl y)"
  by (simp add: double_iffs rat_of_ops)

lemma dbl_divide [eval]: "dbl x / dbl y = dbl (fl x / fl y)"
  by (simp add: double_iffs rat_of_ops)

lemma zero_dbl [eval]: "0 = dbl 0"
  by (simp add: double_iffs rat_of_ops)

lemma one_dbl [eval]: "1 = dbl 1"
  by (simp add: double_iffs rat_of_ops)

section \<open>Arithmetic on doubles\<close>

text \<open>Rounded operations are monotone, and exact where a result is representable.\<close>

lemma double_add_0 [simp]: "x + 0 = x" "0 + x = (x :: double)"
  by (simp_all add: double_iffs rat_of_ops)

lemma double_diff_0 [simp]: "x - 0 = (x :: double)"
  by (simp add: double_iffs rat_of_ops)

lemma double_diff_self [simp]: "x - x = (0 :: double)"
  by (simp add: double_iffs rat_of_ops)

lemma double_mult_1 [simp]: "x * 1 = x" "1 * x = (x :: double)"
  by (simp_all add: double_iffs rat_of_ops)

lemma double_mult_0 [simp]: "x * 0 = 0" "0 * x = (0 :: double)"
  by (simp_all add: double_iffs rat_of_ops)

lemma double_divide_1 [simp]: "x / 1 = (x :: double)" "0 / x = 0"
  by (simp_all add: double_iffs rat_of_ops)

lemma double_add_mono: "a \<le> b \<Longrightarrow> c \<le> d \<Longrightarrow> a + c \<le> b + (d :: double)"
  by (simp add: double_iffs rat_of_ops fl_mono)

lemma double_diff_mono: "a \<le> b \<Longrightarrow> d \<le> c \<Longrightarrow> a - c \<le> b - (d :: double)"
  by (simp add: double_iffs rat_of_ops fl_mono)

lemma double_mult_mono: "a \<le> b \<Longrightarrow> c \<le> d \<Longrightarrow> 0 \<le> a \<Longrightarrow> 0 \<le> c \<Longrightarrow> a * c \<le> b * (d :: double)"
  by (simp add: double_iffs rat_of_ops fl_mono mult_mono)

lemma double_divide_mono: "a \<le> b \<Longrightarrow> 0 < c \<Longrightarrow> a / c \<le> b / (c :: double)"
  by (simp add: double_iffs rat_of_ops fl_mono divide_right_mono)

lemma double_add_nonneg: "0 \<le> a \<Longrightarrow> 0 \<le> b \<Longrightarrow> 0 \<le> a + (b :: double)"
  using double_add_mono [of 0 a 0 b] by simp

lemma double_mult_nonneg: "0 \<le> a \<Longrightarrow> 0 \<le> b \<Longrightarrow> 0 \<le> a * (b :: double)"
  using double_mult_mono [of 0 a 0 b] by simp

lemma double_divide_nonneg: "0 \<le> a \<Longrightarrow> 0 < b \<Longrightarrow> 0 \<le> a / (b :: double)"
  using double_divide_mono [of 0 a b] by simp

lemma double_diff_le: "0 \<le> b \<Longrightarrow> a - b \<le> (a :: double)"
  using double_diff_mono [of a a 0 b] by simp

text \<open>Differences of doubles never underflow: \<open>x - y\<close> has the sign of the exact difference.\<close>

lemma double_multiple: "\<exists>m. rat_of x = of_int m * 2 powi (- 1074)"
proof -
  obtain m where m: "rat_of x = of_int m * ulp (rat_of x)" using fl_eq_scaled fl_rat_of by blast
  have "ulp (rat_of x) = 2 powi ((ulp_exp (rat_of x) + 1074) + (- 1074))" by (simp add: ulp_def)
  also have "\<dots> = 2 powi (ulp_exp (rat_of x) + 1074) * 2 powi (- 1074)" by (rule two_powi_add)
  also have "(2 :: rat) powi (ulp_exp (rat_of x) + 1074) = of_int (2 ^ nat (ulp_exp (rat_of x) + 1074))"
    using ulp_exp_ge [of "rat_of x"] by (simp add: power_int_def)
  finally have "rat_of x = of_int (m * 2 ^ nat (ulp_exp (rat_of x) + 1074)) * 2 powi (- 1074)"
    using m by (simp only: of_int_mult mult.assoc)
  then show ?thesis by blast
qed

lemma double_diff_nonneg_iff: "0 \<le> a - (b :: double) \<longleftrightarrow> b \<le> a"
proof
  assume "b \<le> a"
  then show "0 \<le> a - b" using double_diff_mono [of b a b b] by simp
next
  assume ge: "0 \<le> a - b"
  show "b \<le> a"
  proof (rule ccontr)
    assume "\<not> b \<le> a"
    then have lt: "rat_of a < rat_of b" by (simp add: double_iffs)
    obtain m n where mn: "rat_of a = of_int m * 2 powi (- 1074)" "rat_of b = of_int n * 2 powi (- 1074)"
      using double_multiple by meson
    from lt have "m < n" by (simp add: mn mult_less_cancel_right)
    then have "m - n \<le> - 1" by linarith
    then have "rat_of a - rat_of b \<le> of_int (- 1) * 2 powi (- 1074)"
      unfolding mn left_diff_distrib [symmetric] of_int_diff [symmetric]
      by (intro mult_right_mono) (simp_all only: of_int_le_iff less_imp_le two_powi_pos)
    then have "fl (rat_of a - rat_of b) \<le> fl (of_int (- 1) * 2 powi (- 1074))" by (rule fl_mono)
    also have "\<dots> = of_int (- 1) * 2 powi (- 1074)" by (rule fl_exact) auto
    also have "\<dots> < 0" by simp
    finally show False using ge by (simp add: double_iffs rat_of_ops)
  qed
qed

section \<open>Fitting requests on doubles\<close>

text \<open>Whether the significand of a double is even, and the bound on what guarded additions can
  reach under a capacity: the capacity itself, or one unit in the last place more.\<close>

definition even_sig :: "double \<Rightarrow> bool" where
  "even_sig c \<longleftrightarrow> even (rne (rat_of c / ulp (rat_of c)))"

definition fill_bound :: "double \<Rightarrow> rat" where
  "fill_bound c = (if even_sig c then rat_of c else rat_of c + ulp (rat_of c))"

definition fits :: "double \<Rightarrow> double \<Rightarrow> bool" where
  "fits c u \<longleftrightarrow> 0 \<le> u \<and> rat_of u \<le> fill_bound c"

lemma fill_bound_ge: "rat_of c \<le> fill_bound c"
  by (simp add: fill_bound_def less_imp_le)

lemma fitsI: "0 \<le> u \<Longrightarrow> u \<le> c \<Longrightarrow> fits c u"
  using fill_bound_ge [of c] by (auto simp: fits_def double_iffs)

lemma fits_even: "even_sig c \<Longrightarrow> fits c u \<Longrightarrow> u \<le> c"
  by (simp add: fits_def fill_bound_def double_iffs)

lemma fits_mono: "fits c u \<Longrightarrow> 0 \<le> v \<Longrightarrow> v \<le> u \<Longrightarrow> fits c v"
  by (auto simp: fits_def double_iffs)

lemma fits_add:
  assumes "0 \<le> u" "0 \<le> r" "r \<le> c - u"
  shows "fits c (u + r)"
proof -
  have uc: "u \<le> c" using assms(2,3) double_diff_nonneg_iff [of c u] by force
  have "fl (rat_of u + rat_of r) \<le> rat_of c + ulp (rat_of c)"
    using assms uc by (intro fl_fit_ulp) (simp_all add: double_iffs rat_of_ops)
  moreover have "even_sig c \<Longrightarrow> fl (rat_of u + rat_of r) \<le> rat_of c"
    using assms uc by (intro fl_fit_even) (simp_all add: double_iffs rat_of_ops even_sig_def)
  ultimately show ?thesis
    using assms double_add_nonneg by (auto simp: fits_def fill_bound_def rat_of_ops)
qed

lemma fits_give: "fits c u \<Longrightarrow> 0 \<le> r \<Longrightarrow> fits c (max 0 (u - r))"
  by (rule fits_mono) (auto simp: double_diff_le fits_def)

section \<open>Conversions and limits\<close>

text \<open>\<open>static_cast<double>\<close> of an integer, \<open>static_cast<int64_t>\<close> of a double (towards zero), and
  \<open>std::numeric_limits<double>::max()\<close>.\<close>

definition dbl_of_int :: "int \<Rightarrow> double" where
  "dbl_of_int n = dbl (of_int n)"

definition dbl_of_u64 :: "u64 \<Rightarrow> double" where
  "dbl_of_u64 w = dbl_of_int (uint w)"

definition trunc_int :: "double \<Rightarrow> int" where
  "trunc_int x = (if 0 \<le> rat_of x then \<lfloor>rat_of x\<rfloor> else \<lceil>rat_of x\<rceil>)"

definition dbl_max :: double where
  "dbl_max = dbl (of_int (2 ^ 53 - 1) * 2 powi 971)"

lemma dbl_of_int_mono: "m \<le> n \<Longrightarrow> dbl_of_int m \<le> dbl_of_int n"
  by (simp add: dbl_of_int_def dbl_le_iff fl_mono)

lemma dbl_of_int_0 [simp]: "dbl_of_int 0 = 0"
  by (simp add: dbl_of_int_def zero_dbl)

lemma dbl_of_int_less: "m < n \<Longrightarrow> \<bar>m\<bar> \<le> 2 ^ 53 \<Longrightarrow> \<bar>n\<bar> \<le> 2 ^ 53 \<Longrightarrow> dbl_of_int m < dbl_of_int n"
  by (simp add: dbl_of_int_def dbl_less_iff fl_of_int)

lemma rat_of_dbl_max: "rat_of dbl_max = of_int (2 ^ 53 - 1) * 2 powi 971"
  unfolding dbl_max_def rat_of_dbl by (rule fl_exact) auto

lemma dbl_of_int_less_max:
  assumes "n \<le> 2 ^ 64"
  shows "dbl_of_int n < dbl_max"
proof -
  have "(of_int n :: rat) \<le> of_int (2 ^ 64)" using assms by (simp only: of_int_le_iff)
  then have "fl (of_int n) \<le> fl (of_int 1 * 2 powi 64)" by (intro fl_mono) simp
  also have "\<dots> = of_int 1 * 2 powi 64" by (rule fl_exact) auto
  also have "\<dots> < (of_int (2 ^ 53 - 1) :: rat) * 2 powi 971" by simp
  finally show ?thesis by (simp only: dbl_of_int_def double_iffs rat_of_dbl_max rat_of_dbl)
qed

lemma zero_le_one_double: "0 \<le> (1 :: double)"
  by (simp add: double_iffs rat_of_ops)

lemma dbl_nonneg: "0 \<le> q \<Longrightarrow> 0 \<le> dbl q"
  by (simp add: double_iffs rat_of_ops fl_nonneg)

lemma dbl_le: "p \<le> q \<Longrightarrow> dbl p \<le> dbl q"
  by (simp add: double_iffs fl_mono)

lemma fl_63 [simp]: "fl 9223372036854775808 = 9223372036854775808"
  using fl_exact [of 1 63] by simp

lemma rat_of_63: "rat_of (dbl_of_int 9223372036854775808) = 9223372036854775808"
  by (simp add: dbl_of_int_def)

lemma rat_of_minus: "rat_of (x - y) = fl (rat_of x - rat_of y)"
  by (rule minus_double.rep_eq)

end
