(* ===== verification/Sqlite.thy ===== *)
theory Sqlite
  imports Text Binary64
begin

text \<open>
  The interface of SQLite, which the sources only call, as far as \<^verbatim>\<open>database_manager.cpp\<close> uses it:
  a record of functions over an arbitrary state \<open>'d\<close> of the library (its connections, prepared
  statements and tables) that the definitions take as an argument. A pointer that may be null is an
  option of a handle. The second half states what the documentation of SQLite promises and the
  manager relies on, as predicates on such a record.
\<close>

section \<open>The functions\<close>

datatype sql_value = SQL_Null | SQL_Int int | SQL_Real double | SQL_Text string

type_synonym handle = nat

record 'd sqlite =
  sq_open :: "string \<Rightarrow> 'd \<Rightarrow> int \<times> handle option \<times> 'd"
  sq_close :: "handle option \<Rightarrow> 'd \<Rightarrow> int \<times> 'd"
  sq_exec :: "handle option \<Rightarrow> string \<Rightarrow> 'd \<Rightarrow> int \<times> string option \<times> 'd"
  sq_prepare :: "handle option \<Rightarrow> string \<Rightarrow> 'd \<Rightarrow> int \<times> handle option \<times> 'd"
  sq_bind :: "handle \<Rightarrow> nat \<Rightarrow> sql_value \<Rightarrow> 'd \<Rightarrow> 'd"
  sq_step :: "handle \<Rightarrow> 'd \<Rightarrow> int \<times> 'd"
  sq_column :: "handle \<Rightarrow> nat \<Rightarrow> 'd \<Rightarrow> sql_value"
  sq_finalize :: "handle \<Rightarrow> 'd \<Rightarrow> 'd"
  column_double :: "sql_value \<Rightarrow> double"
  column_int64 :: "sql_value \<Rightarrow> int"
  column_int :: "sql_value \<Rightarrow> int"
  column_text :: "sql_value \<Rightarrow> string option"

definition SQLITE_OK :: int where "SQLITE_OK = 0"
definition SQLITE_ROW :: int where "SQLITE_ROW = 100"
definition SQLITE_DONE :: int where "SQLITE_DONE = 101"

lemma sqlite_codes [simp]:
  "SQLITE_ROW \<noteq> SQLITE_DONE" "SQLITE_DONE \<noteq> SQLITE_ROW" "SQLITE_OK \<noteq> SQLITE_ROW" "SQLITE_ROW \<noteq> SQLITE_OK"
  by (simp_all add: SQLITE_OK_def SQLITE_ROW_def SQLITE_DONE_def)

section \<open>What SQLite promises\<close>

text \<open>\<open>live\<close> are the prepared statements that are not finalized yet. Preparing adds one when it
  succeeds on a text that holds a statement, finalizing removes it, nothing else changes them; closing
  succeeds once none is left. \<open>pending\<close> bounds the rows a statement still has.\<close>

definition statements_ok :: "'d sqlite \<Rightarrow> ('d \<Rightarrow> handle set) \<Rightarrow> bool" where
  "statements_ok L live \<longleftrightarrow>
     (\<forall>h sql c rc st c'. sq_prepare L h sql c = (rc, st, c') \<longrightarrow>
        (case st of None \<Rightarrow> live c' = live c | Some s \<Rightarrow> rc = SQLITE_OK \<and> s \<notin> live c \<and> live c' = insert s (live c))) \<and>
     (\<forall>s i v c. live (sq_bind L s i v c) = live c) \<and>
     (\<forall>s c. live (snd (sq_step L s c)) = live c) \<and>
     (\<forall>s c. live (sq_finalize L s c) = live c - {s}) \<and>
     (\<forall>h sql c. live (snd (snd (sq_exec L h sql c))) = live c) \<and>
     (\<forall>h c. live c = {} \<longrightarrow> fst (sq_close L h c) = SQLITE_OK)"

definition rows_finite :: "'d sqlite \<Rightarrow> (handle \<Rightarrow> 'd \<Rightarrow> nat) \<Rightarrow> bool" where
  "rows_finite L pending \<longleftrightarrow> (\<forall>s c c'. sq_step L s c = (SQLITE_ROW, c') \<longrightarrow> pending s c' < pending s c)"

definition columns_ok :: "'d sqlite \<Rightarrow> bool" where
  "columns_ok L \<longleftrightarrow> (\<forall>x. column_double L (SQL_Real x) = x) \<and> (\<forall>n. column_int64 L (SQL_Int n) = n) \<and>
     (\<forall>n. column_int L (SQL_Int n) = n) \<and> (\<forall>s. column_text L (SQL_Text s) = Some s)"

lemma columns_okD:
  assumes "columns_ok L"
  shows "column_double L (SQL_Real x) = x" "column_int64 L (SQL_Int n) = n" "column_int L (SQL_Int n) = n"
    "column_text L (SQL_Text s) = Some s"
  using assms by (simp_all add: columns_ok_def)

lemma statements_okD:
  assumes "statements_ok L live"
  shows "sq_prepare L h sql c = (rc, None, c') \<Longrightarrow> live c' = live c"
    "sq_prepare L h sql c = (rc, Some s, c') \<Longrightarrow> rc = SQLITE_OK \<and> s \<notin> live c \<and> live c' = insert s (live c)"
    "live (sq_bind L s i v c) = live c" "live (snd (sq_step L s c)) = live c" "live (sq_finalize L s c) = live c - {s}"
    "live (snd (snd (sq_exec L h sql c))) = live c" "live c = {} \<Longrightarrow> fst (sq_close L h c) = SQLITE_OK"
  using assms unfolding statements_ok_def by (fastforce split: option.splits)+

section \<open>The columns of a statement\<close>

text \<open>The names a text lists: the columns of \<open>INSERT INTO t (a, b) VALUES (?, ?)\<close> with the value each
  one gets, and the columns of \<open>SELECT a, b FROM t\<close>. The columns that get a parameter are in the order
  of the parameters.\<close>

definition list_items :: "string \<Rightarrow> string list" where
  "list_items s = map trim (split_on (CHR '','') s)"

definition after :: "char \<Rightarrow> string \<Rightarrow> string" where
  "after c s = tl (dropWhile (\<lambda>x. x \<noteq> c) s)"

definition upto :: "char \<Rightarrow> string \<Rightarrow> string" where
  "upto c s = takeWhile (\<lambda>x. x \<noteq> c) s"

definition insert_items :: "string \<Rightarrow> (string \<times> string) list" where
  "insert_items sql =
     zip (list_items (upto (CHR '')'') (after (CHR ''('') sql)))
         (list_items (upto (CHR '')'') (after (CHR ''('') (after (CHR '')'') sql))))"

definition bound_columns :: "string \<Rightarrow> string list" where
  "bound_columns sql = map fst (filter (\<lambda>(c, v). v = ''?'') (insert_items sql))"

definition placeholders :: "string \<Rightarrow> nat" where
  "placeholders sql = length (filter (\<lambda>c. c = CHR ''?'') sql)"

definition select_columns :: "string \<Rightarrow> string list" where
  "select_columns sql =
     list_items (case find_sub '' FROM '' (drop 7 sql) of None \<Rightarrow> drop 7 sql | Some i \<Rightarrow> take i (drop 7 sql))"

end
