(* ===== verification/Constants.thy ===== *)
theory Constants
  imports Binary64
begin

text \<open>
  \<^verbatim>\<open>constants.h\<close>: the named constants of the simulation. The model uses them where the code does; most of
  them are used nowhere in the code, which repeats their values as literals. Their equations are
  rewrite rules, so that a proof sees the values.
\<close>

section \<open>Bounds of resources\<close>

definition kMinCpuPercent :: double where [simp, eval]: "kMinCpuPercent = 0"
definition kMaxCpuPercent :: double where [simp, eval]: "kMaxCpuPercent = dbl 100"
definition kMinRamMb :: double where [simp, eval]: "kMinRamMb = 0"

section \<open>Weights of the allocator\<close>

definition kDefaultCpuWeight :: double where [simp, eval]: "kDefaultCpuWeight = dbl (25 / 100)"
definition kDefaultRamWeight :: double where [simp, eval]: "kDefaultRamWeight = dbl (20 / 100)"
definition kDefaultBandwidthWeight :: double where [simp, eval]: "kDefaultBandwidthWeight = dbl (15 / 100)"
definition kDefaultLatencyWeight :: double where [simp, eval]: "kDefaultLatencyWeight = dbl (15 / 100)"
definition kDefaultQueueWeight :: double where [simp, eval]: "kDefaultQueueWeight = dbl (15 / 100)"
definition kDefaultPriorityWeight :: double where [simp, eval]: "kDefaultPriorityWeight = dbl (10 / 100)"

section \<open>Queues, times and the scale of the simulation\<close>

definition kMaxQueueLengthForScore :: u64 where "kMaxQueueLengthForScore = 100"
definition kDefaultTaskQueueWarnThreshold :: u64 where "kDefaultTaskQueueWarnThreshold = 50"

definition kDefaultTaskDeadlineMs :: int where "kDefaultTaskDeadlineMs = 100"
definition kResourceMonitorPollIntervalMs :: int where "kResourceMonitorPollIntervalMs = 500"
definition kSimulationTickIntervalMs :: int where "kSimulationTickIntervalMs = 100"

definition kDefaultDeviceCount :: u64 where "kDefaultDeviceCount = 100"
definition kDefaultEdgeNodeCount :: u64 where "kDefaultEdgeNodeCount = 10"
definition kDefaultTaskCount :: u64 where "kDefaultTaskCount = 10000"

definition kMaxReallocationAttempts :: "32 word" where "kMaxReallocationAttempts = 3"
definition kNodeFailureDetectionTimeoutMs :: int where "kNodeFailureDetectionTimeoutMs = 1000"

definition kDefaultDbBatchSize :: u64 where "kDefaultDbBatchSize = 100"

lemma queue_ceiling [simp, eval]: "dbl_of_u64 kMaxQueueLengthForScore = dbl 100"
  by (simp add: kMaxQueueLengthForScore_def dbl_of_u64_def dbl_of_int_def)

end
