(* ===== verification/Tasks.thy ===== *)
theory Tasks
  imports Constants "HOL-Library.Signed_Division"
begin

text \<open>
  \<^verbatim>\<open>task.h\<close> and the timing part of \<^verbatim>\<open>task.cpp\<close>: the task object. Its sensor payload is a value of
  the third-party JSON library, so the type \<open>'j\<close> of payloads is a parameter. Time points are
  ticks of the system clock in nanoseconds; every operation that reads the clock takes the
  reading as its argument \<open>now\<close>.

  The two enumerations have an underlying \<open>int\<close> and the code casts unchecked integers (from the
  database and from JSON) into them, so each has a constructor for the unnamed values.
\<close>

section \<open>Priorities and states\<close>

datatype task_priority = LOW | MEDIUM | HIGH | CRITICAL | Unnamed_Priority int

datatype task_status = CREATED | QUEUED | RUNNING | COMPLETED | FAILED | REALLOCATED | Unnamed_Status int

text \<open>\<open>static_cast<int>\<close> of an enumerator and \<open>static_cast<TaskPriority>\<close> of an integer.\<close>

fun priority_to_int :: "task_priority \<Rightarrow> int" where
  "priority_to_int LOW = 0"
| "priority_to_int MEDIUM = 1"
| "priority_to_int HIGH = 2"
| "priority_to_int CRITICAL = 3"
| "priority_to_int (Unnamed_Priority n) = n"

definition priority_of_int :: "int \<Rightarrow> task_priority" where
  "priority_of_int n =
     (if n = 0 then LOW else if n = 1 then MEDIUM else if n = 2 then HIGH
      else if n = 3 then CRITICAL else Unnamed_Priority n)"

fun status_to_int :: "task_status \<Rightarrow> int" where
  "status_to_int CREATED = 0"
| "status_to_int QUEUED = 1"
| "status_to_int RUNNING = 2"
| "status_to_int COMPLETED = 3"
| "status_to_int FAILED = 4"
| "status_to_int REALLOCATED = 5"
| "status_to_int (Unnamed_Status n) = n"

definition status_of_int :: "int \<Rightarrow> task_status" where
  "status_of_int n =
     (if n = 0 then CREATED else if n = 1 then QUEUED else if n = 2 then RUNNING
      else if n = 3 then COMPLETED else if n = 4 then FAILED else if n = 5 then REALLOCATED
      else Unnamed_Status n)"

lemma priority_to_of_int [simp]: "priority_to_int (priority_of_int n) = n"
  by (simp add: priority_of_int_def)

lemma status_to_of_int [simp]: "status_to_int (status_of_int n) = n"
  by (simp add: status_of_int_def)

text \<open>The values that name an enumerator in exactly one way.\<close>

definition proper_priority :: "task_priority \<Rightarrow> bool" where
  "proper_priority p \<longleftrightarrow> priority_of_int (priority_to_int p) = p"

definition proper_status :: "task_status \<Rightarrow> bool" where
  "proper_status p \<longleftrightarrow> status_of_int (status_to_int p) = p"

lemma proper_priority_of_int [simp]: "proper_priority (priority_of_int n)"
  by (simp add: proper_priority_def)

section \<open>Requirements and tasks\<close>

record requirements =
  cpu_percent :: double
  ram_mb :: double
  bandwidth_mbps :: double
  deadline_ms :: int
  priority :: task_priority

text \<open>No component of a request is negative: the side condition of the resource accounting.\<close>

definition req_ok :: "requirements \<Rightarrow> bool" where
  "req_ok r \<longleftrightarrow> 0 \<le> cpu_percent r \<and> 0 \<le> ram_mb r \<and> 0 \<le> bandwidth_mbps r"

record 'j task =
  task_id :: string
  device_id :: string
  sensor_type :: string
  reqs :: requirements
  sensor_data :: 'j
  status :: task_status
  assigned_edge_id :: string
  creation_time :: int
  completion_time :: int

text \<open>The constructor: the clock reading becomes the creation time, the completion time is the
  epoch.\<close>

definition new_task :: "int \<Rightarrow> string \<Rightarrow> string \<Rightarrow> string \<Rightarrow> requirements \<Rightarrow> 'j \<Rightarrow> 'j task" where
  "new_task now tid dev sensor req data =
     \<lparr>task_id = tid, device_id = dev, sensor_type = sensor, reqs = req, sensor_data = data,
      status = CREATED, assigned_edge_id = '''', creation_time = now, completion_time = 0\<rparr>"

definition setStatus :: "task_status \<Rightarrow> 'j task \<Rightarrow> 'j task" where
  "setStatus st t = t\<lparr>status := st\<rparr>"

definition setAssignedEdgeId :: "string \<Rightarrow> 'j task \<Rightarrow> 'j task" where
  "setAssignedEdgeId e t = t\<lparr>assigned_edge_id := e\<rparr>"

definition setCompletionTime :: "int \<Rightarrow> 'j task \<Rightarrow> 'j task" where
  "setCompletionTime tm t = t\<lparr>completion_time := tm\<rparr>"

lemma setters_frame [simp]:
  "reqs (setStatus st t) = reqs t" "reqs (setAssignedEdgeId e t) = reqs t" "reqs (setCompletionTime tm t) = reqs t"
  "creation_time (setStatus st t) = creation_time t"
  "creation_time (setAssignedEdgeId e t) = creation_time t"
  "creation_time (setCompletionTime tm t) = creation_time t"
  "task_id (setStatus st t) = task_id t" "task_id (setAssignedEdgeId e t) = task_id t"
  "task_id (setCompletionTime tm t) = task_id t"
  "status (setStatus st t) = st" "status (setAssignedEdgeId e t) = status t" "status (setCompletionTime tm t) = status t"
  "assigned_edge_id (setAssignedEdgeId e t) = e" "assigned_edge_id (setStatus st t) = assigned_edge_id t"
  "assigned_edge_id (setCompletionTime tm t) = assigned_edge_id t"
  by (simp_all add: setStatus_def setAssignedEdgeId_def setCompletionTime_def)

section \<open>Deadlines\<close>

text \<open>\<open>duration_cast<milliseconds>\<close> of a duration in nanoseconds truncates towards zero.\<close>

definition to_millis :: "int \<Rightarrow> int" where
  "to_millis ns = ns sdiv 1000000"

definition getElapsedTimeMs :: "int \<Rightarrow> 'j task \<Rightarrow> int" where
  "getElapsedTimeMs now t = to_millis (now - creation_time t)"

definition getRemainingTimeMs :: "int \<Rightarrow> 'j task \<Rightarrow> int" where
  "getRemainingTimeMs now t = deadline_ms (reqs t) - getElapsedTimeMs now t"

definition isDeadlineExceeded :: "int \<Rightarrow> 'j task \<Rightarrow> bool" where
  "isDeadlineExceeded now t \<longleftrightarrow> getElapsedTimeMs now t > deadline_ms (reqs t)"

lemma to_millis_nonneg: "0 \<le> ns \<Longrightarrow> to_millis ns = ns div 1000000"
  by (cases "ns = 0") (simp_all add: to_millis_def signed_divide_int_def)

lemma to_millis_neg: "ns < 0 \<Longrightarrow> to_millis ns = - ((- ns) div 1000000)"
  by (simp add: to_millis_def signed_divide_int_def)

lemma to_millis_mono:
  assumes "a \<le> b"
  shows "to_millis a \<le> to_millis b"
proof -
  consider "0 \<le> a" | "a < 0" "0 \<le> b" | "b < 0" using assms by linarith
  then show ?thesis
  proof cases
    case 1
    then show ?thesis using assms by (simp add: to_millis_nonneg zdiv_mono1)
  next
    case 2
    then have "0 \<le> (- a) div 1000000" "0 \<le> b div 1000000" by (simp_all add: pos_imp_zdiv_nonneg_iff)
    with 2 show ?thesis by (simp add: to_millis_nonneg to_millis_neg)
  next
    case 3
    then show ?thesis using assms by (simp add: to_millis_neg zdiv_mono1)
  qed
qed

lemma less_div_millis: "(d :: int) < x div 1000000 \<longleftrightarrow> (d + 1) * 1000000 \<le> x"
proof
  assume "d < x div 1000000"
  then have "(d + 1) * 1000000 \<le> x div 1000000 * 1000000" by simp
  also have "\<dots> \<le> x" using div_mult_mod_eq [of x 1000000] pos_mod_sign [of 1000000 x] by linarith
  finally show "(d + 1) * 1000000 \<le> x" .
next
  assume "(d + 1) * 1000000 \<le> x"
  then have "(d + 1) * 1000000 div 1000000 \<le> x div 1000000" by (rule zdiv_mono1) simp
  then show "d < x div 1000000" by simp
qed

lemma remaining_antimono: "now \<le> later \<Longrightarrow> getRemainingTimeMs later t \<le> getRemainingTimeMs now t"
  by (simp add: getRemainingTimeMs_def getElapsedTimeMs_def to_millis_mono)

lemma exceeded_iff_remaining: "isDeadlineExceeded now t \<longleftrightarrow> getRemainingTimeMs now t < 0"
  by (auto simp: isDeadlineExceeded_def getRemainingTimeMs_def)

text \<open>A missed deadline stays missed, and the first missed nanosecond is \<open>deadline + 1\<close>
  milliseconds after creation.\<close>

lemma deadline_stays_exceeded: "isDeadlineExceeded now t \<Longrightarrow> now \<le> later \<Longrightarrow> isDeadlineExceeded later t"
  using remaining_antimono [of now later t] by (simp add: exceeded_iff_remaining)

lemma isDeadlineExceeded_iff:
  assumes "0 \<le> deadline_ms (reqs t)"
  shows "isDeadlineExceeded now t \<longleftrightarrow> creation_time t + (deadline_ms (reqs t) + 1) * 1000000 \<le> now"
proof (cases "creation_time t \<le> now")
  case True
  then show ?thesis
    using less_div_millis [of "deadline_ms (reqs t)" "now - creation_time t"]
    by (simp add: isDeadlineExceeded_def getElapsedTimeMs_def to_millis_nonneg) linarith
next
  case False
  then have "to_millis (now - creation_time t) \<le> 0"
    using to_millis_mono [of "now - creation_time t" 0] by (simp add: to_millis_nonneg)
  with False assms show ?thesis
    by (auto simp: isDeadlineExceeded_def getElapsedTimeMs_def)
qed

section \<open>Properties\<close>

text \<open>for a deadline that is not negative, a task has missed it from exactly the nanosecond at which
  \<open>deadline + 1\<close> milliseconds have passed since its creation, and from then on for ever; the
  remaining time is then negative and never grows.\<close>

theorem deadline_exact:
  assumes "0 \<le> deadline_ms (reqs t)" "now \<le> later"
  shows "(isDeadlineExceeded now t \<longleftrightarrow> creation_time t + (deadline_ms (reqs t) + 1) * 1000000 \<le> now) \<and>
    (isDeadlineExceeded now t \<longleftrightarrow> getRemainingTimeMs now t < 0) \<and>
    getRemainingTimeMs later t \<le> getRemainingTimeMs now t \<and>
    (isDeadlineExceeded now t \<longrightarrow> isDeadlineExceeded later t)"
  using assms by (auto simp: isDeadlineExceeded_iff exceeded_iff_remaining [symmetric] remaining_antimono deadline_stays_exceeded)

theorem deadline_exact_witness:
  "isDeadlineExceeded 501000000 (new_task 0 ''T'' ''D'' ''s'' \<lparr>cpu_percent = 0, ram_mb = 0, bandwidth_mbps = 0, deadline_ms = 500, priority = LOW\<rparr> ())"
  using deadline_exact [of "new_task 0 ''T'' ''D'' ''s'' \<lparr>cpu_percent = 0, ram_mb = 0, bandwidth_mbps = 0, deadline_ms = 500, priority = LOW\<rparr> ()"
      501000000 501000000]
  by (simp add: new_task_def)

end
