(* ===== verification/Edge_Node.thy ===== *)
theory Edge_Node
  imports Tasks
begin

text \<open>
  \<^verbatim>\<open>edge_node.h\<close> and \<^verbatim>\<open>edge_node.cpp\<close>: one edge node, its capacities, its current usage and its
  queue of tasks. Each method of the class holds the node's mutex for its whole body, so each is
  one state change here. The queue holds references to task objects; no caller enqueues a null
  pointer (the scheduler returns early on one).

  The random draws of \<open>simulateResourceFluctuation\<close> are its arguments. \<open>total_tasks_failed\<close> is a
  member that no method of the class writes.
\<close>

section \<open>State\<close>

record resource_capacity =
  cap_cpu_percent :: double
  cap_ram_mb :: double
  cap_bandwidth_mbps :: double
  latency_ms :: int

record resource_usage =
  used_cpu_percent :: double
  used_ram_mb :: double
  used_bandwidth_mbps :: double

record edge_node =
  edge_id :: string
  capacity :: resource_capacity
  current_usage :: resource_usage
  task_queue :: "tref list"
  is_available :: bool
  total_tasks_processed :: u64
  total_tasks_failed :: u64

definition new_edge_node :: "string \<Rightarrow> resource_capacity \<Rightarrow> edge_node" where
  "new_edge_node eid c =
     \<lparr>edge_id = eid, capacity = c,
      current_usage = \<lparr>used_cpu_percent = 0, used_ram_mb = 0, used_bandwidth_mbps = 0\<rparr>,
      task_queue = [], is_available = True, total_tasks_processed = 0, total_tasks_failed = 0\<rparr>"

section \<open>Queries\<close>

definition getAvailableCpuPercent :: "edge_node \<Rightarrow> double" where
  "getAvailableCpuPercent n = cap_cpu_percent (capacity n) - used_cpu_percent (current_usage n)"

definition getAvailableRamMb :: "edge_node \<Rightarrow> double" where
  "getAvailableRamMb n = cap_ram_mb (capacity n) - used_ram_mb (current_usage n)"

definition getAvailableBandwidthMbps :: "edge_node \<Rightarrow> double" where
  "getAvailableBandwidthMbps n = cap_bandwidth_mbps (capacity n) - used_bandwidth_mbps (current_usage n)"

definition getLatencyMs :: "edge_node \<Rightarrow> int" where
  "getLatencyMs n = latency_ms (capacity n)"

definition getQueueLength :: "edge_node \<Rightarrow> int" where
  "getQueueLength n = int (length (task_queue n))"

definition hasTasksInQueue :: "edge_node \<Rightarrow> bool" where
  "hasTasksInQueue n \<longleftrightarrow> task_queue n \<noteq> []"

text \<open>\<open>getQueuedTasks\<close> pops a copy of the queue into a vector.\<close>

fun pop_all :: "tref list \<Rightarrow> tref list \<Rightarrow> tref list" where
  "pop_all [] result = result"
| "pop_all (t # copy) result = pop_all copy (result @ [t])"

definition getQueuedTasks :: "edge_node \<Rightarrow> tref list" where
  "getQueuedTasks n = pop_all (task_queue n) []"

section \<open>Queue and resources\<close>

definition enqueueTask :: "tref \<Rightarrow> edge_node \<Rightarrow> edge_node" where
  "enqueueTask t n = n\<lparr>task_queue := task_queue n @ [t]\<rparr>"

definition dequeueTask :: "edge_node \<Rightarrow> tref option \<times> edge_node" where
  "dequeueTask n = (case task_queue n of [] \<Rightarrow> (None, n) | t # q \<Rightarrow> (Some t, n\<lparr>task_queue := q\<rparr>))"

definition canAllocate :: "double \<Rightarrow> double \<Rightarrow> double \<Rightarrow> edge_node \<Rightarrow> bool" where
  "canAllocate cpu ram bandwidth n \<longleftrightarrow>
     (let available_cpu = cap_cpu_percent (capacity n) - used_cpu_percent (current_usage n);
          available_ram = cap_ram_mb (capacity n) - used_ram_mb (current_usage n);
          available_bandwidth = cap_bandwidth_mbps (capacity n) - used_bandwidth_mbps (current_usage n)
      in is_available n \<and> available_cpu \<ge> cpu \<and> available_ram \<ge> ram \<and> available_bandwidth \<ge> bandwidth)"

definition allocateResources :: "double \<Rightarrow> double \<Rightarrow> double \<Rightarrow> edge_node \<Rightarrow> edge_node" where
  "allocateResources cpu ram bandwidth n =
     n\<lparr>current_usage :=
         \<lparr>used_cpu_percent = used_cpu_percent (current_usage n) + cpu,
          used_ram_mb = used_ram_mb (current_usage n) + ram,
          used_bandwidth_mbps = used_bandwidth_mbps (current_usage n) + bandwidth\<rparr>,
       total_tasks_processed := total_tasks_processed n + 1\<rparr>"

definition deallocateResources :: "double \<Rightarrow> double \<Rightarrow> double \<Rightarrow> edge_node \<Rightarrow> edge_node" where
  "deallocateResources cpu ram bandwidth n =
     n\<lparr>current_usage :=
         \<lparr>used_cpu_percent = max kMinCpuPercent (used_cpu_percent (current_usage n) - cpu),
          used_ram_mb = max kMinRamMb (used_ram_mb (current_usage n) - ram),
          used_bandwidth_mbps = max 0 (used_bandwidth_mbps (current_usage n) - bandwidth)\<rparr>\<rparr>"

definition setAvailable :: "bool \<Rightarrow> edge_node \<Rightarrow> edge_node" where
  "setAvailable b n = n\<lparr>is_available := b\<rparr>"

definition setLatencyMs :: "int \<Rightarrow> edge_node \<Rightarrow> edge_node" where
  "setLatencyMs l n = n\<lparr>capacity := (capacity n)\<lparr>latency_ms := l\<rparr>\<rparr>"

text \<open>The first draw moves the CPU usage, the second the RAM usage.\<close>

definition simulateResourceFluctuation :: "double \<Rightarrow> double \<Rightarrow> edge_node \<Rightarrow> edge_node" where
  "simulateResourceFluctuation draw1 draw2 n =
     (let c = capacity n; u = current_usage n
      in n\<lparr>current_usage := u
            \<lparr>used_cpu_percent := clamp (used_cpu_percent u + draw1) kMinCpuPercent (cap_cpu_percent c),
             used_ram_mb := clamp (used_ram_mb u + draw2 * (cap_ram_mb c / dbl 100)) kMinRamMb (cap_ram_mb c)\<rparr>\<rparr>)"

section \<open>The queue is first-in first-out\<close>

interpretation node_queue: fifo enqueueTask dequeueTask task_queue
  by unfold_locales (auto simp: enqueueTask_def dequeueTask_def)

lemma pop_all_eq: "pop_all q result = result @ q"
  by (induction q result rule: pop_all.induct) auto

lemma getQueuedTasks_eq [simp]: "getQueuedTasks n = task_queue n"
  by (simp add: getQueuedTasks_def pop_all_eq)

lemma queue_frame [simp]:
  "capacity (enqueueTask t n) = capacity n" "current_usage (enqueueTask t n) = current_usage n"
  "is_available (enqueueTask t n) = is_available n" "edge_id (enqueueTask t n) = edge_id n"
  "capacity (snd (dequeueTask n)) = capacity n" "current_usage (snd (dequeueTask n)) = current_usage n"
  "is_available (snd (dequeueTask n)) = is_available n" "edge_id (snd (dequeueTask n)) = edge_id n"
  by (auto simp: enqueueTask_def dequeueTask_def split: list.splits)

lemma resource_frame [simp]:
  "capacity (allocateResources c r b n) = capacity n" "capacity (deallocateResources c r b n) = capacity n"
  "capacity (simulateResourceFluctuation d e n) = capacity n" "capacity (setAvailable a n) = capacity n"
  "task_queue (allocateResources c r b n) = task_queue n" "task_queue (deallocateResources c r b n) = task_queue n"
  "task_queue (simulateResourceFluctuation d e n) = task_queue n" "task_queue (setAvailable a n) = task_queue n"
  "is_available (allocateResources c r b n) = is_available n"
  "is_available (deallocateResources c r b n) = is_available n"
  "is_available (simulateResourceFluctuation d e n) = is_available n" "is_available (setAvailable a n) = a"
  "edge_id (allocateResources c r b n) = edge_id n" "edge_id (deallocateResources c r b n) = edge_id n"
  "edge_id (simulateResourceFluctuation d e n) = edge_id n" "edge_id (setAvailable a n) = edge_id n"
  "current_usage (setAvailable a n) = current_usage n"
  by (auto simp: allocateResources_def deallocateResources_def simulateResourceFluctuation_def
      setAvailable_def Let_def)

section \<open>Reserving and releasing\<close>

text \<open>The calls the allocator and the executor make, on a request.\<close>

abbreviation can_host :: "requirements \<Rightarrow> edge_node \<Rightarrow> bool" where
  "can_host r \<equiv> canAllocate (cpu_percent r) (ram_mb r) (bandwidth_mbps r)"

abbreviation reserve :: "requirements \<Rightarrow> edge_node \<Rightarrow> edge_node" where
  "reserve r \<equiv> allocateResources (cpu_percent r) (ram_mb r) (bandwidth_mbps r)"

abbreviation release :: "requirements \<Rightarrow> edge_node \<Rightarrow> edge_node" where
  "release r \<equiv> deallocateResources (cpu_percent r) (ram_mb r) (bandwidth_mbps r)"

text \<open>The accounting invariant: no usage is negative, and none is above what guarded
  reservations can reach under the capacity.\<close>

definition node_ok :: "edge_node \<Rightarrow> bool" where
  "node_ok n \<longleftrightarrow>
     fits (cap_cpu_percent (capacity n)) (used_cpu_percent (current_usage n)) \<and>
     fits (cap_ram_mb (capacity n)) (used_ram_mb (current_usage n)) \<and>
     fits (cap_bandwidth_mbps (capacity n)) (used_bandwidth_mbps (current_usage n))"

text \<open>Capacities are not negative, the CPU capacity is of a plausible size and the latency is not
  the largest \<open>int64_t\<close>, the value the allocator starts its search for the lowest latency from.\<close>

definition cap_ok :: "resource_capacity \<Rightarrow> bool" where
  "cap_ok c \<longleftrightarrow> 0 \<le> cap_cpu_percent c \<and> 0 \<le> cap_ram_mb c \<and> 0 \<le> cap_bandwidth_mbps c \<and>
     cap_cpu_percent c \<le> dbl_of_int (2 ^ 63) \<and> latency_ms c < 2 ^ 63 - 1"

text \<open>The contract of a node towards whoever reserves on it.\<close>

locale reservation =
  fixes can :: "'r \<Rightarrow> 'n \<Rightarrow> bool"
    and take :: "'r \<Rightarrow> 'n \<Rightarrow> 'n"
    and give :: "'r \<Rightarrow> 'n \<Rightarrow> 'n"
    and ok :: "'n \<Rightarrow> bool"
    and ok_req :: "'r \<Rightarrow> bool"
  assumes take_ok: "ok n \<Longrightarrow> ok_req r \<Longrightarrow> can r n \<Longrightarrow> ok (take r n)"
    and give_ok: "ok n \<Longrightarrow> ok_req r \<Longrightarrow> ok (give r n)"
    and can_give: "ok n \<Longrightarrow> ok_req r \<Longrightarrow> can q n \<Longrightarrow> can q (give r n)"
    and can_take: "ok n \<Longrightarrow> ok_req r \<Longrightarrow> can q (take r n) \<Longrightarrow> can q n"
begin

text \<open>Releases by others, however many, never take away the room a reservation has seen.\<close>

lemma gives_ok: "ok n \<Longrightarrow> \<forall>r\<in>set rs. ok_req r \<Longrightarrow> ok (fold give rs n)"
  by (induction rs arbitrary: n) (auto simp: give_ok)

lemma can_gives: "ok n \<Longrightarrow> \<forall>r\<in>set rs. ok_req r \<Longrightarrow> can q n \<Longrightarrow> can q (fold give rs n)"
  by (induction rs arbitrary: n) (auto simp: give_ok can_give)

lemma take_after_gives:
  "ok n \<Longrightarrow> \<forall>r\<in>set rs. ok_req r \<Longrightarrow> ok_req q \<Longrightarrow> can q n \<Longrightarrow> ok (take q (fold give rs n))"
  by (simp add: gives_ok can_gives take_ok)

end

lemma node_ok_reserve: "node_ok n \<Longrightarrow> req_ok r \<Longrightarrow> can_host r n \<Longrightarrow> node_ok (reserve r n)"
  by (auto simp: node_ok_def canAllocate_def allocateResources_def req_ok_def Let_def fits_def [of _ "used_cpu_percent _"]
      fits_def [of _ "used_ram_mb _"] fits_def [of _ "used_bandwidth_mbps _"] intro: fits_add)

lemma node_ok_release: "node_ok n \<Longrightarrow> req_ok r \<Longrightarrow> node_ok (release r n)"
  by (auto simp: node_ok_def deallocateResources_def req_ok_def intro: fits_give)

lemma max_give_le: "fits c u \<Longrightarrow> 0 \<le> r \<Longrightarrow> max 0 (u - r) \<le> u"
  by (auto simp: fits_def double_diff_le)

lemma can_host_release: "node_ok n \<Longrightarrow> req_ok r \<Longrightarrow> can_host q n \<Longrightarrow> can_host q (release r n)"
  by (auto simp: node_ok_def deallocateResources_def canAllocate_def req_ok_def Let_def
      intro: order_trans [OF _ double_diff_mono] dest: max_give_le)

lemma can_host_reserve: "req_ok r \<Longrightarrow> can_host q (reserve r n) \<Longrightarrow> can_host q n"
  by (auto simp: canAllocate_def allocateResources_def req_ok_def Let_def
      intro: order_trans [OF _ double_diff_mono] double_add_mono [of u u 0 for u, simplified])

interpretation node_account: reservation can_host reserve release node_ok req_ok
  by unfold_locales (auto simp: node_ok_reserve node_ok_release can_host_release dest: can_host_reserve)

lemma node_ok_new: "cap_ok c \<Longrightarrow> node_ok (new_edge_node eid c)"
  by (auto simp: node_ok_def new_edge_node_def cap_ok_def intro: fitsI)

lemma node_ok_fluctuation:
  "node_ok n \<Longrightarrow> cap_ok (capacity n) \<Longrightarrow> node_ok (simulateResourceFluctuation d e n)"
  using clamp_bounds [of 0 "cap_cpu_percent (capacity n)" "used_cpu_percent (current_usage n) + d"]
    clamp_bounds [of 0 "cap_ram_mb (capacity n)" "used_ram_mb (current_usage n) + e * (cap_ram_mb (capacity n) / dbl 100)"]
  by (auto simp: node_ok_def simulateResourceFluctuation_def cap_ok_def Let_def intro: fitsI)

lemma node_ok_frame [simp]:
  "node_ok (enqueueTask t n) = node_ok n" "node_ok (snd (dequeueTask n)) = node_ok n"
  "node_ok (setAvailable b n) = node_ok n"
  by (simp_all add: node_ok_def)


section \<open>Properties\<close>

text \<open>C35: checking for room and reserving are two calls, between which other threads may give back any
  number of reservations. They cannot invalidate the check: the room is still there and the
  accounting invariant of the node survives the reservation.\<close>

theorem check_then_reserve_safe:
  assumes "node_ok n" "can_host r n" "req_ok r" "\<forall>q\<in>set others. req_ok q"
  shows "can_host r (fold release others n) \<and> node_ok (reserve r (fold release others n))"
  using node_account.can_gives [OF assms(1,4,2)] node_account.take_after_gives [OF assms(1,4,3,2)] by blast

text \<open>giving back a reservation restores the usage from before it, provided the sums are exact.\<close>

theorem release_undoes_reserve:
  assumes "node_ok n"
    and "rat_of (used_cpu_percent (current_usage n) + cpu_percent r) = rat_of (used_cpu_percent (current_usage n)) + rat_of (cpu_percent r)"
    and "rat_of (used_ram_mb (current_usage n) + ram_mb r) = rat_of (used_ram_mb (current_usage n)) + rat_of (ram_mb r)"
    and "rat_of (used_bandwidth_mbps (current_usage n) + bandwidth_mbps r) =
           rat_of (used_bandwidth_mbps (current_usage n)) + rat_of (bandwidth_mbps r)"
  shows "current_usage (release r (reserve r n)) = current_usage n \<and> capacity (release r (reserve r n)) = capacity n \<and>
    task_queue (release r (reserve r n)) = task_queue n"
proof -
  have undo: "max 0 (u + x - x) = u" if "fits c u" "rat_of (u + x) = rat_of u + rat_of x" for c u x :: double
  proof -
    have "rat_of (u + x - x) = rat_of u" by (simp add: rat_of_minus that(2))
    then have "u + x - x = u" by (simp add: rat_of_inject)
    with that(1) show ?thesis by (simp add: fits_def max_def)
  qed
  show ?thesis
    using undo [OF _ assms(2), of "cap_cpu_percent (capacity n)"] undo [OF _ assms(3), of "cap_ram_mb (capacity n)"]
      undo [OF _ assms(4), of "cap_bandwidth_mbps (capacity n)"] assms(1)
    by (cases n) (simp add: node_ok_def allocateResources_def deallocateResources_def)
qed

text \<open>the random fluctuation moves the CPU and RAM usage, whatever it draws, only within the capacity
  and leaves everything else of the node alone.\<close>

theorem fluctuation_within_capacity:
  assumes "cap_ok (capacity n)"
  shows "0 \<le> used_cpu_percent (current_usage (simulateResourceFluctuation d1 d2 n)) \<and>
    used_cpu_percent (current_usage (simulateResourceFluctuation d1 d2 n)) \<le> cap_cpu_percent (capacity n) \<and>
    0 \<le> used_ram_mb (current_usage (simulateResourceFluctuation d1 d2 n)) \<and>
    used_ram_mb (current_usage (simulateResourceFluctuation d1 d2 n)) \<le> cap_ram_mb (capacity n) \<and>
    simulateResourceFluctuation d1 d2 n = n\<lparr>current_usage := current_usage (simulateResourceFluctuation d1 d2 n)\<rparr> \<and>
    used_bandwidth_mbps (current_usage (simulateResourceFluctuation d1 d2 n)) = used_bandwidth_mbps (current_usage n)"
  using clamp_bounds [of 0 "cap_cpu_percent (capacity n)"] clamp_bounds [of 0 "cap_ram_mb (capacity n)"] assms
  by (simp add: simulateResourceFluctuation_def Let_def cap_ok_def)

text \<open>A node with some load, and a request.\<close>

definition loaded_node :: edge_node where
  "loaded_node = (new_edge_node ''edge'' \<lparr>cap_cpu_percent = dbl 100, cap_ram_mb = dbl 4096, cap_bandwidth_mbps = dbl 128, latency_ms = 9\<rparr>)
     \<lparr>current_usage := \<lparr>used_cpu_percent = dbl 30, used_ram_mb = dbl 512, used_bandwidth_mbps = dbl 4\<rparr>\<rparr>"

definition small_request :: requirements where
  "small_request = \<lparr>cpu_percent = dbl 10, ram_mb = dbl 64, bandwidth_mbps = dbl 2, deadline_ms = 100, priority = HIGH\<rparr>"

lemma loaded_node_ok: "node_ok loaded_node" "req_ok small_request" "can_host small_request loaded_node" "cap_ok (capacity loaded_node)"
  by (auto simp: loaded_node_def small_request_def node_ok_def req_ok_def canAllocate_def new_edge_node_def Let_def
      cap_ok_def dbl_of_int_def eval intro!: fitsI fl_nonneg fl_mono)

theorem check_then_reserve_safe_witness:
  "can_host small_request (release small_request loaded_node) \<and> node_ok (reserve small_request (release small_request loaded_node))"
  using check_then_reserve_safe [OF loaded_node_ok(1,3,2), of "[small_request]"] loaded_node_ok(2) by simp

theorem release_undoes_reserve_witness:
  "current_usage (release small_request (reserve small_request loaded_node)) = current_usage loaded_node"
  using release_undoes_reserve [OF loaded_node_ok(1), of small_request]
  by (simp add: loaded_node_def small_request_def new_edge_node_def dbl_plus)

theorem fluctuation_within_capacity_witness:
  "used_cpu_percent (current_usage (simulateResourceFluctuation (dbl 5) (dbl (- 5)) loaded_node)) \<le> cap_cpu_percent (capacity loaded_node)"
  using fluctuation_within_capacity [OF loaded_node_ok(4)] by blast

end
