(* ===== verification/Task_Profiles.thy ===== *)
theory Task_Profiles
  imports Tasks
begin

text \<open>
  \<^verbatim>\<open>task_profile.h\<close> and \<^verbatim>\<open>task_profile.cpp\<close>: the table of resource requirements per sensor type.
  The profile table of the database is external: \<open>loadProfiles\<close> takes what SQLite answers,
  either a failure to open the file or to prepare the query, or the rows it steps through.
\<close>

section \<open>The table and its defaults\<close>

type_synonym profiles = "(string \<times> requirements) list"

definition mk_req :: "rat \<Rightarrow> rat \<Rightarrow> rat \<Rightarrow> int \<Rightarrow> task_priority \<Rightarrow> requirements" where
  "mk_req c r b d p =
     \<lparr>cpu_percent = dbl c, ram_mb = dbl r, bandwidth_mbps = dbl b, deadline_ms = d, priority = p\<rparr>"

definition initializeDefaultProfiles :: "profiles \<Rightarrow> profiles" where
  "initializeDefaultProfiles ps =
     map_put ''pressure'' (mk_req 5 20 (1 / 2) 500 LOW)
    (map_put ''humidity'' (mk_req 5 20 (1 / 2) 500 LOW)
    (map_put ''camera'' (mk_req 60 1024 20 50 CRITICAL)
    (map_put ''temperature'' (mk_req 5 20 (1 / 2) 500 MEDIUM)
    (map_put ''ultrasonic'' (mk_req 10 50 1 100 HIGH) ps))))"

definition addProfile :: "string \<Rightarrow> requirements \<Rightarrow> profiles \<Rightarrow> profiles" where
  "addProfile sensor req ps = map_put sensor req ps"

definition fallback_requirements :: requirements where
  "fallback_requirements = mk_req 5 20 (1 / 2) 1000 LOW"

definition getRequirements :: "profiles \<Rightarrow> string \<Rightarrow> requirements" where
  "getRequirements ps sensor =
     (case map_of ps sensor of Some req \<Rightarrow> req | None \<Rightarrow> fallback_requirements)"

definition hasProfile :: "profiles \<Rightarrow> string \<Rightarrow> bool" where
  "hasProfile ps sensor \<longleftrightarrow> map_of ps sensor \<noteq> None"

section \<open>Loading from the database\<close>

text \<open>A row holds the columns \<open>sensor_type\<close> (null or text), \<open>cpu_percent\<close>, \<open>ram_mb\<close>,
  \<open>bandwidth_mbps\<close>, \<open>deadline_ms\<close> and \<open>priority\<close>.\<close>

type_synonym profile_row = "string option \<times> double \<times> double \<times> double \<times> int \<times> int"

datatype profile_source = Open_Failed | Prepare_Failed | Rows "profile_row list"

fun load_rows :: "profile_row list \<Rightarrow> profiles \<Rightarrow> profiles" where
  "load_rows [] ps = ps"
| "load_rows ((None, _) # rows) ps = load_rows rows ps"
| "load_rows ((Some sensor, c, r, b, d, p) # rows) ps =
     load_rows rows (map_put sensor
       \<lparr>cpu_percent = c, ram_mb = r, bandwidth_mbps = b, deadline_ms = d, priority = priority_of_int p\<rparr> ps)"

definition loadProfiles :: "profile_source \<Rightarrow> profiles \<Rightarrow> profiles" where
  "loadProfiles src ps =
     (let ps' = initializeDefaultProfiles ps
      in case src of Open_Failed \<Rightarrow> ps' | Prepare_Failed \<Rightarrow> ps' | Rows rows \<Rightarrow> load_rows rows ps')"

section \<open>Properties\<close>

interpretation profile_table: registry addProfile "map_of :: profiles \<Rightarrow> string \<Rightarrow> requirements option" map_ok
  by unfold_locales (simp_all add: addProfile_def map_ok_put)

lemma getRequirements_add:
  "getRequirements (addProfile s r ps) t = (if t = s then r else getRequirements ps t)"
  by (simp add: getRequirements_def addProfile_def)

lemma load_rows_keeps: "hasProfile ps s \<Longrightarrow> hasProfile (load_rows rows ps) s"
  by (induction rows ps rule: load_rows.induct) (auto simp: hasProfile_def)

definition default_sensors :: "string list" where
  "default_sensors = [''ultrasonic'', ''temperature'', ''camera'', ''humidity'', ''pressure'']"

lemma defaults_present: "s \<in> set default_sensors \<Longrightarrow> hasProfile (initializeDefaultProfiles ps) s"
  by (auto simp: default_sensors_def hasProfile_def initializeDefaultProfiles_def)

text \<open>The requirements a row describes, and the last row for a sensor type.\<close>

definition row_req :: "profile_row \<Rightarrow> requirements" where
  "row_req row = (case row of (_, c, r, b, d, p) \<Rightarrow>
     \<lparr>cpu_percent = c, ram_mb = r, bandwidth_mbps = b, deadline_ms = d, priority = priority_of_int p\<rparr>)"

lemma map_of_load_rows:
  "map_of (load_rows rows ps) s =
     (case find (\<lambda>row. fst row = Some s) (rev rows) of
        Some row \<Rightarrow> Some (row_req row) | None \<Rightarrow> map_of ps s)"
proof (induction rows ps rule: load_rows.induct)
  case (2 c rows ps)
  then show ?case by (simp add: find_append split: option.splits)
next
  case (3 sensor c r b d p rows ps)
  then show ?case by (auto simp: find_append row_req_def split: option.splits)
qed simp

lemma mk_req_ok: "0 \<le> c \<Longrightarrow> 0 \<le> r \<Longrightarrow> 0 \<le> b \<Longrightarrow> req_ok (mk_req c r b d p)"
  by (simp add: req_ok_def mk_req_def zero_dbl dbl_le_iff fl_nonneg)

definition profiles_ok :: "profiles \<Rightarrow> bool" where
  "profiles_ok ps \<longleftrightarrow> (\<forall>s r. map_of ps s = Some r \<longrightarrow> req_ok r)"

lemma profiles_ok_put: "profiles_ok ps \<Longrightarrow> req_ok r \<Longrightarrow> profiles_ok (map_put s r ps)"
  by (auto simp: profiles_ok_def split: if_splits)

lemma profiles_ok_defaults: "profiles_ok ps \<Longrightarrow> profiles_ok (initializeDefaultProfiles ps)"
  unfolding initializeDefaultProfiles_def by (intro profiles_ok_put mk_req_ok) auto

definition rows_ok :: "profile_row list \<Rightarrow> bool" where
  "rows_ok rows \<longleftrightarrow> (\<forall>row\<in>set rows. req_ok (row_req row))"

lemma profiles_ok_rows: "rows_ok rows \<Longrightarrow> profiles_ok ps \<Longrightarrow> profiles_ok (load_rows rows ps)"
  by (induction rows ps rule: load_rows.induct) (auto simp: rows_ok_def row_req_def intro: profiles_ok_put)

lemma getRequirements_ok: "profiles_ok ps \<Longrightarrow> req_ok (getRequirements ps s)"
  by (auto simp: profiles_ok_def getRequirements_def fallback_requirements_def intro: mk_req_ok split: option.splits)

text \<open>after loading, the requirements of a sensor type are those of the last database row that names
  it; without such a row they are the built-in profile, or those loaded before; an unknown type
  gets the fallback. The five built-in types always have a profile, and if the database holds no
  negative requirement, then no lookup returns one.\<close>

theorem loaded_profile_lookup:
  assumes "rows_ok rows" "profiles_ok ps"
  shows "getRequirements (loadProfiles (Rows rows) ps) s =
      (case find (\<lambda>row. fst row = Some s) (rev rows) of
         Some row \<Rightarrow> row_req row
       | None \<Rightarrow> getRequirements (initializeDefaultProfiles ps) s) \<and>
    (s \<in> set default_sensors \<longrightarrow> hasProfile (loadProfiles (Rows rows) ps) s) \<and>
    req_ok (getRequirements (loadProfiles (Rows rows) ps) s) \<and>
    loadProfiles Open_Failed ps = initializeDefaultProfiles ps \<and>
    loadProfiles Prepare_Failed ps = initializeDefaultProfiles ps"
proof -
  have "profiles_ok (loadProfiles (Rows rows) ps)"
    using assms by (simp add: loadProfiles_def profiles_ok_rows profiles_ok_defaults)
  then show ?thesis
    by (auto simp: loadProfiles_def getRequirements_def map_of_load_rows load_rows_keeps defaults_present
        dest: getRequirements_ok [of _ s] split: option.splits)
qed

theorem loaded_profile_lookup_witness:
  "getRequirements (loadProfiles (Rows [(Some ''lidar'', dbl 7, dbl 1, dbl 1, 30, 2), (None, 0, 0, 0, 0, 0), (Some ''lidar'', dbl 8, dbl 1, dbl 1, 40, 3)]) []) ''lidar'' =
     \<lparr>cpu_percent = dbl 8, ram_mb = dbl 1, bandwidth_mbps = dbl 1, deadline_ms = 40, priority = CRITICAL\<rparr>"
  using loaded_profile_lookup [of "[(Some ''lidar'', dbl 7, dbl 1, dbl 1, 30, 2), (None, 0, 0, 0, 0, 0), (Some ''lidar'', dbl 8, dbl 1, dbl 1, 40, 3)]" "[]" "''lidar''"]
  by (simp add: rows_ok_def profiles_ok_def row_req_def req_ok_def priority_of_int_def dbl_nonneg)

end
