(* ===== verification/Store.thy ===== *)
theory Store
  imports Edge_Node Task_Profiles
begin

text \<open>
  The objects the components share through \<open>std::shared_ptr\<close>: the heap of tasks and the heap of
  edge nodes, addressed by reference, and the calls made to the database singleton, in order.
  The callers of the core ignore what those calls return, so the sequence of calls is all of the
  core's interaction with \<^verbatim>\<open>DatabaseManager\<close>.

  The states of the other components extend this record one after the other, so an operation of a
  component runs unchanged on the state of any component built on it.
\<close>

datatype db_call =
    Db_saveTask string string string requirements task_status
  | Db_updateTaskStatus string task_status
  | Db_saveAllocation string string double string
  | Db_saveAllocationFailure string string
  | Db_saveTaskExecution string int bool
  | Db_saveResourceSnapshot string resource_usage int
  | Db_saveEdgeNode string resource_capacity
  | Db_saveDevice string string
  | Db_saveTaskProfile string requirements

record 'j store =
  tasks :: "tref \<Rightarrow> 'j task"
  next_task :: tref
  nodes :: "nref \<Rightarrow> edge_node"
  next_node :: nref
  db_calls :: "db_call list"

definition upd_task :: "tref \<Rightarrow> ('j task \<Rightarrow> 'j task) \<Rightarrow> ('j, 'm) store_scheme \<Rightarrow> ('j, 'm) store_scheme" where
  "upd_task t f s = s\<lparr>tasks := (tasks s)(t := f (tasks s t))\<rparr>"

definition upd_node :: "nref \<Rightarrow> (edge_node \<Rightarrow> edge_node) \<Rightarrow> ('j, 'm) store_scheme \<Rightarrow> ('j, 'm) store_scheme" where
  "upd_node r f s = s\<lparr>nodes := (nodes s)(r := f (nodes s r))\<rparr>"

text \<open>What \<open>saveTask\<close> reads of the task object.\<close>

definition saved_task :: "'j task \<Rightarrow> db_call" where
  "saved_task t = Db_saveTask (task_id t) (device_id t) (sensor_type t) (reqs t) (status t)"

definition db :: "db_call \<Rightarrow> ('j, 'm) store_scheme \<Rightarrow> ('j, 'm) store_scheme" where
  "db c s = s\<lparr>db_calls := db_calls s @ [c]\<rparr>"

text \<open>\<open>std::make_shared\<close> of a task and of an edge node.\<close>

definition make_task :: "'j task \<Rightarrow> ('j, 'm) store_scheme \<Rightarrow> tref \<times> ('j, 'm) store_scheme" where
  "make_task t s = (next_task s, s\<lparr>tasks := (tasks s)(next_task s := t), next_task := Suc (next_task s)\<rparr>)"

definition make_node :: "edge_node \<Rightarrow> ('j, 'm) store_scheme \<Rightarrow> nref \<times> ('j, 'm) store_scheme" where
  "make_node n s = (next_node s, s\<lparr>nodes := (nodes s)(next_node s := n), next_node := Suc (next_node s)\<rparr>)"

lemma store_simps [simp]:
  "tasks (upd_node r f s) = tasks s" "tasks (db c s) = tasks s"
  "nodes (upd_task t g s) = nodes s" "nodes (db c s) = nodes s"
  "db_calls (upd_node r f s) = db_calls s" "db_calls (upd_task t g s) = db_calls s"
  "db_calls (db c s) = db_calls s @ [c]"
  "next_task (upd_node r f s) = next_task s" "next_task (upd_task t g s) = next_task s" "next_task (db c s) = next_task s"
  "next_node (upd_node r f s) = next_node s" "next_node (upd_task t g s) = next_node s" "next_node (db c s) = next_node s"
  "tasks (upd_task t g s) = (tasks s)(t := g (tasks s t))"
  "nodes (upd_node r f s) = (nodes s)(r := f (nodes s r))"
  by (simp_all add: upd_node_def upd_task_def db_def)

section \<open>The accounting invariant of all nodes\<close>

definition nodes_ok :: "('j, 'm) store_scheme \<Rightarrow> bool" where
  "nodes_ok s \<longleftrightarrow> (\<forall>r<next_node s. node_ok (nodes s r) \<and> cap_ok (capacity (nodes s r)))"

definition tasks_ok :: "('j, 'm) store_scheme \<Rightarrow> bool" where
  "tasks_ok s \<longleftrightarrow> (\<forall>t<next_task s. req_ok (reqs (tasks s t)))"

lemma nodes_okD: "nodes_ok s \<Longrightarrow> r < next_node s \<Longrightarrow> node_ok (nodes s r)"
  by (simp add: nodes_ok_def)

lemma tasks_okD: "tasks_ok s \<Longrightarrow> t < next_task s \<Longrightarrow> req_ok (reqs (tasks s t))"
  by (simp add: tasks_ok_def)

lemma nodes_ok_cong: "nodes s' = nodes s \<Longrightarrow> next_node s' = next_node s \<Longrightarrow> nodes_ok s' = nodes_ok s"
  by (simp add: nodes_ok_def)

lemma tasks_ok_cong: "tasks s' = tasks s \<Longrightarrow> next_task s' = next_task s \<Longrightarrow> tasks_ok s' = tasks_ok s"
  by (simp add: tasks_ok_def)

lemma nodes_ok_upd_node:
  "nodes_ok s \<Longrightarrow> (r < next_node s \<Longrightarrow> node_ok (f (nodes s r)) \<and> capacity (f (nodes s r)) = capacity (nodes s r)) \<Longrightarrow>
   nodes_ok (upd_node r f s)"
  by (auto simp: nodes_ok_def)

lemma nodes_ok_other [simp]: "nodes_ok (upd_task t g s) = nodes_ok s" "nodes_ok (db c s) = nodes_ok s"
  by (simp_all add: nodes_ok_def)

lemma tasks_ok_other [simp]: "tasks_ok (upd_node r f s) = tasks_ok s" "tasks_ok (db c s) = tasks_ok s"
  by (simp_all add: tasks_ok_def)

lemma tasks_ok_upd_task: "tasks_ok s \<Longrightarrow> reqs (g (tasks s t)) = reqs (tasks s t) \<Longrightarrow> tasks_ok (upd_task t g s)"
  by (simp add: tasks_ok_def)

end
