(* ===== verification/Resource_Monitor.thy ===== *)
theory Resource_Monitor
  imports Store
begin

text \<open>
  \<^verbatim>\<open>resource_monitor.h\<close> and \<^verbatim>\<open>resource_monitor.cpp\<close>: the registry of edge nodes, their health, and
  the status callback. Every method locks \<open>nodes_mutex_\<close>, a \<open>std::mutex\<close>: \<open>nodes_mutex\<close> says
  whether the running thread holds it, and locking it again is the fault \<open>SelfDeadlock\<close>
  (\<open>getAllEdgeNodes\<close>, which returns a reference to the map, does not lock). The registered
  callback is the argument \<open>cb\<close>, \<open>None\<close> before \<open>registerStatusCallback\<close>.
\<close>

section \<open>State\<close>

type_synonym edge_map = "(string \<times> nref option) list"

record 'j monitor = "'j store" +
  edge_nodes :: edge_map
  nodes_mutex :: bool
  total_node_failures :: u64
  total_node_recoveries :: u64

definition new_monitor :: "('j, 'm) monitor_scheme \<Rightarrow> ('j, 'm) monitor_scheme" where
  "new_monitor s = s\<lparr>edge_nodes := [], nodes_mutex := False, total_node_failures := 0, total_node_recoveries := 0\<rparr>"

type_synonym ('j, 'm) status_callback = "string \<Rightarrow> bool \<Rightarrow> ('j, 'm) monitor_scheme \<Rightarrow> fault + ('j, 'm) monitor_scheme"

section \<open>Registration and lookup\<close>

definition registerEdgeNode :: "nref option \<Rightarrow> ('j, 'm) monitor_scheme \<Rightarrow> fault + ('j, 'm) monitor_scheme" where
  "registerEdgeNode node s =
     (if nodes_mutex s then Inl SelfDeadlock
      else case node of
        None \<Rightarrow> Inl NullDeref
      | Some r \<Rightarrow> Inr (s\<lparr>edge_nodes := map_put (edge_id (nodes s r)) (Some r) (edge_nodes s)\<rparr>))"

definition unregisterEdgeNode :: "string \<Rightarrow> ('j, 'm) monitor_scheme \<Rightarrow> fault + ('j, 'm) monitor_scheme" where
  "unregisterEdgeNode eid s =
     (if nodes_mutex s then Inl SelfDeadlock
      else Inr (s\<lparr>edge_nodes := map_erase eid (edge_nodes s)\<rparr>))"

definition getEdgeNode :: "string \<Rightarrow> ('j, 'm) monitor_scheme \<Rightarrow> fault + nref option" where
  "getEdgeNode eid s =
     (if nodes_mutex s then Inl SelfDeadlock
      else Inr (case map_of (edge_nodes s) eid of Some p \<Rightarrow> p | None \<Rightarrow> None))"

section \<open>Health\<close>

definition isNodeHealthy :: "nref option \<Rightarrow> ('j, 'm) monitor_scheme \<Rightarrow> bool" where
  "isNodeHealthy node s = (case node of None \<Rightarrow> False | Some r \<Rightarrow> is_available (nodes s r))"

text \<open>The loop of \<open>checkEdgeNodeHealth\<close>, run with the mutex held: the callback is called for
  every registered node.\<close>

fun health_loop :: "('j, 'm) status_callback option \<Rightarrow> edge_map \<Rightarrow> ('j, 'm) monitor_scheme \<Rightarrow> fault + ('j, 'm) monitor_scheme" where
  "health_loop cb [] s = Inr s"
| "health_loop cb ((eid, node) # es) s =
     (let healthy = isNodeHealthy node s
      in case cb of
           None \<Rightarrow> health_loop cb es s
         | Some call \<Rightarrow> bind_sum (call eid healthy s) (health_loop cb es))"

definition checkEdgeNodeHealth :: "('j, 'm) status_callback option \<Rightarrow> ('j, 'm) monitor_scheme \<Rightarrow> fault + ('j, 'm) monitor_scheme" where
  "checkEdgeNodeHealth cb s =
     (if nodes_mutex s then Inl SelfDeadlock
      else bind_sum (health_loop cb (edge_nodes s) (s\<lparr>nodes_mutex := True\<rparr>))
             (\<lambda>s'. Inr (s'\<lparr>nodes_mutex := False\<rparr>)))"

text \<open>\<open>updateResourceMetrics\<close>: every available node fluctuates; the two random draws of the node
  registered under \<open>eid\<close> are \<open>draws eid\<close>.\<close>

fun fluctuate_loop :: "(string \<Rightarrow> double \<times> double) \<Rightarrow> edge_map \<Rightarrow> ('j, 'm) monitor_scheme \<Rightarrow> ('j, 'm) monitor_scheme" where
  "fluctuate_loop draws [] s = s"
| "fluctuate_loop draws ((eid, node) # es) s =
     (case node of
        None \<Rightarrow> fluctuate_loop draws es s
      | Some r \<Rightarrow>
          if is_available (nodes s r)
          then fluctuate_loop draws es
                 (upd_node r (simulateResourceFluctuation (fst (draws eid)) (snd (draws eid))) s)
          else fluctuate_loop draws es s)"

definition updateResourceMetrics :: "(string \<Rightarrow> double \<times> double) \<Rightarrow> ('j, 'm) monitor_scheme \<Rightarrow> fault + ('j, 'm) monitor_scheme" where
  "updateResourceMetrics draws s =
     (if nodes_mutex s then Inl SelfDeadlock else Inr (fluctuate_loop draws (edge_nodes s) s))"

text \<open>The part of \<open>simulateNodeFailure\<close> and \<open>recoverNodeFromFailure\<close> under the mutex: \<open>None\<close> for an
  unknown edge id. The callback is called after the mutex is released.\<close>

definition mark_available :: "bool \<Rightarrow> string \<Rightarrow> ('j, 'm) monitor_scheme \<Rightarrow> fault + ('j, 'm) monitor_scheme option" where
  "mark_available b eid s =
     (if nodes_mutex s then Inl SelfDeadlock
      else case map_of (edge_nodes s) eid of
        None \<Rightarrow> Inr None
      | Some None \<Rightarrow> Inl NullDeref
      | Some (Some r) \<Rightarrow> Inr (Some (upd_node r (setAvailable b) s)))"

definition simulateNodeFailure :: "('j, 'm) status_callback option \<Rightarrow> string \<Rightarrow> ('j, 'm) monitor_scheme \<Rightarrow> fault + ('j, 'm) monitor_scheme" where
  "simulateNodeFailure cb eid s =
     bind_sum (mark_available False eid s) (\<lambda>m. case m of
       None \<Rightarrow> Inr s
     | Some s1 \<Rightarrow>
         (let s2 = s1\<lparr>total_node_failures := total_node_failures s1 + 1\<rparr>
          in case cb of None \<Rightarrow> Inr s2 | Some call \<Rightarrow> call eid False s2))"

definition recoverNodeFromFailure :: "('j, 'm) status_callback option \<Rightarrow> string \<Rightarrow> ('j, 'm) monitor_scheme \<Rightarrow> fault + ('j, 'm) monitor_scheme" where
  "recoverNodeFromFailure cb eid s =
     bind_sum (mark_available True eid s) (\<lambda>m. case m of
       None \<Rightarrow> Inr s
     | Some s1 \<Rightarrow>
         (let s2 = s1\<lparr>total_node_recoveries := total_node_recoveries s1 + 1\<rparr>
          in case cb of None \<Rightarrow> Inr s2 | Some call \<Rightarrow> call eid True s2))"

section \<open>Queries\<close>

definition getAvailableNodeIds :: "('j, 'm) monitor_scheme \<Rightarrow> fault + string list" where
  "getAvailableNodeIds s =
     (if nodes_mutex s then Inl SelfDeadlock
      else Inr (map fst (filter (\<lambda>(eid, node). case node of None \<Rightarrow> False | Some r \<Rightarrow> is_available (nodes s r)) (edge_nodes s))))"

definition getFailedNodeIds :: "('j, 'm) monitor_scheme \<Rightarrow> fault + string list" where
  "getFailedNodeIds s =
     (if nodes_mutex s then Inl SelfDeadlock
      else Inr (map fst (filter (\<lambda>(eid, node). case node of None \<Rightarrow> False | Some r \<Rightarrow> \<not> is_available (nodes s r)) (edge_nodes s))))"

text \<open>\<open>getAvailableNodeCount\<close> counts in a \<open>size_t\<close>.\<close>

fun count_loop :: "('j, 'm) monitor_scheme \<Rightarrow> edge_map \<Rightarrow> u64 \<Rightarrow> u64" where
  "count_loop s [] cnt = cnt"
| "count_loop s ((eid, node) # es) cnt =
     count_loop s es (case node of None \<Rightarrow> cnt | Some r \<Rightarrow> if is_available (nodes s r) then cnt + 1 else cnt)"

definition getAvailableNodeCount :: "('j, 'm) monitor_scheme \<Rightarrow> fault + u64" where
  "getAvailableNodeCount s = (if nodes_mutex s then Inl SelfDeadlock else Inr (count_loop s (edge_nodes s) 0))"

section \<open>Well-formedness\<close>

text \<open>Keys are in order, entries are not null, and a node is registered under its own id.\<close>

definition monitor_ok :: "('j, 'm) monitor_scheme \<Rightarrow> bool" where
  "monitor_ok s \<longleftrightarrow> map_ok (edge_nodes s) \<and> \<not> nodes_mutex s \<and>
     (\<forall>(eid, node)\<in>set (edge_nodes s). \<exists>r. node = Some r \<and> r < next_node s \<and> edge_id (nodes s r) = eid)"

definition registered :: "('j, 'm) monitor_scheme \<Rightarrow> nref set" where
  "registered s = {r. \<exists>eid. (eid, Some r) \<in> set (edge_nodes s)}"

lemma monitor_okD:
  assumes "monitor_ok s" "(eid, node) \<in> set (edge_nodes s)"
  obtains r where "node = Some r" "r < next_node s" "edge_id (nodes s r) = eid" "r \<in> registered s"
  using assms by (fastforce simp: monitor_ok_def registered_def)

lemma monitor_ok_unlocked [simp]: "monitor_ok s \<Longrightarrow> \<not> nodes_mutex s"
  by (simp add: monitor_ok_def)

lemma registered_less: "monitor_ok s \<Longrightarrow> r \<in> registered s \<Longrightarrow> r < next_node s"
  by (fastforce simp: monitor_ok_def registered_def)

lemma monitor_simps [simp]:
  "edge_nodes (upd_node r f s) = edge_nodes s" "edge_nodes (upd_task t g s) = edge_nodes s" "edge_nodes (db c s) = edge_nodes s"
  "nodes_mutex (upd_node r f s) = nodes_mutex s" "nodes_mutex (upd_task t g s) = nodes_mutex s" "nodes_mutex (db c s) = nodes_mutex s"
  by (simp_all add: upd_node_def upd_task_def db_def)

lemma monitor_ok_upd_node:
  "monitor_ok s \<Longrightarrow> edge_id (f (nodes s r)) = edge_id (nodes s r) \<Longrightarrow> monitor_ok (upd_node r f s)"
  by (fastforce simp: monitor_ok_def)

lemma monitor_ok_other [simp]: "monitor_ok (upd_task t g s) = monitor_ok s" "monitor_ok (db c s) = monitor_ok s"
  by (simp_all add: monitor_ok_def)

lemma getEdgeNode_registered:
  assumes "monitor_ok s"
  shows "getEdgeNode eid s = Inr (Some r) \<longleftrightarrow> r \<in> registered s \<and> edge_id (nodes s r) = eid"
proof -
  have "getEdgeNode eid s = Inr (Some r) \<longleftrightarrow> map_of (edge_nodes s) eid = Some (Some r)"
    using assms by (auto simp: getEdgeNode_def split: option.splits)
  also have "\<dots> \<longleftrightarrow> (eid, Some r) \<in> set (edge_nodes s)"
    using assms by (simp add: map_ok_Some monitor_ok_def)
  also have "\<dots> \<longleftrightarrow> r \<in> registered s \<and> edge_id (nodes s r) = eid"
    using assms by (fastforce simp: monitor_ok_def registered_def)
  finally show ?thesis .
qed

lemma monitor_ok_register:
  assumes "monitor_ok s" "r < next_node s"
  obtains s' where "registerEdgeNode (Some r) s = Inr s'" "monitor_ok s'"
proof -
  have "monitor_ok (s\<lparr>edge_nodes := map_put (edge_id (nodes s r)) (Some r) (edge_nodes s)\<rparr>)"
    using assms by (auto simp: monitor_ok_def map_ok_put dest!: subsetD [OF set_put_subset])
  with that assms show ?thesis by (simp add: registerEdgeNode_def)
qed

section \<open>Preservation\<close>

lemma fluctuate_loop_frame [simp]:
  "edge_nodes (fluctuate_loop draws es s) = edge_nodes s" "nodes_mutex (fluctuate_loop draws es s) = nodes_mutex s"
  "next_node (fluctuate_loop draws es s) = next_node s" "tasks (fluctuate_loop draws es s) = tasks s"
  "next_task (fluctuate_loop draws es s) = next_task s" "db_calls (fluctuate_loop draws es s) = db_calls s"
  "capacity (nodes (fluctuate_loop draws es s) r) = capacity (nodes s r)"
  "task_queue (nodes (fluctuate_loop draws es s) r) = task_queue (nodes s r)"
  "is_available (nodes (fluctuate_loop draws es s) r) = is_available (nodes s r)"
  "edge_id (nodes (fluctuate_loop draws es s) r) = edge_id (nodes s r)"
  by (induction draws es s rule: fluctuate_loop.induct) (auto split: option.splits)

lemma fluctuate_loop_nodes_ok: "nodes_ok s \<Longrightarrow> nodes_ok (fluctuate_loop draws es s)"
proof (induction draws es s rule: fluctuate_loop.induct)
  case (2 draws eid node es s)
  then show ?case
    by (auto split: option.splits simp: nodes_ok_def node_ok_fluctuation intro!: nodes_ok_upd_node)
qed simp

lemma monitor_ok_fluctuate: "monitor_ok s \<Longrightarrow> monitor_ok (fluctuate_loop draws es s)"
  by (auto simp: monitor_ok_def)

lemma count_loop_eq:
  "count_loop s es cnt = cnt + of_nat (length (filter (\<lambda>(eid, node). case node of None \<Rightarrow> False | Some r \<Rightarrow> is_available (nodes s r)) es))"
  by (induction s es cnt rule: count_loop.induct) (auto split: option.splits)

text \<open>A callback under the mutex of \<open>checkEdgeNodeHealth\<close> that asks the monitor for a node
  deadlocks; without a callback the check changes nothing.\<close>

lemma health_loop_none [simp]: "health_loop None es s = Inr s"
  by (induction es) auto

lemma checkEdgeNodeHealth_none: "\<not> nodes_mutex s \<Longrightarrow> checkEdgeNodeHealth None s = Inr s"
  by (simp add: checkEdgeNodeHealth_def)

section \<open>Properties\<close>

lemma available_ids: "monitor_ok s \<Longrightarrow> \<exists>ids. getAvailableNodeIds s = Inr ids"
  by (simp add: getAvailableNodeIds_def)

lemma partition_keys:
  assumes "\<forall>x\<in>set es. P x \<noteq> Q x"
  shows "mset (map f (filter P es)) + mset (map f (filter Q es)) = mset (map f es)"
  using assms by (induction es) auto

text \<open>the available and the failed nodes partition the registered ones, and the count of available
  nodes is the number of their ids (in 64-bit arithmetic).\<close>

theorem available_failed_partition:
  assumes "monitor_ok s"
  shows "\<exists>up down. getAvailableNodeIds s = Inr up \<and> getFailedNodeIds s = Inr down \<and>
    mset up + mset down = mset (map fst (edge_nodes s)) \<and> set up \<inter> set down = {} \<and>
    getAvailableNodeCount s = Inr (of_nat (length up)) \<and>
    set up = {edge_id (nodes s r) |r. r \<in> registered s \<and> is_available (nodes s r)}"
proof -
  let ?P = "\<lambda>(eid, node). case node of None \<Rightarrow> False | Some r \<Rightarrow> is_available (nodes s r)"
  let ?Q = "\<lambda>(eid, node). case node of None \<Rightarrow> False | Some r \<Rightarrow> \<not> is_available (nodes s r)"
  have all: "\<exists>eid r. x = (eid, Some r) \<and> edge_id (nodes s r) = eid" if "x \<in> set (edge_nodes s)" for x
    using assms that by (cases x) (fastforce simp: monitor_ok_def)
  then have "\<forall>x\<in>set (edge_nodes s). ?P x \<noteq> ?Q x" by fastforce
  from partition_keys [OF this, of fst]
  have m: "mset (map fst (filter ?P (edge_nodes s))) + mset (map fst (filter ?Q (edge_nodes s))) = mset (map fst (edge_nodes s))" .
  have "distinct (map fst (edge_nodes s))" using assms by (simp add: monitor_ok_def map_ok_distinct)
  then have "distinct (map fst (filter ?P (edge_nodes s)) @ map fst (filter ?Q (edge_nodes s)))"
    using m by (metis mset_append mset_eq_imp_distinct_iff)
  moreover have "set (map fst (filter ?P (edge_nodes s))) = {edge_id (nodes s r) |r. r \<in> registered s \<and> is_available (nodes s r)}"
    using all by (force simp: registered_def image_iff split: option.splits)
  ultimately show ?thesis
    using m assms by (auto simp: getAvailableNodeIds_def getFailedNodeIds_def getAvailableNodeCount_def count_loop_eq)
qed

text \<open>without a callback, failing a registered node makes exactly that node unavailable and counts
  one failure; recovering it makes the state of the nodes what it was before if the node was
  available, and counts one recovery. For an unknown id both do nothing.\<close>

theorem failure_and_recovery:
  assumes "monitor_ok s"
  shows "(\<forall>r. (eid, Some r) \<in> set (edge_nodes s) \<longrightarrow>
      (\<exists>s1 s2. simulateNodeFailure None eid s = Inr s1 \<and> recoverNodeFromFailure None eid s1 = Inr s2 \<and>
        nodes s1 = (nodes s)(r := setAvailable False (nodes s r)) \<and> nodes s2 = (nodes s)(r := setAvailable True (nodes s r)) \<and>
        total_node_failures s2 = total_node_failures s + 1 \<and> total_node_recoveries s2 = total_node_recoveries s + 1 \<and>
        monitor_ok s1 \<and> monitor_ok s2)) \<and>
    (eid \<notin> fst ` set (edge_nodes s) \<longrightarrow>
      simulateNodeFailure cb eid s = Inr s \<and> recoverNodeFromFailure cb eid s = Inr s)"
proof (intro conjI allI impI)
  fix r
  assume "(eid, Some r) \<in> set (edge_nodes s)"
  then have look: "map_of (edge_nodes s) eid = Some (Some r)" using assms by (simp add: map_ok_Some monitor_ok_def)
  let ?s1 = "(upd_node r (setAvailable False) s)\<lparr>total_node_failures := total_node_failures s + 1\<rparr>"
  let ?s2 = "(upd_node r (setAvailable True) ?s1)\<lparr>total_node_recoveries := total_node_recoveries s + 1\<rparr>"
  have "monitor_ok (upd_node r (setAvailable False) s)" by (intro monitor_ok_upd_node assms) simp
  then have 1: "monitor_ok ?s1" by (simp add: monitor_ok_def)
  then have "monitor_ok (upd_node r (setAvailable True) ?s1)" by (intro monitor_ok_upd_node) simp_all
  then have 2: "monitor_ok ?s2" by (simp add: monitor_ok_def)
  have "simulateNodeFailure None eid s = Inr ?s1" "recoverNodeFromFailure None eid ?s1 = Inr ?s2"
    using assms 1 look by (simp_all add: simulateNodeFailure_def recoverNodeFromFailure_def mark_available_def Let_def)
      (simp_all add: upd_node_def)
  moreover have "setAvailable True (setAvailable False n) = setAvailable True n" for n by (simp add: setAvailable_def)
  ultimately show "\<exists>s1 s2. simulateNodeFailure None eid s = Inr s1 \<and> recoverNodeFromFailure None eid s1 = Inr s2 \<and>
        nodes s1 = (nodes s)(r := setAvailable False (nodes s r)) \<and> nodes s2 = (nodes s)(r := setAvailable True (nodes s r)) \<and>
        total_node_failures s2 = total_node_failures s + 1 \<and> total_node_recoveries s2 = total_node_recoveries s + 1 \<and>
        monitor_ok s1 \<and> monitor_ok s2"
    using 1 2 by (intro exI [of _ ?s1] exI [of _ ?s2]) (simp add: upd_node_def)
next
  assume "eid \<notin> fst ` set (edge_nodes s)"
  then have "map_of (edge_nodes s) eid = None" by (simp add: map_of_eq_None_iff)
  then show "simulateNodeFailure cb eid s = Inr s" "recoverNodeFromFailure cb eid s = Inr s"
    using assms by (simp_all add: simulateNodeFailure_def recoverNodeFromFailure_def mark_available_def)
qed

section \<open>A concrete state\<close>

definition demo_monitor :: "unit monitor" where
  "demo_monitor = \<lparr>tasks = \<lambda>_. new_task 0 ''T'' ''D'' ''camera'' fallback_requirements (), next_task = 0,
     nodes = \<lambda>r. (new_edge_node (if r = 0 then ''E01'' else ''E02'') \<lparr>cap_cpu_percent = dbl 100, cap_ram_mb = dbl 4096,
       cap_bandwidth_mbps = dbl 64, latency_ms = 9\<rparr>)\<lparr>is_available := r = 0\<rparr>, next_node = 2, db_calls = [],
     edge_nodes = [(''E01'', Some 0), (''E02'', Some 1)], nodes_mutex = False,
     total_node_failures = 0, total_node_recoveries = 0\<rparr>"

lemma demo_monitor_ok: "monitor_ok demo_monitor"
  by (simp add: monitor_ok_def demo_monitor_def map_ok_def new_edge_node_def)

theorem available_failed_partition_witness: "getAvailableNodeCount demo_monitor = Inr 1"
proof -
  have up: "getAvailableNodeIds demo_monitor = Inr [''E01'']"
    by (simp add: getAvailableNodeIds_def demo_monitor_def)
  with available_failed_partition [OF demo_monitor_ok] show ?thesis by auto
qed

theorem failure_and_recovery_witness:
  "\<exists>s1. simulateNodeFailure None ''E01'' demo_monitor = Inr s1 \<and> \<not> is_available (nodes s1 0)"
proof -
  have "(''E01'', Some 0) \<in> set (edge_nodes demo_monitor)" by (simp add: demo_monitor_def)
  then show ?thesis using failure_and_recovery [OF demo_monitor_ok, of "''E01''" None] by fastforce
qed

end
