(* ===== verification/Resource_Allocator.thy ===== *)
theory Resource_Allocator
  imports Resource_Monitor
begin

text \<open>
  \<^verbatim>\<open>resource_allocator.h\<close> and \<^verbatim>\<open>resource_allocator.cpp\<close>: the four allocation strategies, the
  multi-constraint score, the single allocation and the allocation with back-pressure.

  A public method holds \<open>strategy_mutex_\<close> for its whole body, so allocations are serialised; the
  only other threads that touch the nodes meanwhile are the executor's workers. What they do while
  \<open>allocateTaskWithRetry\<close> sleeps between two attempts is its argument \<open>sleep\<close>. The loop of
  \<open>allocateTaskWithRetry\<close> is over a \<open>nat\<close> number of retries: the program passes 200, and the
  \<open>size_t\<close> loop of the source ends only when \<open>max_retries\<close> is below the largest \<open>size_t\<close>.
  A strategy that leaves its pointer to the best node null dereferences it: \<open>NullDeref\<close>.
\<close>

section \<open>State\<close>

datatype allocation_strategy = ROUND_ROBIN | LEAST_LOAD | PRIORITY_BASED | MULTI_CONSTRAINT

record allocation_weights =
  cpu_weight :: double
  ram_weight :: double
  bandwidth_weight :: double
  latency_weight :: double
  queue_weight :: double
  priority_weight :: double

definition default_weights :: allocation_weights where
  "default_weights =
     \<lparr>cpu_weight = dbl (25 / 100), ram_weight = dbl (20 / 100), bandwidth_weight = dbl (15 / 100),
      latency_weight = dbl (15 / 100), queue_weight = dbl (15 / 100), priority_weight = dbl (10 / 100)\<rparr>"

lemma default_weights_named:
  "default_weights =
     \<lparr>cpu_weight = kDefaultCpuWeight, ram_weight = kDefaultRamWeight, bandwidth_weight = kDefaultBandwidthWeight,
      latency_weight = kDefaultLatencyWeight, queue_weight = kDefaultQueueWeight, priority_weight = kDefaultPriorityWeight\<rparr>"
  by (simp add: default_weights_def)

record allocation_result =
  success :: bool
  result_edge_id :: string
  reason :: string
  score :: double

definition no_result :: allocation_result where
  "no_result = \<lparr>success = False, result_edge_id = '''', reason = '''', score = 0\<rparr>"

record 'j allocator = "'j monitor" +
  strategy :: allocation_strategy
  weights :: allocation_weights
  total_allocations :: u64
  successful_allocations :: u64
  failed_allocations :: u64
  round_robin_index :: u64

definition new_allocator :: "allocation_strategy \<Rightarrow> ('j, 'm) allocator_scheme \<Rightarrow> ('j, 'm) allocator_scheme" where
  "new_allocator st s =
     s\<lparr>strategy := st, weights := default_weights, total_allocations := 0, successful_allocations := 0, failed_allocations := 0,
       round_robin_index := 0\<rparr>"

definition setStrategy :: "allocation_strategy \<Rightarrow> ('j, 'm) allocator_scheme \<Rightarrow> ('j, 'm) allocator_scheme" where
  "setStrategy st s = s\<lparr>strategy := st\<rparr>"

definition setAllocationWeights :: "allocation_weights \<Rightarrow> ('j, 'm) allocator_scheme \<Rightarrow> ('j, 'm) allocator_scheme" where
  "setAllocationWeights w s = s\<lparr>weights := w\<rparr>"

text \<open>The name that is logged.\<close>

fun allocationStrategyName :: "allocation_strategy \<Rightarrow> string" where
  "allocationStrategyName ROUND_ROBIN = ''ROUND_ROBIN''"
| "allocationStrategyName LEAST_LOAD = ''LEAST_LOAD''"
| "allocationStrategyName PRIORITY_BASED = ''PRIORITY_BASED''"
| "allocationStrategyName MULTI_CONSTRAINT = ''MULTI_CONSTRAINT''"

section \<open>Viable nodes\<close>

fun viable_loop :: "(nref \<Rightarrow> edge_node) \<Rightarrow> requirements \<Rightarrow> edge_map \<Rightarrow> nref list" where
  "viable_loop ns req [] = []"
| "viable_loop ns req ((eid, edge) # es) =
     (case edge of
        None \<Rightarrow> viable_loop ns req es
      | Some r \<Rightarrow>
          if \<not> is_available (ns r) then viable_loop ns req es
          else if canAllocate (cpu_percent req) (ram_mb req) (bandwidth_mbps req) (ns r)
          then r # viable_loop ns req es
          else viable_loop ns req es)"

definition getViableEdges :: "tref \<Rightarrow> ('j, 'm) monitor_scheme \<Rightarrow> nref list" where
  "getViableEdges t s = viable_loop (nodes s) (reqs (tasks s t)) (edge_nodes s)"

section \<open>The multi-constraint score\<close>

definition normalizeCpuScore :: "edge_node \<Rightarrow> double" where
  "normalizeCpuScore n =
     (let cap = cap_cpu_percent (capacity n)
      in if cap \<le> 0 then 0 else clamp (getAvailableCpuPercent n / cap) 0 1)"

definition normalizeRamScore :: "edge_node \<Rightarrow> double" where
  "normalizeRamScore n =
     (let cap = cap_ram_mb (capacity n)
      in if cap \<le> 0 then 0 else clamp (getAvailableRamMb n / cap) 0 1)"

definition normalizeBandwidthScore :: "edge_node \<Rightarrow> double" where
  "normalizeBandwidthScore n =
     (let cap = cap_bandwidth_mbps (capacity n)
      in if cap \<le> 0 then 0 else clamp (getAvailableBandwidthMbps n / cap) 0 1)"

definition normalizeLatencyScore :: "edge_node \<Rightarrow> double" where
  "normalizeLatencyScore n = clamp (1 - dbl_of_int (getLatencyMs n) / dbl 100) (dbl (1 / 100)) 1"

definition normalizeQueueScore :: "edge_node \<Rightarrow> double" where
  "normalizeQueueScore n = clamp (1 - dbl_of_int (getQueueLength n) / dbl_of_u64 kMaxQueueLengthForScore) 0 1"

fun priorityScore :: "task_priority \<Rightarrow> double" where
  "priorityScore CRITICAL = 1"
| "priorityScore HIGH = dbl (75 / 100)"
| "priorityScore MEDIUM = dbl (5 / 10)"
| "priorityScore LOW = dbl (25 / 100)"
| "priorityScore (Unnamed_Priority _) = 0"

definition calculateAllocationScore :: "allocation_weights \<Rightarrow> edge_node \<Rightarrow> task_priority \<Rightarrow> double" where
  "calculateAllocationScore w n p =
     (let total_score =
            cpu_weight w * normalizeCpuScore n +
            ram_weight w * normalizeRamScore n +
            bandwidth_weight w * normalizeBandwidthScore n +
            latency_weight w * normalizeLatencyScore n +
            queue_weight w * normalizeQueueScore n +
            priority_weight w * priorityScore p
      in total_score * dbl 100)"

section \<open>The four strategies\<close>

definition no_viable :: string where
  "no_viable = ''No viable edge node has sufficient resources''"

definition allocateRoundRobin :: "tref \<Rightarrow> ('j, 'm) allocator_scheme \<Rightarrow> fault + allocation_result \<times> ('j, 'm) allocator_scheme" where
  "allocateRoundRobin t s =
     (let viable = getViableEdges t s
      in if viable = [] then Inr (no_result\<lparr>reason := no_viable\<rparr>, s)
         else
           let chosen = viable ! (unat (round_robin_index s) mod length viable);
               s1 = s\<lparr>round_robin_index := round_robin_index s + 1\<rparr>
           in Inr (no_result\<lparr>success := True, result_edge_id := edge_id (nodes s chosen),
                             reason := ''Round-robin selection'', score := 0\<rparr>,
                   upd_node chosen (reserve (reqs (tasks s t))) s1))"

definition used_cpu :: "edge_node \<Rightarrow> double" where
  "used_cpu n = cap_cpu_percent (capacity n) - getAvailableCpuPercent n"

definition allocateLeastLoad :: "tref \<Rightarrow> ('j, 'm) allocator_scheme \<Rightarrow> fault + allocation_result \<times> ('j, 'm) allocator_scheme" where
  "allocateLeastLoad t s =
     (let viable = getViableEdges t s
      in if viable = [] then Inr (no_result\<lparr>reason := no_viable\<rparr>, s)
         else
           let (lowest_cpu_usage, best) = scan_best (<) (\<lambda>r. used_cpu (nodes s r)) dbl_max None viable
           in case best of
                None \<Rightarrow> Inl NullDeref
              | Some r \<Rightarrow>
                  Inr (no_result\<lparr>success := True, result_edge_id := edge_id (nodes s r),
                                 reason := ''Lowest current CPU usage'', score := lowest_cpu_usage\<rparr>,
                       upd_node r (reserve (reqs (tasks s t))) s))"

definition is_high_priority :: "requirements \<Rightarrow> bool" where
  "is_high_priority req \<longleftrightarrow> priority req = HIGH \<or> priority req = CRITICAL"

definition int64_max :: int where
  "int64_max = 2 ^ 63 - 1"

definition allocatePriorityBased :: "tref \<Rightarrow> ('j, 'm) allocator_scheme \<Rightarrow> fault + allocation_result \<times> ('j, 'm) allocator_scheme" where
  "allocatePriorityBased t s =
     (let viable = getViableEdges t s
      in if viable = [] then Inr (no_result\<lparr>reason := no_viable\<rparr>, s)
         else
           let req = reqs (tasks s t);
               (why, sc, best) =
                 (if is_high_priority req
                  then (let (lowest_latency, best) = scan_best (<) (\<lambda>r. getLatencyMs (nodes s r)) int64_max None viable
                        in (''High-priority task routed to lowest-latency edge'', dbl_of_int lowest_latency, best))
                  else (let (lowest_queue, best) = scan_best (<) (\<lambda>r. dbl_of_int (getQueueLength (nodes s r))) dbl_max None viable
                        in (''Standard-priority task routed to shortest queue'', lowest_queue, best)))
           in case best of
                None \<Rightarrow> Inl NullDeref
              | Some r \<Rightarrow>
                  Inr (no_result\<lparr>success := True, result_edge_id := edge_id (nodes s r),
                                 reason := why, score := sc\<rparr>,
                       upd_node r (reserve req) s))"

definition edge_score :: "tref \<Rightarrow> ('j, 'm) allocator_scheme \<Rightarrow> nref \<Rightarrow> double" where
  "edge_score t s r = calculateAllocationScore (weights s) (nodes s r) (priority (reqs (tasks s t)))"

definition allocateMultiConstraint :: "tref \<Rightarrow> ('j, 'm) allocator_scheme \<Rightarrow> fault + allocation_result \<times> ('j, 'm) allocator_scheme" where
  "allocateMultiConstraint t s =
     (let viable = getViableEdges t s
      in if viable = [] then Inr (no_result\<lparr>reason := no_viable\<rparr>, s)
         else
           let (best_score, best) = scan_best (>) (edge_score t s) (- dbl_max) None viable
           in case best of
                None \<Rightarrow> Inl NullDeref
              | Some r \<Rightarrow>
                  Inr (no_result\<lparr>success := True, result_edge_id := edge_id (nodes s r),
                                 reason := ''Highest multi-constraint suitability score'', score := best_score\<rparr>,
                       upd_node r (reserve (reqs (tasks s t))) s))"

text \<open>The \<open>switch\<close> over the current strategy, once in each of the two public methods. Its
  \<open>default\<close> is not reachable: nothing casts an integer into the enumeration.\<close>

definition run_strategy :: "tref \<Rightarrow> ('j, 'm) allocator_scheme \<Rightarrow> fault + allocation_result \<times> ('j, 'm) allocator_scheme" where
  "run_strategy t s =
     (case strategy s of
        ROUND_ROBIN \<Rightarrow> allocateRoundRobin t s
      | LEAST_LOAD \<Rightarrow> allocateLeastLoad t s
      | PRIORITY_BASED \<Rightarrow> allocatePriorityBased t s
      | MULTI_CONSTRAINT \<Rightarrow> allocateMultiConstraint t s)"

section \<open>Allocation\<close>

text \<open>The bookkeeping of a granted and of a refused request.\<close>

definition granted :: "tref \<Rightarrow> allocation_result \<Rightarrow> ('j, 'm) allocator_scheme \<Rightarrow> ('j, 'm) allocator_scheme" where
  "granted t result s =
     (let s1 = s\<lparr>successful_allocations := successful_allocations s + 1\<rparr>;
          s2 = upd_task t (setAssignedEdgeId (result_edge_id result)) s1;
          s3 = upd_task t (setStatus QUEUED) s2
      in db (Db_updateTaskStatus (task_id (tasks s3 t)) QUEUED) s3)"

definition refused :: "('j, 'm) allocator_scheme \<Rightarrow> ('j, 'm) allocator_scheme" where
  "refused s = s\<lparr>failed_allocations := failed_allocations s + 1\<rparr>"

definition allocateTask :: "tref \<Rightarrow> ('j, 'm) allocator_scheme \<Rightarrow> fault + allocation_result \<times> ('j, 'm) allocator_scheme" where
  "allocateTask t s =
     bind_sum (run_strategy t (s\<lparr>total_allocations := total_allocations s + 1\<rparr>)) (\<lambda>(result, s1).
       Inr (result, if success result then granted t result s1 else refused s1))"

fun retry_loop :: "(nat \<Rightarrow> ('j, 'm) allocator_scheme \<Rightarrow> ('j, 'm) allocator_scheme) \<Rightarrow> nat \<Rightarrow> nat \<Rightarrow> tref \<Rightarrow>
    ('j, 'm) allocator_scheme \<Rightarrow> fault + allocation_result \<times> ('j, 'm) allocator_scheme" where
  "retry_loop sleep attempt left t s =
     bind_sum (run_strategy t s) (\<lambda>(result, s1).
       if success result then Inr (result, granted t result s1)
       else if reason result = ''Unknown allocation strategy'' \<or> edge_nodes s1 = [] then Inr (result, refused s1)
       else case left of
              0 \<Rightarrow> Inr (result, refused s1)
            | Suc left' \<Rightarrow> retry_loop sleep (Suc attempt) left' t (sleep attempt s1))"

declare retry_loop.simps [simp del]

definition allocateTaskWithRetry :: "(nat \<Rightarrow> ('j, 'm) allocator_scheme \<Rightarrow> ('j, 'm) allocator_scheme) \<Rightarrow> nat \<Rightarrow> tref \<Rightarrow>
    ('j, 'm) allocator_scheme \<Rightarrow> fault + allocation_result \<times> ('j, 'm) allocator_scheme" where
  "allocateTaskWithRetry sleep max_retries t s =
     retry_loop sleep 0 max_retries t (s\<lparr>total_allocations := total_allocations s + 1\<rparr>)"

definition getTotalAllocations :: "('j, 'm) allocator_scheme \<Rightarrow> u64" where
  "getTotalAllocations s = total_allocations s"

definition getSuccessRate :: "('j, 'm) allocator_scheme \<Rightarrow> double" where
  "getSuccessRate s =
     (if total_allocations s = 0 then 0
      else dbl_of_u64 (successful_allocations s) / dbl_of_u64 (total_allocations s) * dbl 100)"


section \<open>Frame facts\<close>

lemma allocator_simps [simp]:
  "strategy (upd_node r f s) = strategy s" "strategy (upd_task t g s) = strategy s" "strategy (db c s) = strategy s"
  "weights (upd_node r f s) = weights s" "weights (upd_task t g s) = weights s" "weights (db c s) = weights s"
  "total_allocations (upd_node r f s) = total_allocations s" "total_allocations (upd_task t g s) = total_allocations s"
  "total_allocations (db c s) = total_allocations s"
  "successful_allocations (upd_node r f s) = successful_allocations s"
  "successful_allocations (upd_task t g s) = successful_allocations s" "successful_allocations (db c s) = successful_allocations s"
  "failed_allocations (upd_node r f s) = failed_allocations s" "failed_allocations (upd_task t g s) = failed_allocations s"
  "failed_allocations (db c s) = failed_allocations s"
  "round_robin_index (upd_node r f s) = round_robin_index s" "round_robin_index (upd_task t g s) = round_robin_index s"
  "round_robin_index (db c s) = round_robin_index s"
  by (simp_all add: upd_node_def upd_task_def db_def)

lemma viable_set: "r \<in> set (viable_loop ns req es) \<longleftrightarrow> (\<exists>eid. (eid, Some r) \<in> set es) \<and> can_host req (ns r)"
  by (induction ns req es rule: viable_loop.induct) (auto simp: canAllocate_def Let_def split: option.splits)

lemma getViableEdges_set: "r \<in> set (getViableEdges t s) \<longleftrightarrow> r \<in> registered s \<and> can_host (reqs (tasks s t)) (nodes s r)"
  by (simp add: getViableEdges_def viable_set registered_def)

lemma viable_cong:
  "edge_nodes s' = edge_nodes s \<Longrightarrow> nodes s' = nodes s \<Longrightarrow> reqs (tasks s' t) = reqs (tasks s t) \<Longrightarrow>
   getViableEdges t s' = getViableEdges t s"
  by (simp add: getViableEdges_def)

section \<open>The score terms\<close>

lemma normalize_bounds:
  "0 \<le> normalizeCpuScore n \<and> normalizeCpuScore n \<le> 1"
  "0 \<le> normalizeRamScore n \<and> normalizeRamScore n \<le> 1"
  "0 \<le> normalizeBandwidthScore n \<and> normalizeBandwidthScore n \<le> 1"
  "dbl (1 / 100) \<le> normalizeLatencyScore n \<and> normalizeLatencyScore n \<le> 1"
  "0 \<le> normalizeQueueScore n \<and> normalizeQueueScore n \<le> 1"
proof -
  have "dbl (1 / 100) \<le> dbl 1" by (rule dbl_le) simp
  then have one: "dbl (1 / 100) \<le> 1" by (simp only: one_dbl)
  show "0 \<le> normalizeCpuScore n \<and> normalizeCpuScore n \<le> 1"
    by (auto simp: normalizeCpuScore_def Let_def zero_le_one_double clamp_bounds)
  show "0 \<le> normalizeRamScore n \<and> normalizeRamScore n \<le> 1"
    by (auto simp: normalizeRamScore_def Let_def zero_le_one_double clamp_bounds)
  show "0 \<le> normalizeBandwidthScore n \<and> normalizeBandwidthScore n \<le> 1"
    by (auto simp: normalizeBandwidthScore_def Let_def zero_le_one_double clamp_bounds)
  show "dbl (1 / 100) \<le> normalizeLatencyScore n \<and> normalizeLatencyScore n \<le> 1"
    using one by (simp add: normalizeLatencyScore_def clamp_bounds)
  show "0 \<le> normalizeQueueScore n \<and> normalizeQueueScore n \<le> 1"
    by (simp add: normalizeQueueScore_def clamp_bounds zero_le_one_double)
qed

lemma normalizeLatencyScore_nonneg: "0 \<le> normalizeLatencyScore n"
  using normalize_bounds(4) [of n] dbl_nonneg [of "1 / 100"] by fastforce

lemma priorityScore_bounds: "0 \<le> priorityScore p \<and> priorityScore p \<le> 1"
  using dbl_le [of "75 / 100" 1] dbl_le [of "5 / 10" 1] dbl_le [of "25 / 100" 1]
  by (cases p) (auto simp: zero_le_one_double dbl_nonneg simp flip: one_dbl)

definition weights_ok :: "allocation_weights \<Rightarrow> bool" where
  "weights_ok w \<longleftrightarrow> 0 \<le> cpu_weight w \<and> 0 \<le> ram_weight w \<and> 0 \<le> bandwidth_weight w \<and>
     0 \<le> latency_weight w \<and> 0 \<le> queue_weight w \<and> 0 \<le> priority_weight w"

lemma default_weights_ok: "weights_ok default_weights"
  by (simp add: weights_ok_def default_weights_def dbl_nonneg)

text \<open>The score of a node on which every term is at its maximum: the upper end of the scale.\<close>

definition max_score :: "allocation_weights \<Rightarrow> double" where
  "max_score w =
     (cpu_weight w + ram_weight w + bandwidth_weight w + latency_weight w + queue_weight w + priority_weight w) * dbl 100"

lemma weight_term: "0 \<le> w \<Longrightarrow> 0 \<le> x \<Longrightarrow> x \<le> 1 \<Longrightarrow> 0 \<le> w * x \<and> w * x \<le> (w :: double)"
  using double_mult_mono [of w w x 1] double_mult_nonneg [of w x] by simp

lemma score_bounds:
  assumes "weights_ok w"
  shows "0 \<le> calculateAllocationScore w n p \<and> calculateAllocationScore w n p \<le> max_score w"
proof -
  note w = assms [unfolded weights_ok_def]
  have "0 \<le> cpu_weight w * normalizeCpuScore n \<and> cpu_weight w * normalizeCpuScore n \<le> cpu_weight w"
    "0 \<le> ram_weight w * normalizeRamScore n \<and> ram_weight w * normalizeRamScore n \<le> ram_weight w"
    "0 \<le> bandwidth_weight w * normalizeBandwidthScore n \<and> bandwidth_weight w * normalizeBandwidthScore n \<le> bandwidth_weight w"
    "0 \<le> latency_weight w * normalizeLatencyScore n \<and> latency_weight w * normalizeLatencyScore n \<le> latency_weight w"
    "0 \<le> queue_weight w * normalizeQueueScore n \<and> queue_weight w * normalizeQueueScore n \<le> queue_weight w"
    "0 \<le> priority_weight w * priorityScore p \<and> priority_weight w * priorityScore p \<le> priority_weight w"
    using w normalize_bounds [of n] priorityScore_bounds [of p] normalizeLatencyScore_nonneg [of n]
    by (auto intro: weight_term [THEN conjunct1] weight_term [THEN conjunct2])
  then show ?thesis
    unfolding calculateAllocationScore_def max_score_def Let_def
    by (auto intro!: double_mult_nonneg double_mult_mono double_add_mono double_add_nonneg dbl_nonneg)
qed

section \<open>Every strategy places on a node with room\<close>

lemma used_cpu_less_max:
  assumes "node_ok n" "cap_ok (capacity n)"
  shows "used_cpu n < dbl_max"
proof -
  define c where "c = rat_of (cap_cpu_percent (capacity n))"
  define u where "u = rat_of (used_cpu_percent (current_usage n))"
  have c: "0 \<le> c" "c \<le> 2 ^ 63" "fl c = c"
    using assms(2) by (simp_all add: c_def cap_ok_def double_iffs rat_of_63 rat_of_ops)
  have "u \<le> c + ulp c"
    using assms(1) by (auto simp: node_ok_def fits_def fill_bound_def c_def u_def less_imp_le split: if_splits
        intro: order_trans)
  then have "fl (c - (c + ulp c)) \<le> fl (c - u)" by (intro fl_mono) simp
  moreover have "fl (ulp c) = ulp c" using fl_exact [of 1 "ulp_exp c"] by (simp add: ulp_def ulp_exp_ge)
  ultimately have "c - fl (c - u) \<le> c + ulp c" by simp
  then have "fl (c - fl (c - u)) \<le> fl (c + ulp c)" by (rule fl_mono)
  also have "\<dots> = c + ulp c" using c by (intro fl_add_ulp)
  also have "\<dots> \<le> 2 ^ 63 + ulp (2 ^ 63)" using c by (intro add_mono ulp_mono) auto
  also have "\<dots> < rat_of dbl_max"
  proof -
    have "ulp (2 ^ 63) = 2048" by code_simp
    then show ?thesis by (simp add: rat_of_dbl_max)
  qed
  finally show ?thesis
    by (simp add: used_cpu_def getAvailableCpuPercent_def double_iffs rat_of_ops c_def u_def)
qed

definition alloc_ok :: "('j, 'm) allocator_scheme \<Rightarrow> bool" where
  "alloc_ok s \<longleftrightarrow> monitor_ok s \<and> nodes_ok s \<and> weights_ok (weights s) \<and>
     (\<forall>r<next_node s. length (task_queue (nodes s r)) < 2 ^ 63)"

lemma alloc_ok_registered:
  assumes "alloc_ok s" "r \<in> registered s"
  shows "node_ok (nodes s r)" "cap_ok (capacity (nodes s r))" "getQueueLength (nodes s r) < 2 ^ 63"
  using assms registered_less [of s r]
  by (auto simp: alloc_ok_def nodes_ok_def getQueueLength_def)

text \<open>What a successful placement of task \<open>t\<close> on node \<open>r\<close> is.\<close>

definition placed_on :: "nref \<Rightarrow> tref \<Rightarrow> ('j, 'm) allocator_scheme \<Rightarrow> allocation_result \<Rightarrow> ('j, 'm) allocator_scheme \<Rightarrow> bool" where
  "placed_on r t s result s' \<longleftrightarrow>
     r \<in> set (getViableEdges t s) \<and> success result \<and> result_edge_id result = edge_id (nodes s r) \<and>
     (\<exists>i. s' = upd_node r (reserve (reqs (tasks s t))) (s\<lparr>round_robin_index := i\<rparr>))"

text \<open>The contract of a strategy: it fails, leaving the state alone, exactly when no node has
  room, and otherwise places the task on a node that has.\<close>

locale placement =
  fixes place :: "tref \<Rightarrow> ('j, 'm) allocator_scheme \<Rightarrow> fault + allocation_result \<times> ('j, 'm) allocator_scheme"
  assumes no_room: "getViableEdges t s = [] \<Longrightarrow> place t s = Inr (no_result\<lparr>reason := no_viable\<rparr>, s)"
    and room: "alloc_ok s \<Longrightarrow> getViableEdges t s \<noteq> [] \<Longrightarrow> \<exists>r result s'. place t s = Inr (result, s') \<and> placed_on r t s result s'"
begin

lemma never_faults:
  assumes "alloc_ok s"
  obtains result s' where "place t s = Inr (result, s')"
  using assms no_room [of t s] room [of s t] by (cases "getViableEdges t s = []") auto

lemma success_iff: "alloc_ok s \<Longrightarrow> place t s = Inr (result, s') \<Longrightarrow> success result \<longleftrightarrow> getViableEdges t s \<noteq> []"
  using no_room [of t s] room [of s t] by (cases "getViableEdges t s = []") (auto simp: no_result_def placed_on_def)

lemma success_placed:
  "alloc_ok s \<Longrightarrow> place t s = Inr (result, s') \<Longrightarrow> success result \<Longrightarrow> \<exists>r. placed_on r t s result s'"
  using success_iff [of s t result s'] room [of s t] by auto

lemma failure_unchanged:
  "alloc_ok s \<Longrightarrow> place t s = Inr (result, s') \<Longrightarrow> \<not> success result \<Longrightarrow> s' = s \<and> reason result = no_viable"
  using success_iff [of s t result s'] no_room [of t s] by auto

end

section \<open>The four strategies as placements\<close>

lemma placed_onI:
  "r \<in> set (getViableEdges t s) \<Longrightarrow> success result \<Longrightarrow> result_edge_id result = edge_id (nodes s r) \<Longrightarrow>
   s' = upd_node r (reserve (reqs (tasks s t))) (s\<lparr>round_robin_index := i\<rparr>) \<Longrightarrow> placed_on r t s result s'"
  by (auto simp: placed_on_def)

text \<open>Each search finds a node: all the keys are on the better side of the value it starts from.\<close>

lemma viable_ok:
  assumes "alloc_ok s" "r \<in> set (getViableEdges t s)"
  shows "used_cpu (nodes s r) < dbl_max" "getLatencyMs (nodes s r) < int64_max"
    "dbl_of_int (getQueueLength (nodes s r)) < dbl_max" "- dbl_max < edge_score t s r"
proof -
  have r: "r \<in> registered s" using assms(2) by (simp add: getViableEdges_set)
  note ok = alloc_ok_registered [OF assms(1) r]
  show "used_cpu (nodes s r) < dbl_max" using used_cpu_less_max ok by blast
  show "getLatencyMs (nodes s r) < int64_max" using ok(2) by (simp add: getLatencyMs_def int64_max_def cap_ok_def)
  show "dbl_of_int (getQueueLength (nodes s r)) < dbl_max" using ok(3) by (intro dbl_of_int_less_max) simp
  have "0 \<le> edge_score t s r" using score_bounds assms(1) by (auto simp: edge_score_def alloc_ok_def)
  moreover have "- dbl_max < 0" by (simp add: double_iffs rat_of_ops rat_of_dbl_max)
  ultimately show "- dbl_max < edge_score t s r" by simp
qed

text \<open>What each strategy does when there is room: the node it takes is the first best one.\<close>

lemma round_robin_room:
  assumes "getViableEdges t s \<noteq> []"
  defines "r \<equiv> getViableEdges t s ! (unat (round_robin_index s) mod length (getViableEdges t s))"
  shows "\<exists>result s'. allocateRoundRobin t s = Inr (result, s') \<and> placed_on r t s result s' \<and>
    round_robin_index s' = round_robin_index s + 1"
  using assms by (auto simp: allocateRoundRobin_def Let_def intro!: placed_onI)

lemma least_load_room:
  assumes "alloc_ok s" "getViableEdges t s \<noteq> []"
  shows "\<exists>r result s'. allocateLeastLoad t s = Inr (result, s') \<and> placed_on r t s result s' \<and>
    first_best (<) (\<lambda>r. used_cpu (nodes s r)) r (getViableEdges t s) \<and> score result = used_cpu (nodes s r)"
proof -
  let ?V = "getViableEdges t s"
  let ?key = "\<lambda>r. used_cpu (nodes s r)"
  have "\<exists>x\<in>set ?V. ?key x < dbl_max" using assms viable_ok(1) by (metis last_in_set)
  from lowest.scan_some [OF this, of None] obtain b where
    b: "scan_best (<) ?key dbl_max None ?V = (?key b, Some b)" "first_best (<) ?key b ?V" by auto
  with assms show ?thesis
    by (auto simp: allocateLeastLoad_def Let_def intro!: placed_onI [where i = "round_robin_index s"]
        dest: lowest.first_best_in)
qed

lemma priority_high_room:
  assumes "alloc_ok s" "getViableEdges t s \<noteq> []" "is_high_priority (reqs (tasks s t))"
  shows "\<exists>r result s'. allocatePriorityBased t s = Inr (result, s') \<and> placed_on r t s result s' \<and>
    first_best (<) (\<lambda>r. getLatencyMs (nodes s r)) r (getViableEdges t s) \<and>
    score result = dbl_of_int (getLatencyMs (nodes s r))"
proof -
  let ?V = "getViableEdges t s"
  let ?key = "\<lambda>r. getLatencyMs (nodes s r)"
  have "\<exists>x\<in>set ?V. ?key x < int64_max" using assms viable_ok(2) by (metis last_in_set)
  from lowest.scan_some [OF this, of None] obtain b where
    b: "scan_best (<) ?key int64_max None ?V = (?key b, Some b)" "first_best (<) ?key b ?V" by auto
  with assms show ?thesis
    by (auto simp: allocatePriorityBased_def Let_def intro!: placed_onI [where i = "round_robin_index s"]
        dest: lowest.first_best_in)
qed

lemma priority_standard_room:
  assumes "alloc_ok s" "getViableEdges t s \<noteq> []" "\<not> is_high_priority (reqs (tasks s t))"
  shows "\<exists>r result s'. allocatePriorityBased t s = Inr (result, s') \<and> placed_on r t s result s' \<and>
    first_best (<) (\<lambda>r. dbl_of_int (getQueueLength (nodes s r))) r (getViableEdges t s) \<and>
    score result = dbl_of_int (getQueueLength (nodes s r))"
proof -
  let ?V = "getViableEdges t s"
  let ?key = "\<lambda>r. dbl_of_int (getQueueLength (nodes s r))"
  have "\<exists>x\<in>set ?V. ?key x < dbl_max" using assms viable_ok(3) by (metis last_in_set)
  from lowest.scan_some [OF this, of None] obtain b where
    b: "scan_best (<) ?key dbl_max None ?V = (?key b, Some b)" "first_best (<) ?key b ?V" by auto
  with assms show ?thesis
    by (auto simp: allocatePriorityBased_def Let_def intro!: placed_onI [where i = "round_robin_index s"]
        dest: lowest.first_best_in)
qed

lemma multi_constraint_room:
  assumes "alloc_ok s" "getViableEdges t s \<noteq> []"
  shows "\<exists>r result s'. allocateMultiConstraint t s = Inr (result, s') \<and> placed_on r t s result s' \<and>
    first_best (>) (edge_score t s) r (getViableEdges t s) \<and> score result = edge_score t s r"
proof -
  let ?V = "getViableEdges t s"
  have "\<exists>x\<in>set ?V. edge_score t s x > - dbl_max" using assms viable_ok(4) by (metis last_in_set)
  from highest.scan_some [OF this, of None] obtain b where
    b: "scan_best (>) (edge_score t s) (- dbl_max) None ?V = (edge_score t s b, Some b)"
      "first_best (>) (edge_score t s) b ?V" by auto
  with assms show ?thesis
    by (auto simp: allocateMultiConstraint_def Let_def intro!: placed_onI [where i = "round_robin_index s"]
        dest: highest.first_best_in)
qed

lemma no_room_strategies:
  assumes "getViableEdges t s = []"
  shows "allocateRoundRobin t s = Inr (no_result\<lparr>reason := no_viable\<rparr>, s)"
    "allocateLeastLoad t s = Inr (no_result\<lparr>reason := no_viable\<rparr>, s)"
    "allocatePriorityBased t s = Inr (no_result\<lparr>reason := no_viable\<rparr>, s)"
    "allocateMultiConstraint t s = Inr (no_result\<lparr>reason := no_viable\<rparr>, s)"
  using assms by (simp_all add: allocateRoundRobin_def allocateLeastLoad_def allocatePriorityBased_def
      allocateMultiConstraint_def Let_def)

interpretation rr: placement allocateRoundRobin
  by (rule placement.intro) (simp add: no_room_strategies, use round_robin_room in blast)

interpretation ll: placement allocateLeastLoad
  by (rule placement.intro) (simp add: no_room_strategies, use least_load_room in blast)

interpretation pb: placement allocatePriorityBased
  by (rule placement.intro)
    (simp add: no_room_strategies, use priority_high_room priority_standard_room in blast)

interpretation mc: placement allocateMultiConstraint
  by (rule placement.intro) (simp add: no_room_strategies, use multi_constraint_room in blast)

interpretation strat: placement run_strategy
proof
  show "getViableEdges t s = [] \<Longrightarrow> run_strategy t s = Inr (no_result\<lparr>reason := no_viable\<rparr>, s)" for t s
    by (simp add: run_strategy_def rr.no_room ll.no_room pb.no_room mc.no_room split: allocation_strategy.split)
  show "alloc_ok s \<Longrightarrow> getViableEdges t s \<noteq> [] \<Longrightarrow>
      \<exists>r result s'. run_strategy t s = Inr (result, s') \<and> placed_on r t s result s'" for t s
    by (simp add: run_strategy_def rr.room ll.room pb.room mc.room split: allocation_strategy.split)
qed

section \<open>Requests\<close>

lemma alloc_ok_cong:
  "nodes s' = nodes s \<Longrightarrow> next_node s' = next_node s \<Longrightarrow> edge_nodes s' = edge_nodes s \<Longrightarrow>
   nodes_mutex s' = nodes_mutex s \<Longrightarrow> weights s' = weights s \<Longrightarrow> alloc_ok s' = alloc_ok s"
  by (simp add: alloc_ok_def monitor_ok_def nodes_ok_def)

lemma alloc_ok_counters [simp]:
  "alloc_ok (s\<lparr>total_allocations := n\<rparr>) = alloc_ok s" "alloc_ok (s\<lparr>successful_allocations := n\<rparr>) = alloc_ok s"
  "alloc_ok (s\<lparr>failed_allocations := n\<rparr>) = alloc_ok s" "alloc_ok (s\<lparr>round_robin_index := n\<rparr>) = alloc_ok s"
  "alloc_ok (upd_task t g s) = alloc_ok s" "alloc_ok (db c s) = alloc_ok s"
  by (rule alloc_ok_cong; simp)+

lemma viable_counters [simp]:
  "getViableEdges t (s\<lparr>total_allocations := n\<rparr>) = getViableEdges t s"
  "getViableEdges t (s\<lparr>round_robin_index := n\<rparr>) = getViableEdges t s"
  by (rule viable_cong; simp)+

lemma refused_simps [simp]:
  "nodes (refused s) = nodes s" "tasks (refused s) = tasks s" "edge_nodes (refused s) = edge_nodes s"
  "next_node (refused s) = next_node s" "next_task (refused s) = next_task s" "db_calls (refused s) = db_calls s"
  "weights (refused s) = weights s" "strategy (refused s) = strategy s" "nodes_mutex (refused s) = nodes_mutex s"
  "total_allocations (refused s) = total_allocations s"
  "successful_allocations (refused s) = successful_allocations s"
  "failed_allocations (refused s) = failed_allocations s + 1"
  "round_robin_index (refused s) = round_robin_index s"
  by (simp_all add: refused_def)

lemma granted_simps [simp]:
  "nodes (granted t q s) = nodes s" "edge_nodes (granted t q s) = edge_nodes s"
  "next_node (granted t q s) = next_node s" "next_task (granted t q s) = next_task s"
  "weights (granted t q s) = weights s" "strategy (granted t q s) = strategy s"
  "nodes_mutex (granted t q s) = nodes_mutex s" "total_allocations (granted t q s) = total_allocations s"
  "successful_allocations (granted t q s) = successful_allocations s + 1"
  "failed_allocations (granted t q s) = failed_allocations s" "round_robin_index (granted t q s) = round_robin_index s"
  "tasks (granted t q s) = (tasks s)(t := setStatus QUEUED (setAssignedEdgeId (result_edge_id q) (tasks s t)))"
  "db_calls (granted t q s) = db_calls s @ [Db_updateTaskStatus (task_id (tasks s t)) QUEUED]"
  by (simp_all add: granted_def Let_def)

lemma alloc_ok_outcome [simp]: "alloc_ok (refused s) = alloc_ok s" "alloc_ok (granted t q s) = alloc_ok s"
  by (rule alloc_ok_cong; simp)+

lemma alloc_ok_upd_node:
  assumes "alloc_ok s" "node_ok (f (nodes s r))" "capacity (f (nodes s r)) = capacity (nodes s r)"
    "edge_id (f (nodes s r)) = edge_id (nodes s r)" "length (task_queue (f (nodes s r))) < 2 ^ 63"
  shows "alloc_ok (upd_node r f s)"
  using assms by (auto simp: alloc_ok_def intro!: monitor_ok_upd_node nodes_ok_upd_node)

lemma alloc_ok_placed:
  assumes "alloc_ok s" "req_ok (reqs (tasks s t))" "placed_on r t s result s'"
  shows "alloc_ok s'"
proof -
  have r: "r \<in> registered s" "can_host (reqs (tasks s t)) (nodes s r)"
    using assms(3) by (auto simp: placed_on_def getViableEdges_set)
  have "alloc_ok (upd_node r (reserve (reqs (tasks s t))) (s\<lparr>round_robin_index := i\<rparr>))" for i
    using assms(1,2) r alloc_ok_registered [OF assms(1) r(1)]
    by (intro alloc_ok_upd_node) (auto simp: node_account.take_ok getQueueLength_def)
  then show ?thesis using assms(3) by (auto simp: placed_on_def)
qed

text \<open>A request is refused, with nothing but the counters changed, exactly when no node has room;
  otherwise it is granted on a node that has.\<close>

lemma allocateTask_no_room:
  "getViableEdges t s = [] \<Longrightarrow>
   allocateTask t s = Inr (no_result\<lparr>reason := no_viable\<rparr>, refused (s\<lparr>total_allocations := total_allocations s + 1\<rparr>))"
  by (simp add: allocateTask_def strat.no_room) (simp add: no_result_def)

lemma allocateTask_room:
  assumes "alloc_ok s" "getViableEdges t s \<noteq> []"
  shows "\<exists>r result s1. allocateTask t s = Inr (result, granted t result s1) \<and> success result \<and>
    placed_on r t (s\<lparr>total_allocations := total_allocations s + 1\<rparr>) result s1"
proof -
  obtain r result s1 where "run_strategy t (s\<lparr>total_allocations := total_allocations s + 1\<rparr>) = Inr (result, s1)"
    "placed_on r t (s\<lparr>total_allocations := total_allocations s + 1\<rparr>) result s1"
    using strat.room [of "s\<lparr>total_allocations := total_allocations s + 1\<rparr>" t] assms by auto
  then show ?thesis by (auto simp: allocateTask_def placed_on_def)
qed

lemma allocateTask_total:
  assumes "alloc_ok s"
  obtains result s' where "allocateTask t s = Inr (result, s')"
  using assms allocateTask_no_room [of t s] allocateTask_room [of s t] that by (cases "getViableEdges t s = []") blast+

lemma allocateTask_success:
  assumes "alloc_ok s" "allocateTask t s = Inr (result, s')" "success result"
  shows "\<exists>r s1. s' = granted t result s1 \<and> placed_on r t (s\<lparr>total_allocations := total_allocations s + 1\<rparr>) result s1"
  using assms allocateTask_no_room [of t s] allocateTask_room [of s t]
  by (cases "getViableEdges t s = []") (auto simp: no_result_def)

lemma allocateTask_failure:
  assumes "alloc_ok s" "allocateTask t s = Inr (result, s')" "\<not> success result"
  shows "getViableEdges t s = []" "reason result = no_viable"
    "s' = refused (s\<lparr>total_allocations := total_allocations s + 1\<rparr>)"
  using assms allocateTask_no_room [of t s] allocateTask_room [of s t]
  by (cases "getViableEdges t s = []"; auto)+

lemma allocateTask_alloc_ok:
  assumes "alloc_ok s" "req_ok (reqs (tasks s t))" "allocateTask t s = Inr (result, s')"
  shows "alloc_ok s'"
proof (cases "success result")
  case True
  with assms obtain r s1 where "s' = granted t result s1"
    "placed_on r t (s\<lparr>total_allocations := total_allocations s + 1\<rparr>) result s1"
    using allocateTask_success by blast
  then show ?thesis using alloc_ok_placed [of "s\<lparr>total_allocations := total_allocations s + 1\<rparr>" t] assms by simp
next
  case False
  with assms show ?thesis using allocateTask_failure(3) [of s t result s'] by simp
qed

lemma placed_on_frame:
  assumes "placed_on r t s result s'"
  shows "tasks s' = tasks s" "edge_nodes s' = edge_nodes s" "next_node s' = next_node s" "next_task s' = next_task s"
    "total_allocations s' = total_allocations s" "successful_allocations s' = successful_allocations s"
    "failed_allocations s' = failed_allocations s" "db_calls s' = db_calls s" "nodes_mutex s' = nodes_mutex s"
    "nodes s' = (nodes s)(r := reserve (reqs (tasks s t)) (nodes s r))"
  using assms by (auto simp: placed_on_def)

lemma allocateTask_frame:
  assumes "alloc_ok s" "allocateTask t s = Inr (result, s')"
  shows "edge_nodes s' = edge_nodes s \<and> next_node s' = next_node s \<and> next_task s' = next_task s \<and>
    nodes_mutex s' = nodes_mutex s \<and> (\<forall>r. capacity (nodes s' r) = capacity (nodes s r) \<and>
      edge_id (nodes s' r) = edge_id (nodes s r) \<and> task_queue (nodes s' r) = task_queue (nodes s r) \<and>
      is_available (nodes s' r) = is_available (nodes s r)) \<and> (\<forall>u. reqs (tasks s' u) = reqs (tasks s u))"
proof (cases "success result")
  case True
  with assms obtain r s1 where "s' = granted t result s1"
    "placed_on r t (s\<lparr>total_allocations := total_allocations s + 1\<rparr>) result s1"
    using allocateTask_success by blast
  then show ?thesis by (simp add: placed_on_frame)
next
  case False
  with assms show ?thesis using allocateTask_failure(3) [of s t result s'] by simp
qed

lemma allocateTask_counts:
  assumes "alloc_ok s" "allocateTask t s = Inr (result, s')"
  shows "total_allocations s' = total_allocations s + 1 \<and>
    successful_allocations s' = successful_allocations s + (if success result then 1 else 0) \<and>
    failed_allocations s' = failed_allocations s + (if success result then 0 else 1)"
proof (cases "success result")
  case True
  with assms obtain r s1 where "s' = granted t result s1"
    "placed_on r t (s\<lparr>total_allocations := total_allocations s + 1\<rparr>) result s1"
    using allocateTask_success by blast
  with True show ?thesis by (simp add: placed_on_frame)
qed (use assms in \<open>auto dest: allocateTask_failure(3)\<close>)


section \<open>Requests with back-pressure\<close>

text \<open>The state before attempt \<open>n\<close> when the attempts before it fail: a failed attempt changes nothing,
  so it is what the environment makes of the state during \<open>n\<close> sleeps.\<close>

fun slept :: "(nat \<Rightarrow> 's \<Rightarrow> 's) \<Rightarrow> nat \<Rightarrow> 's \<Rightarrow> 's" where
  "slept sleep 0 s = s"
| "slept sleep (Suc n) s = sleep n (slept sleep n s)"

lemma retry_step:
  assumes "getViableEdges t s = []" "edge_nodes s \<noteq> []"
  shows "retry_loop sleep k (Suc left) t s = retry_loop sleep (Suc k) left t (sleep k s)"
  using assms
  by (subst retry_loop.simps) (simp add: strat.no_room no_result_def no_viable_def)

lemma retry_steps:
  assumes "\<forall>k<n. getViableEdges t (slept sleep k s) = [] \<and> edge_nodes (slept sleep k s) \<noteq> []"
  shows "retry_loop sleep 0 (n + m) t s = retry_loop sleep n m t (slept sleep n s)"
  using assms
proof (induction n arbitrary: m)
  case (Suc n)
  have "retry_loop sleep 0 (n + Suc m) t s = retry_loop sleep n (Suc m) t (slept sleep n s)"
    using Suc.prems by (intro Suc.IH) simp
  also have "\<dots> = retry_loop sleep (Suc n) m t (sleep n (slept sleep n s))"
    using Suc.prems by (intro retry_step) auto
  finally show ?case by (simp only: add_Suc_shift slept.simps)
qed simp

lemma retry_refused:
  assumes "getViableEdges t s = []"
  shows "retry_loop sleep k 0 t s = Inr (no_result\<lparr>reason := no_viable\<rparr>, refused s)"
  using assms by (subst retry_loop.simps) (simp add: strat.no_room no_result_def)

lemma retry_no_nodes:
  assumes "edge_nodes s = []"
  shows "retry_loop sleep k m t s = Inr (no_result\<lparr>reason := no_viable\<rparr>, refused s)"
proof -
  have "getViableEdges t s = []" using assms by (simp add: getViableEdges_def)
  then show ?thesis using assms by (subst retry_loop.simps) (simp add: strat.no_room no_result_def)
qed

lemma retry_granted:
  assumes "alloc_ok s" "getViableEdges t s \<noteq> []"
  shows "\<exists>r result s1. retry_loop sleep k m t s = Inr (result, granted t result s1) \<and> success result \<and>
    run_strategy t s = Inr (result, s1) \<and> placed_on r t s result s1"
proof -
  obtain r result s1 where "run_strategy t s = Inr (result, s1)" "placed_on r t s result s1"
    using strat.room assms by blast
  then show ?thesis by (subst retry_loop.simps) (auto simp: placed_on_def)
qed

section \<open>Success rate\<close>

lemma dbl_of_u64_mono: "a \<le> b \<Longrightarrow> dbl_of_u64 a \<le> dbl_of_u64 b"
  by (simp add: dbl_of_u64_def dbl_of_int_mono word_le_def)


lemma double_divide_self: "(x :: double) \<noteq> 0 \<Longrightarrow> x / x = 1"
  by (simp add: double_iffs rat_of_ops)

lemma rate_bounds:
  assumes "0 \<le> x" "x \<le> y" "0 < (y :: double)"
  shows "0 \<le> x / y * dbl 100 \<and> x / y * dbl 100 \<le> dbl 100"
proof -
  have "x / y \<le> y / y" using assms by (intro double_divide_mono)
  then have "x / y \<le> 1" using assms by (simp add: double_divide_self)
  moreover have "0 \<le> x / y" using assms by (simp add: double_divide_nonneg)
  ultimately show ?thesis
    using double_mult_mono [of "x / y" 1 "dbl 100" "dbl 100"]
    by (simp add: double_mult_nonneg dbl_nonneg)
qed

lemma dbl_of_u64_pos: "w \<noteq> 0 \<Longrightarrow> 0 < dbl_of_u64 w"
proof -
  assume "w \<noteq> 0"
  then have "1 \<le> uint w" using uint_ge_0 [of w] by (metis int_one_le_iff_zero_less le_less uint_0_iff)
  then have "dbl_of_int 1 \<le> dbl_of_u64 w" by (simp add: dbl_of_u64_def dbl_of_int_mono)
  moreover have "0 < dbl_of_int 1" using dbl_of_int_less [of 0 1] by simp
  ultimately show ?thesis by simp
qed

section \<open>Properties\<close>


text \<open>C19: the accounting invariant of all nodes is kept, and on a node whose capacities have even
  significands no allocation makes a usage exceed its capacity.\<close>

theorem allocateTask_never_overcommits:
  assumes "alloc_ok s" "req_ok (reqs (tasks s t))" "allocateTask t s = Inr (result, s')"
    and "r \<in> registered s" "even_sig (cap_cpu_percent (capacity (nodes s r)))"
    "even_sig (cap_ram_mb (capacity (nodes s r)))" "even_sig (cap_bandwidth_mbps (capacity (nodes s r)))"
  shows "alloc_ok s' \<and> capacity (nodes s' r) = capacity (nodes s r) \<and>
    used_cpu_percent (current_usage (nodes s' r)) \<le> cap_cpu_percent (capacity (nodes s r)) \<and>
    used_ram_mb (current_usage (nodes s' r)) \<le> cap_ram_mb (capacity (nodes s r)) \<and>
    used_bandwidth_mbps (current_usage (nodes s' r)) \<le> cap_bandwidth_mbps (capacity (nodes s r))"
proof -
  have ok: "alloc_ok s'" using assms(1-3) by (rule allocateTask_alloc_ok)
  note frame = allocateTask_frame [OF assms(1,3)]
  have "r \<in> registered s'" using assms(4) frame by (simp add: registered_def)
  with alloc_ok_registered(1) [OF ok this] assms(5-7) ok frame show ?thesis
    by (simp add: node_ok_def fits_even)
qed

text \<open>A node whose CPU capacity has an odd significand.\<close>

definition odd_node :: edge_node where
  "odd_node = (new_edge_node ''edge'' \<lparr>cap_cpu_percent = dbl (2 ^ 52 + 3), cap_ram_mb = dbl 8,
     cap_bandwidth_mbps = dbl 8, latency_ms = 5\<rparr>)
     \<lparr>current_usage := \<lparr>used_cpu_percent = dbl (3 / 2), used_ram_mb = 0, used_bandwidth_mbps = 0\<rparr>\<rparr>"


text \<open>C14: the multi-constraint strategy picks the first node, in the order of the edge ids, whose score
  no other viable node's score exceeds, and reports that score, which lies on the scale from 0 to
  the score of an idle node without latency.\<close>

theorem multi_constraint_optimal:
  assumes "alloc_ok s" "getViableEdges t s \<noteq> []"
  shows "\<exists>r result s'. allocateMultiConstraint t s = Inr (result, s') \<and> placed_on r t s result s' \<and>
    score result = edge_score t s r \<and> 0 \<le> score result \<and> score result \<le> max_score (weights s) \<and>
    (\<forall>q\<in>set (getViableEdges t s). edge_score t s q \<le> score result) \<and>
    first_best (>) (edge_score t s) r (getViableEdges t s)"
proof -
  obtain r result s' where *: "allocateMultiConstraint t s = Inr (result, s')" "placed_on r t s result s'"
    "first_best (>) (edge_score t s) r (getViableEdges t s)" "score result = edge_score t s r"
    using multi_constraint_room [OF assms] by blast
  have "0 \<le> edge_score t s r \<and> edge_score t s r \<le> max_score (weights s)"
    using assms(1) score_bounds by (auto simp: alloc_ok_def edge_score_def)
  then show ?thesis using * highest.first_best_all [OF *(3)] by (fastforce simp: not_less)
qed

text \<open>the least-load strategy picks the first viable node with the least CPU in use.\<close>

theorem least_load_optimal:
  assumes "alloc_ok s" "getViableEdges t s \<noteq> []"
  shows "\<exists>r result s'. allocateLeastLoad t s = Inr (result, s') \<and> placed_on r t s result s' \<and>
    score result = used_cpu (nodes s r) \<and>
    (\<forall>q\<in>set (getViableEdges t s). used_cpu (nodes s r) \<le> used_cpu (nodes s q)) \<and>
    first_best (<) (\<lambda>r. used_cpu (nodes s r)) r (getViableEdges t s)"
proof -
  obtain r result s' where *: "allocateLeastLoad t s = Inr (result, s')" "placed_on r t s result s'"
    "first_best (<) (\<lambda>r. used_cpu (nodes s r)) r (getViableEdges t s)" "score result = used_cpu (nodes s r)"
    using least_load_room [OF assms] by blast
  then show ?thesis using lowest.first_best_all [OF *(3)] by (auto simp: not_less)
qed

text \<open>the priority-based strategy sends a task of high or critical priority to a viable node of
  least latency, and any other task to a viable node whose queue is shortest.\<close>

theorem priority_based_optimal:
  assumes "alloc_ok s" "getViableEdges t s \<noteq> []" "\<forall>q. length (task_queue (nodes s q)) \<le> 2 ^ 53"
  shows "\<exists>r result s'. allocatePriorityBased t s = Inr (result, s') \<and> placed_on r t s result s' \<and>
    (if priority (reqs (tasks s t)) \<in> {HIGH, CRITICAL}
     then score result = dbl_of_int (getLatencyMs (nodes s r)) \<and>
          (\<forall>q\<in>set (getViableEdges t s). getLatencyMs (nodes s r) \<le> getLatencyMs (nodes s q))
     else score result = dbl_of_int (getQueueLength (nodes s r)) \<and>
          (\<forall>q\<in>set (getViableEdges t s). getQueueLength (nodes s r) \<le> getQueueLength (nodes s q)))"
proof (cases "is_high_priority (reqs (tasks s t))")
  case True
  then obtain r result s' where *: "allocatePriorityBased t s = Inr (result, s')" "placed_on r t s result s'"
    "first_best (<) (\<lambda>r. getLatencyMs (nodes s r)) r (getViableEdges t s)"
    "score result = dbl_of_int (getLatencyMs (nodes s r))"
    using priority_high_room [OF assms(1,2)] by blast
  then show ?thesis using True lowest.first_best_all [OF *(3)] by (auto simp: not_less is_high_priority_def)
next
  case False
  then obtain r result s' where *: "allocatePriorityBased t s = Inr (result, s')" "placed_on r t s result s'"
    "first_best (<) (\<lambda>r. dbl_of_int (getQueueLength (nodes s r))) r (getViableEdges t s)"
    "score result = dbl_of_int (getQueueLength (nodes s r))"
    using priority_standard_room [OF assms(1,2)] by blast
  have "getQueueLength (nodes s r) \<le> getQueueLength (nodes s q)" if "q \<in> set (getViableEdges t s)" for q
  proof -
    have "\<not> dbl_of_int (getQueueLength (nodes s q)) < dbl_of_int (getQueueLength (nodes s r))"
      using lowest.first_best_all [OF *(3) that] .
    then show ?thesis
      using dbl_of_int_less [of "getQueueLength (nodes s q)" "getQueueLength (nodes s r)"] assms(3)
      by (fastforce simp: getQueueLength_def not_less)
  qed
  then show ?thesis using False * by (auto simp: is_high_priority_def)
qed

text \<open>every request adds one to the total and one to exactly one of the two outcome counters, so the
  total stays the sum of the two (in 64-bit arithmetic).\<close>

theorem allocation_counters_balance:
  assumes "alloc_ok s" "allocateTask t s = Inr (result, s')"
    and "total_allocations s = successful_allocations s + failed_allocations s"
  shows "total_allocations s' = total_allocations s + 1 \<and>
    successful_allocations s' = successful_allocations s + (if success result then 1 else 0) \<and>
    total_allocations s' = successful_allocations s' + failed_allocations s'"
  using allocateTask_counts [OF assms(1,2)] assms(3) by (auto split: if_splits)

text \<open>C18: the request with back-pressure always returns. It counts as one request, tries again after
  every sleep as long as some node is registered and none has room, and there is one attempt
  \<open>n \<le> max_retries\<close> that decides: the first one at which a node has room, which grants the
  request, or, if there is none, the last one, which refuses it.\<close>

theorem allocateTaskWithRetry_outcome:
  fixes s :: "('j, 'm) allocator_scheme"
  assumes "\<forall>k\<le>max_retries. alloc_ok (slept sleep k (s\<lparr>total_allocations := total_allocations s + 1\<rparr>))"
  shows "\<exists>n\<le>max_retries. let before = (\<lambda>k. slept sleep k (s\<lparr>total_allocations := total_allocations s + 1\<rparr>)) in
    (\<forall>k<n. getViableEdges t (before k) = [] \<and> edge_nodes (before k) \<noteq> []) \<and>
    (if getViableEdges t (before n) \<noteq> []
     then \<exists>r result s1. allocateTaskWithRetry sleep max_retries t s = Inr (result, granted t result s1) \<and>
            success result \<and> run_strategy t (before n) = Inr (result, s1) \<and> placed_on r t (before n) result s1
     else (n = max_retries \<or> edge_nodes (before n) = []) \<and>
          allocateTaskWithRetry sleep max_retries t s = Inr (no_result\<lparr>reason := no_viable\<rparr>, refused (before n)))"
proof -
  define before where "before = (\<lambda>k. slept sleep k (s\<lparr>total_allocations := total_allocations s + 1\<rparr>))"
  define stop where "stop k \<longleftrightarrow> k = max_retries \<or> edge_nodes (before k) = [] \<or> getViableEdges t (before k) \<noteq> []" for k
  define n where "n = (LEAST k. stop k)"
  have "stop max_retries" by (simp add: stop_def)
  then have n: "stop n" "n \<le> max_retries" by (auto simp: n_def intro: LeastI Least_le)
  have "\<forall>k<n. \<not> stop k" using not_less_Least by (auto simp: n_def)
  then have earlier: "\<forall>k<n. getViableEdges t (before k) = [] \<and> edge_nodes (before k) \<noteq> []" by (auto simp: stop_def)
  define m where "m = max_retries - n"
  have max: "max_retries = n + m" using n(2) by (simp add: m_def)
  have run: "allocateTaskWithRetry sleep max_retries t s = retry_loop sleep n m t (before n)"
    using earlier unfolding allocateTaskWithRetry_def max before_def by (rule retry_steps)
  have "if getViableEdges t (before n) \<noteq> []
     then \<exists>r result s1. allocateTaskWithRetry sleep max_retries t s = Inr (result, granted t result s1) \<and>
            success result \<and> run_strategy t (before n) = Inr (result, s1) \<and> placed_on r t (before n) result s1
     else (n = max_retries \<or> edge_nodes (before n) = []) \<and>
          allocateTaskWithRetry sleep max_retries t s = Inr (no_result\<lparr>reason := no_viable\<rparr>, refused (before n))"
  proof (cases "getViableEdges t (before n) = []")
    case True
    then consider "edge_nodes (before n) = []" | "n = max_retries" "m = 0" using n(1) by (auto simp: stop_def m_def)
    then show ?thesis using True by cases (simp_all add: run retry_no_nodes retry_refused)
  next
    case False
    then show ?thesis using retry_granted [of "before n" t sleep n m] assms n(2) by (auto simp: run before_def)
  qed
  then show ?thesis using earlier n(2) unfolding before_def Let_def by blast
qed

lemma success_rate_bound:
  assumes "successful_allocations s \<le> total_allocations s"
  shows "0 \<le> getSuccessRate s \<and> getSuccessRate s \<le> dbl 100"
proof (cases "total_allocations s = 0")
  case False
  then show ?thesis
    using rate_bounds [OF _ dbl_of_u64_mono [OF assms] dbl_of_u64_pos [OF False]]
    by (simp add: getSuccessRate_def dbl_of_u64_def dbl_of_int_mono [of 0, simplified])
qed (simp add: getSuccessRate_def dbl_nonneg)

text \<open>the success rate is a percentage: it lies between 0 and 100 whenever the successes do not
  exceed the requests.\<close>

theorem success_rate_bounds:
  assumes "successful_allocations s \<le> total_allocations s"
  shows "0 \<le> getSuccessRate s \<and> getSuccessRate s \<le> dbl 100"
  using success_rate_bound [OF assms] .

text \<open>A series of requests, one after the other.\<close>

fun requests :: "tref list \<Rightarrow> ('j, 'm) allocator_scheme \<Rightarrow> fault + allocation_result list \<times> ('j, 'm) allocator_scheme" where
  "requests [] s = Inr ([], s)"
| "requests (t # ts) s =
     bind_sum (allocateTask t s) (\<lambda>(result, s1). bind_sum (requests ts s1) (\<lambda>(results, s2). Inr (result # results, s2)))"

text \<open>All through the series the nodes with room for the next task are those of \<open>V\<close>.\<close>

fun room_stays :: "nref list \<Rightarrow> tref list \<Rightarrow> ('j, 'm) allocator_scheme \<Rightarrow> bool" where
  "room_stays V [] s = True"
| "room_stays V (t # ts) s =
     (getViableEdges t s = V \<and> (case allocateTask t s of Inl e \<Rightarrow> False | Inr (result, s1) \<Rightarrow> room_stays V ts s1))"

lemma round_robin_step:
  assumes "strategy s = ROUND_ROBIN" "getViableEdges t s \<noteq> []"
  obtains result s' where "allocateTask t s = Inr (result, s')"
    "result_edge_id result = edge_id (nodes s (getViableEdges t s ! (unat (round_robin_index s) mod length (getViableEdges t s))))"
    "strategy s' = ROUND_ROBIN" "round_robin_index s' = round_robin_index s + 1" "\<forall>r. edge_id (nodes s' r) = edge_id (nodes s r)"
  using assms by (auto simp: allocateTask_def run_strategy_def allocateRoundRobin_def Let_def)

lemma round_robin_series:
  assumes "strategy s = ROUND_ROBIN" "V \<noteq> []" "room_stays V ts s" "unat (round_robin_index s) + length ts < 2 ^ 64"
  shows "\<exists>results s'. requests ts s = Inr (results, s') \<and>
    map result_edge_id results =
      map (\<lambda>i. edge_id (nodes s (V ! ((unat (round_robin_index s) + i) mod length V)))) [0..<length ts]"
  using assms
proof (induction ts arbitrary: s)
  case (Cons t ts)
  from Cons.prems have V: "getViableEdges t s = V" by simp
  obtain result s1 where 1: "allocateTask t s = Inr (result, s1)"
    "result_edge_id result = edge_id (nodes s (V ! (unat (round_robin_index s) mod length V)))"
    "strategy s1 = ROUND_ROBIN" "round_robin_index s1 = round_robin_index s + 1" "\<forall>r. edge_id (nodes s1 r) = edge_id (nodes s r)"
    using round_robin_step [OF Cons.prems(1), of t] Cons.prems(2) V by metis
  have "unat (round_robin_index s + 1) = Suc (unat (round_robin_index s))"
    using Cons.prems(4) by (simp add: unat_word_ariths)
  with 1 Cons.IH [of s1] Cons.prems obtain results s2 where "requests ts s1 = Inr (results, s2)"
    "map result_edge_id results =
      map (\<lambda>i. edge_id (nodes s (V ! ((unat (round_robin_index s) + Suc i) mod length V)))) [0..<length ts]"
    by auto
  moreover have "[0..<length (t # ts)] = 0 # map Suc [0..<length ts]"
    by (simp only: list.size add_Suc_right add_0_right upt_conv_Cons [OF zero_less_Suc] map_Suc_upt)
  ultimately show ?case using 1 by (simp del: upt_Suc add: comp_def)
qed simp

text \<open>round robin takes the nodes in turn: as long as the same nodes have room, the \<open>i\<close>th request
  of a series goes to the node \<open>i\<close> places after the current index, modulo their number.\<close>

theorem round_robin_cycles:
  assumes "strategy s = ROUND_ROBIN" "V \<noteq> []" "room_stays V ts s" "unat (round_robin_index s) + length ts < 2 ^ 64"
  shows "\<exists>results s'. requests ts s = Inr (results, s') \<and> length results = length ts \<and>
    (\<forall>i<length ts. result_edge_id (results ! i) =
       edge_id (nodes s (V ! ((unat (round_robin_index s) + i) mod length V))))"
proof -
  obtain results s' where r: "requests ts s = Inr (results, s')" "map result_edge_id results =
      map (\<lambda>i. edge_id (nodes s (V ! ((unat (round_robin_index s) + i) mod length V)))) [0..<length ts]"
    using round_robin_series [OF assms] by blast
  then have "length results = length ts" by (metis length_map map_nth)
  moreover have "result_edge_id (results ! i) =
      edge_id (nodes s (V ! ((unat (round_robin_index s) + i) mod length V)))" if "i < length ts" for i
    using arg_cong [OF r(2), of "\<lambda>l. l ! i"] that calculation by simp
  ultimately show ?thesis using r(1) by blast
qed

section \<open>A concrete state\<close>

text \<open>Two idle nodes and one camera task, the state the properties are exercised on.\<close>

definition demo_cap :: "int \<Rightarrow> resource_capacity" where
  "demo_cap l = \<lparr>cap_cpu_percent = dbl 100, cap_ram_mb = dbl 4096, cap_bandwidth_mbps = dbl 128, latency_ms = l\<rparr>"

definition demo_nodes :: "nref \<Rightarrow> edge_node" where
  "demo_nodes r = (if r = 0 then new_edge_node ''edge-1'' (demo_cap 20) else new_edge_node ''edge-2'' (demo_cap 5))"

definition demo_tasks :: "tref \<Rightarrow> unit task" where
  "demo_tasks t = new_task 0 ''T000001'' ''device-1'' ''camera'' (mk_req 60 1024 20 50 CRITICAL) ()"

definition demo :: "allocation_strategy \<Rightarrow> unit allocator" where
  "demo st = \<lparr>tasks = demo_tasks, next_task = 1, nodes = demo_nodes, next_node = 2, db_calls = [],
     edge_nodes = [(''edge-1'', Some 0), (''edge-2'', Some 1)], nodes_mutex = False,
     total_node_failures = 0, total_node_recoveries = 0, strategy = st, weights = default_weights,
     total_allocations = 0, successful_allocations = 0, failed_allocations = 0, round_robin_index = 0\<rparr>"

lemma demo_simps [simp]:
  "tasks (demo st) = demo_tasks" "next_task (demo st) = 1" "nodes (demo st) = demo_nodes" "next_node (demo st) = 2"
  "db_calls (demo st) = []" "edge_nodes (demo st) = [(''edge-1'', Some 0), (''edge-2'', Some 1)]"
  "\<not> nodes_mutex (demo st)" "strategy (demo st) = st" "weights (demo st) = default_weights"
  "total_allocations (demo st) = 0" "successful_allocations (demo st) = 0" "failed_allocations (demo st) = 0"
  "round_robin_index (demo st) = 0"
  by (simp_all add: demo_def)

lemma demo_node_simps [simp]:
  "edge_id (demo_nodes r) = (if r = 0 then ''edge-1'' else ''edge-2'')"
  "capacity (demo_nodes r) = demo_cap (if r = 0 then 20 else 5)"
  "task_queue (demo_nodes r) = []" "is_available (demo_nodes r)"
  by (simp_all add: demo_nodes_def new_edge_node_def)

lemma demo_task_simps [simp]: "reqs (demo_tasks t) = mk_req 60 1024 20 50 CRITICAL" "task_id (demo_tasks t) = ''T000001''"
  by (simp_all add: demo_tasks_def new_task_def)

lemma demo_req: "req_ok (mk_req 60 1024 20 50 CRITICAL)"
  by (simp add: mk_req_ok)

lemma demo_cap_ok: "l < 2 ^ 63 - 1 \<Longrightarrow> cap_ok (demo_cap l)"
  by (simp add: cap_ok_def demo_cap_def dbl_nonneg dbl_of_int_def dbl_le)

lemma demo_nodes_ok: "node_ok (demo_nodes r)"
  by (simp add: demo_nodes_def node_ok_new demo_cap_ok)

lemma demo_ok: "alloc_ok (demo st)"
  by (simp add: alloc_ok_def monitor_ok_def nodes_ok_def demo_nodes_ok default_weights_ok map_ok_def demo_cap_ok)

lemma demo_fits: "can_host (mk_req 60 1024 20 50 CRITICAL) (demo_nodes r)"
  by (auto simp: demo_nodes_def new_edge_node_def mk_req_def demo_cap_def canAllocate_def Let_def intro: dbl_le)

lemma demo_room [simp]: "getViableEdges t (demo st) = [0, 1]"
  using demo_fits by (simp add: getViableEdges_def)

lemma even_sig_pow: "even_sig (dbl 100)" "even_sig (dbl 4096)" "even_sig (dbl 128)"
  by code_simp+


theorem allocateTask_never_overcommits_witness:
  "\<exists>result s'. allocateTask 0 (demo LEAST_LOAD) = Inr (result, s') \<and>
     used_cpu_percent (current_usage (nodes s' 0)) \<le> dbl 100"
proof -
  obtain result s' where "allocateTask 0 (demo LEAST_LOAD) = Inr (result, s')"
    using allocateTask_total [OF demo_ok] .
  then show ?thesis
    using allocateTask_never_overcommits [of "demo LEAST_LOAD" 0 result s' 0] even_sig_pow demo_req demo_ok
    by (auto simp: registered_def demo_cap_def)
qed

theorem multi_constraint_optimal_witness:
  "\<exists>result s'. allocateMultiConstraint 0 (demo MULTI_CONSTRAINT) = Inr (result, s') \<and>
     score result \<le> max_score default_weights"
  using multi_constraint_optimal [OF demo_ok, of 0 MULTI_CONSTRAINT] by auto

theorem least_load_optimal_witness:
  "\<exists>r result s'. allocateLeastLoad 0 (demo LEAST_LOAD) = Inr (result, s') \<and> score result = used_cpu (demo_nodes r)"
  using least_load_optimal [OF demo_ok, of 0 LEAST_LOAD] by auto

theorem priority_based_optimal_witness:
  "\<exists>result s'. allocatePriorityBased 0 (demo PRIORITY_BASED) = Inr (result, s') \<and> result_edge_id result = ''edge-2''"
proof -
  have lat: "getLatencyMs (demo_nodes r) = (if r = 0 then 20 else 5)" for r
    by (simp add: getLatencyMs_def demo_cap_def)
  obtain r result s' where *: "allocatePriorityBased 0 (demo PRIORITY_BASED) = Inr (result, s')"
    "placed_on r 0 (demo PRIORITY_BASED) result s'" "\<forall>q\<in>{0, 1}. getLatencyMs (demo_nodes r) \<le> getLatencyMs (demo_nodes q)"
    using priority_based_optimal [OF demo_ok, of 0 PRIORITY_BASED] by (auto simp: mk_req_def)
  then have "r \<noteq> 0" by (auto simp: lat split: if_splits)
  with * show ?thesis by (simp add: placed_on_def)
qed

theorem allocation_counters_balance_witness:
  "\<exists>result s'. allocateTask 0 (demo ROUND_ROBIN) = Inr (result, s') \<and> total_allocations s' = 1"
proof -
  obtain result s' where "allocateTask 0 (demo ROUND_ROBIN) = Inr (result, s')"
    using allocateTask_total [OF demo_ok] .
  then show ?thesis using allocation_counters_balance [OF demo_ok, of 0 ROUND_ROBIN result s'] by auto
qed

theorem allocateTaskWithRetry_outcome_witness:
  "\<exists>result s'. allocateTaskWithRetry (\<lambda>_ s. s) 200 0 (demo ROUND_ROBIN) = Inr (result, s') \<and> success result"
proof -
  have same: "slept (\<lambda>_ s. s) k s = s" for k and s :: "unit allocator" by (induction k) auto
  show ?thesis
    using allocateTaskWithRetry_outcome [of 200 "\<lambda>_ s. s" "demo ROUND_ROBIN" 0, unfolded Let_def same]
    by (simp add: demo_ok) blast
qed

theorem success_rate_bounds_witness: "getSuccessRate (demo ROUND_ROBIN) \<le> dbl 100"
  using success_rate_bounds [of "demo ROUND_ROBIN"] by simp

theorem round_robin_cycles_witness:
  "\<exists>results s'. requests [0] (demo ROUND_ROBIN) = Inr (results, s') \<and> result_edge_id (results ! 0) = ''edge-1''"
proof -
  obtain result s' where "allocateTask 0 (demo ROUND_ROBIN) = Inr (result, s')"
    using allocateTask_total [OF demo_ok] .
  then have "room_stays [0, 1] [0] (demo ROUND_ROBIN)" by simp
  from round_robin_cycles [OF _ _ this] show ?thesis by (simp del: requests.simps) blast
qed

end
