(* ===== verification/Task_Scheduler.thy ===== *)
theory Task_Scheduler
  imports Resource_Allocator
begin

text \<open>
  \<^verbatim>\<open>task_scheduler.h\<close> and \<^verbatim>\<open>task_scheduler.cpp\<close>: which of the tasks queued on an edge node runs next.
  Both operations hold the scheduler's mutex, so they are one state change each. The comparison
  of the earliest-deadline-first policy reads the clock twice each time it is called: the \<open>j\<close>th
  comparison of a search sees the two readings \<open>clk j\<close>, for its first and its second argument.

  The enumerator \<open>PRIORITY_BASED\<close> of the scheduler is \<open>SCHED_PRIORITY_BASED\<close> here, since the
  allocator has an enumerator of the same name. The three comparator structs are not used by
  the code.
\<close>

section \<open>State and operations\<close>

datatype scheduling_strategy = FIFO | SCHED_PRIORITY_BASED | EARLIEST_DEADLINE_FIRST | ROUND_ROBIN_TIME_SLICE

record 'j scheduler = "'j allocator" +
  sched_strategy :: scheduling_strategy
  total_tasks_scheduled :: u64

definition new_scheduler :: "scheduling_strategy \<Rightarrow> ('j, 'm) scheduler_scheme \<Rightarrow> ('j, 'm) scheduler_scheme" where
  "new_scheduler st s = s\<lparr>sched_strategy := st, total_tasks_scheduled := 0\<rparr>"

definition setSchedStrategy :: "scheduling_strategy \<Rightarrow> ('j, 'm) scheduler_scheme \<Rightarrow> ('j, 'm) scheduler_scheme" where
  "setSchedStrategy st s = s\<lparr>sched_strategy := st\<rparr>"

definition scheduleTask :: "nref option \<Rightarrow> tref option \<Rightarrow> ('j, 'm) scheduler_scheme \<Rightarrow> ('j, 'm) scheduler_scheme" where
  "scheduleTask edge task s =
     (case (edge, task) of
        (Some r, Some t) \<Rightarrow>
          (let s1 = upd_task t (setStatus QUEUED) s;
               s2 = upd_node r (enqueueTask t) s1
           in s2\<lparr>total_tasks_scheduled := total_tasks_scheduled s2 + 1\<rparr>)
      | _ \<Rightarrow> s)"

text \<open>\<open>while (edge->hasTasksInQueue()) scratch.push_back(edge->dequeueTask());\<close>\<close>

function drain :: "edge_node \<Rightarrow> tref list \<Rightarrow> tref list \<times> edge_node" where
  "drain n scratch =
     (if hasTasksInQueue n
      then (case dequeueTask n of
              (Some t, n') \<Rightarrow> drain n' (scratch @ [t])
            | (None, n') \<Rightarrow> (scratch, n'))
      else (scratch, n))"
  by pat_completeness auto
termination
  by (relation "measure (\<lambda>(n, _). length (task_queue n))")
    (auto simp: hasTasksInQueue_def dequeueTask_def split: list.splits)

declare drain.simps [simp del]

definition priority_less :: "(tref \<Rightarrow> 'j task) \<Rightarrow> tref \<Rightarrow> tref \<Rightarrow> bool" where
  "priority_less ts a b \<longleftrightarrow> priority_to_int (priority (reqs (ts a))) < priority_to_int (priority (reqs (ts b)))"

definition remaining_less :: "(tref \<Rightarrow> 'j task) \<Rightarrow> (nat \<Rightarrow> int \<times> int) \<Rightarrow> nat \<Rightarrow> tref \<Rightarrow> tref \<Rightarrow> bool" where
  "remaining_less ts clk j a b \<longleftrightarrow> getRemainingTimeMs (fst (clk j)) (ts a) < getRemainingTimeMs (snd (clk j)) (ts b)"

text \<open>The comparators the class declares; the first argument yields to the second. \<open>getNextTask\<close> compares with
  functions of its own, which agree with them. The clock is read for each of the two tasks.\<close>

definition FifoComparator :: "'j task \<Rightarrow> 'j task \<Rightarrow> bool" where
  "FifoComparator a b \<longleftrightarrow> creation_time a > creation_time b"

definition PriorityComparator :: "'j task \<Rightarrow> 'j task \<Rightarrow> bool" where
  "PriorityComparator a b \<longleftrightarrow> priority_to_int (priority (reqs a)) < priority_to_int (priority (reqs b))"

definition EdfComparator :: "int \<times> int \<Rightarrow> 'j task \<Rightarrow> 'j task \<Rightarrow> bool" where
  "EdfComparator now a b \<longleftrightarrow> getRemainingTimeMs (fst now) a > getRemainingTimeMs (snd now) b"

lemma comparators_agree:
  "PriorityComparator (ts a) (ts b) \<longleftrightarrow> priority_less ts a b"
  "EdfComparator (prod.swap (clk j)) (ts b) (ts a) \<longleftrightarrow> remaining_less ts clk j a b"
  by (simp_all add: PriorityComparator_def priority_less_def EdfComparator_def remaining_less_def)

fun schedulingStrategyName :: "scheduling_strategy \<Rightarrow> string" where
  "schedulingStrategyName FIFO = ''FIFO''"
| "schedulingStrategyName SCHED_PRIORITY_BASED = ''PRIORITY_BASED''"
| "schedulingStrategyName EARLIEST_DEADLINE_FIRST = ''EARLIEST_DEADLINE_FIRST''"
| "schedulingStrategyName ROUND_ROBIN_TIME_SLICE = ''ROUND_ROBIN_TIME_SLICE''"

definition getNextTask :: "(nat \<Rightarrow> int \<times> int) \<Rightarrow> nref option \<Rightarrow> ('j, 'm) scheduler_scheme \<Rightarrow> tref option \<times> ('j, 'm) scheduler_scheme" where
  "getNextTask clk edge s =
     (case edge of
        None \<Rightarrow> (None, s)
      | Some r \<Rightarrow>
          if \<not> hasTasksInQueue (nodes s r) then (None, s)
          else if sched_strategy s = FIFO
          then (let (t, n) = dequeueTask (nodes s r) in (t, upd_node r (\<lambda>_. n) s))
          else
            let (scratch, n) = drain (nodes s r) []
            in if scratch = [] then (None, upd_node r (\<lambda>_. n) s)
               else
                 let it = (case sched_strategy s of
                             SCHED_PRIORITY_BASED \<Rightarrow> max_element (\<lambda>_. priority_less (tasks s)) scratch
                           | EARLIEST_DEADLINE_FIRST \<Rightarrow> min_element (remaining_less (tasks s) clk) scratch
                           | _ \<Rightarrow> 0);
                     selected = scratch ! it;
                     rest = remove_at it scratch
                 in (Some selected, upd_node r (\<lambda>_. fold enqueueTask rest n) s))"

section \<open>The selection, abstractly\<close>

text \<open>The position of the task a policy selects from a queue.\<close>

definition pick :: "scheduling_strategy \<Rightarrow> (nat \<Rightarrow> int \<times> int) \<Rightarrow> (tref \<Rightarrow> 'j task) \<Rightarrow> tref list \<Rightarrow> nat" where
  "pick st clk ts q =
     (case st of
        SCHED_PRIORITY_BASED \<Rightarrow> max_element (\<lambda>_. priority_less ts) q
      | EARLIEST_DEADLINE_FIRST \<Rightarrow> min_element (remaining_less ts clk) q
      | _ \<Rightarrow> 0)"

lemma pick_less: "q \<noteq> [] \<Longrightarrow> pick st clk ts q < length q"
  by (cases st) (auto simp: pick_def min_element_lt max_element_lt)

lemma drain_eq: "drain n scratch = (scratch @ task_queue n, n\<lparr>task_queue := []\<rparr>)"
proof (induction n scratch rule: drain.induct)
  case (1 n scratch)
  then show ?case
    by (subst drain.simps) (auto simp: hasTasksInQueue_def dequeueTask_def split: list.splits)
qed

lemma enqueue_all: "fold enqueueTask ts n = n\<lparr>task_queue := task_queue n @ ts\<rparr>"
  by (induction ts arbitrary: n) (simp_all add: enqueueTask_def)

lemma dequeue_front: "task_queue n \<noteq> [] \<Longrightarrow> dequeueTask n = (Some (hd (task_queue n)), n\<lparr>task_queue := tl (task_queue n)\<rparr>)"
  by (auto simp: dequeueTask_def split: list.splits)

text \<open>The drain, select, erase and restore of the code take the chosen task out of the queue and
  leave the others in their order.\<close>

lemma getNextTask_take:
  assumes "task_queue (nodes s r) = q" "q \<noteq> []" "i = pick (sched_strategy s) clk (tasks s) q"
  shows "getNextTask clk (Some r) s = (Some (q ! i), upd_node r (\<lambda>n. n\<lparr>task_queue := remove_at i q\<rparr>) s)"
  using assms
  by (cases "sched_strategy s")
    (auto simp: getNextTask_def hasTasksInQueue_def drain_eq enqueue_all pick_def dequeue_front
      remove_at_def hd_conv_nth drop_Suc upd_node_def Let_def)

lemma getNextTask_empty: "task_queue (nodes s r) = [] \<Longrightarrow> getNextTask clk (Some r) s = (None, s)"
  by (simp add: getNextTask_def hasTasksInQueue_def)

section \<open>Dispatching\<close>

text \<open>The contract of a dispatcher: it gives nothing on an empty queue and otherwise takes out one
  of the queued elements, keeping the order of the others. The argument \<open>'c\<close> is what a call may
  depend on beside the state: here, the clock.\<close>

locale dispatcher =
  fixes next_of :: "'c \<Rightarrow> 's \<Rightarrow> 't option \<times> 's"
    and queue :: "'s \<Rightarrow> 't list"
  assumes next_empty: "queue s = [] \<Longrightarrow> next_of c s = (None, s)"
    and next_take: "queue s \<noteq> [] \<Longrightarrow> \<exists>i<length (queue s).
          fst (next_of c s) = Some (queue s ! i) \<and> queue (snd (next_of c s)) = remove_at i (queue s)"

text \<open>Calls one after the other, with what they returned.\<close>

fun dispatched :: "('c \<Rightarrow> 's \<Rightarrow> 't option \<times> 's) \<Rightarrow> 'c list \<Rightarrow> 's \<Rightarrow> 't list \<times> 's" where
  "dispatched next_of [] s = ([], s)"
| "dispatched next_of (c # cs) s =
     (let (t, s1) = next_of c s; (ts, s2) = dispatched next_of cs s1
      in (case t of None \<Rightarrow> ts | Some x \<Rightarrow> x # ts, s2))"

context dispatcher begin

lemma none_iff: "fst (next_of c s) = None \<longleftrightarrow> queue s = []"
  using next_empty [of s c] next_take [of s c] by (cases "queue s = []") auto

lemma conserves: "mset (case fst (next_of c s) of None \<Rightarrow> [] | Some t \<Rightarrow> [t]) + mset (queue (snd (next_of c s))) = mset (queue s)"
proof (cases "queue s = []")
  case False
  then show ?thesis using next_take [OF False, of c] by (auto simp: mset_remove_at)
qed (simp add: next_empty)

lemma dispatched_conserves: "mset (fst (dispatched next_of cs s)) + mset (queue (snd (dispatched next_of cs s))) = mset (queue s)"
proof (induction cs arbitrary: s)
  case (Cons c cs)
  show ?case using Cons [of "snd (next_of c s)"] conserves [of c s]
    by (auto simp: case_prod_beta Let_def split: option.splits)
qed simp

lemma length_dispatched: "length (queue (snd (dispatched next_of cs s))) = length (queue s) - length cs"
proof (induction cs arbitrary: s)
  case (Cons c cs)
  have "length (queue (snd (next_of c s))) = length (queue s) - 1"
    using next_empty [of s c] next_take [of s c] by (cases "queue s = []") (auto simp: length_remove_at)
  then show ?case using Cons [of "snd (next_of c s)"] by (simp add: case_prod_beta Let_def)
qed simp

text \<open>Nothing is lost, nothing is run twice, and as many calls as there are tasks run them all.\<close>

lemma all_dispatched: "length (queue s) \<le> length cs \<Longrightarrow> mset (fst (dispatched next_of cs s)) = mset (queue s)"
  using dispatched_conserves [of cs s] length_dispatched [of cs s] by simp

end

interpretation sched: dispatcher "\<lambda>clk. getNextTask clk (Some r)" "\<lambda>s. task_queue (nodes s r)" for r
proof
  show "task_queue (nodes s r) = [] \<Longrightarrow> getNextTask c (Some r) s = (None, s)" for s c
    by (rule getNextTask_empty)
  show "task_queue (nodes s r) \<noteq> [] \<Longrightarrow> \<exists>i<length (task_queue (nodes s r)).
      fst (getNextTask c (Some r) s) = Some (task_queue (nodes s r) ! i) \<and>
      task_queue (nodes (snd (getNextTask c (Some r) s)) r) = remove_at i (task_queue (nodes s r))" for s c
    using pick_less [of "task_queue (nodes s r)" "sched_strategy s" c "tasks s"]
    by (auto simp: getNextTask_take)
qed


section \<open>The policies\<close>

text \<open>Taking out the first element of least key again and again sorts stably.\<close>

lemma insort_key_first: "f x < f y \<Longrightarrow> insort_key f y (x # l) = x # insort_key f y l"
  by auto

lemma sort_key_least_first:
  assumes "xs = ys @ x # zs" "\<forall>y\<in>set ys. f x < f y" "\<forall>z\<in>set zs. f x \<le> f z"
  shows "sort_key f xs = x # sort_key f (ys @ zs)"
proof -
  have "sort_key f (x # zs) = x # sort_key f zs"
    using assms(3) by (simp add: insort_is_Cons)
  with assms(2) show ?thesis unfolding assms(1) by (induction ys) (auto simp: insort_key_first)
qed

lemma sort_key_remove_first:
  assumes "i < length q" "\<forall>j<i. f (q ! i) < f (q ! j)" "\<forall>x\<in>set q. f (q ! i) \<le> f x"
  shows "sort_key f q = q ! i # sort_key f (remove_at i q)"
  unfolding remove_at_def
proof (rule sort_key_least_first)
  show "q = take i q @ q ! i # drop (Suc i) q" using assms(1) by (simp add: id_take_nth_drop [symmetric])
  show "\<forall>y\<in>set (take i q). f (q ! i) < f y" using assms(1,2) by (auto simp: in_set_conv_nth)
  show "\<forall>z\<in>set (drop (Suc i) q). f (q ! i) \<le> f z" using assms(3) by (auto dest: in_set_dropD)
qed

definition priority_rank :: "(tref \<Rightarrow> 'j task) \<Rightarrow> tref \<Rightarrow> int" where
  "priority_rank ts t = - priority_to_int (priority (reqs (ts t)))"

lemma pick_priority:
  assumes "q \<noteq> []" "i = pick SCHED_PRIORITY_BASED clk ts q"
  shows "i < length q \<and> (\<forall>j<i. priority_rank ts (q ! i) < priority_rank ts (q ! j)) \<and>
    (\<forall>x\<in>set q. priority_rank ts (q ! i) \<le> priority_rank ts x)"
  using max_element_spec [of q i "\<lambda>t. priority_to_int (priority (reqs (ts t)))"] assms
  by (simp add: pick_def priority_less_def [abs_def] priority_rank_def)

lemma getNextTask_frame:
  "sched_strategy (snd (getNextTask clk (Some r) s)) = sched_strategy s" "tasks (snd (getNextTask clk (Some r) s)) = tasks s"
  by (cases "task_queue (nodes s r) = []"; simp add: getNextTask_take getNextTask_empty; simp add: upd_node_def)+

text \<open>a queue is emptied without loss: as many calls as there are tasks on the node, at whatever
  times, under whatever policy, run every queued task exactly once.\<close>

theorem queue_emptied_once:
  assumes "length (task_queue (nodes s r)) \<le> length clks"
  shows "mset (fst (dispatched (\<lambda>clk. getNextTask clk (Some r)) clks s)) = mset (task_queue (nodes s r)) \<and>
    task_queue (nodes (snd (dispatched (\<lambda>clk. getNextTask clk (Some r)) clks s)) r) = []"
  using sched.all_dispatched [OF assms] sched.length_dispatched [of r clks s] assms by auto

text \<open>C17: the priority policy runs the queue of a node in the order of a stable sort by falling
  priority: higher priorities first, equal ones in the order they were queued.\<close>

theorem priority_order_is_stable_sort:
  assumes "sched_strategy s = SCHED_PRIORITY_BASED" "length clks = length (task_queue (nodes s r))"
  shows "fst (dispatched (\<lambda>clk. getNextTask clk (Some r)) clks s) =
    sort_key (\<lambda>t. - priority_to_int (priority (reqs (tasks s t)))) (task_queue (nodes s r))"
  using assms
proof (induction clks arbitrary: s)
  case (Cons clk clks)
  let ?q = "task_queue (nodes s r)"
  define i where "i = pick SCHED_PRIORITY_BASED clk (tasks s) ?q"
  have q: "?q \<noteq> []" using Cons.prems(2) by auto
  note i = pick_priority [OF q i_def]
  have take: "getNextTask clk (Some r) s = (Some (?q ! i), upd_node r (\<lambda>n. n\<lparr>task_queue := remove_at i ?q\<rparr>) s)"
    using q Cons.prems(1) by (intro getNextTask_take) (auto simp: i_def)
  moreover have "sort_key (priority_rank (tasks s)) ?q = ?q ! i # sort_key (priority_rank (tasks s)) (remove_at i ?q)"
    using i by (intro sort_key_remove_first) auto
  ultimately show ?case
    using Cons.IH [of "snd (getNextTask clk (Some r) s)"] Cons.prems i
    by (simp add: Let_def case_prod_beta getNextTask_frame length_remove_at priority_rank_def [abs_def])
      (simp add: upd_node_def length_remove_at)
qed simp


text \<open>under first-in first-out, and under the round-robin policy, which takes the front as well,
  tasks run in the order they were queued.\<close>

theorem queue_order_policies:
  assumes "sched_strategy s = FIFO \<or> sched_strategy s = ROUND_ROBIN_TIME_SLICE"
  shows "fst (dispatched (\<lambda>clk. getNextTask clk (Some r)) clks s) = take (length clks) (task_queue (nodes s r))"
  using assms
proof (induction clks arbitrary: s)
  case (Cons clk clks)
  show ?case
  proof (cases "task_queue (nodes s r)")
    case Nil
    then show ?thesis using Cons by (simp add: getNextTask_empty)
  next
    case (Cons t q)
    have "getNextTask clk (Some r) s = (Some t, upd_node r (\<lambda>n. n\<lparr>task_queue := q\<rparr>) s)"
      using Cons Cons.prems getNextTask_take [OF Cons, of 0 clk] by (auto simp: pick_def remove_at_def)
    moreover have "sched_strategy (upd_node r (\<lambda>n. n\<lparr>task_queue := q\<rparr>) s) = sched_strategy s"
      by (simp add: upd_node_def)
    ultimately show ?thesis
      using Cons.IH [of "upd_node r (\<lambda>n. n\<lparr>task_queue := q\<rparr>) s"] Cons.prems Cons by (simp add: case_prod_beta)
  qed
qed simp

text \<open>The instant, in nanoseconds, at which a task's allowance is used up.\<close>

definition due :: "'j task \<Rightarrow> int" where
  "due t = creation_time t + deadline_ms (reqs t) * 1000000"

lemma remaining_separated:
  assumes "creation_time a \<le> na" "creation_time b \<le> nb" "nb \<le> na + \<delta>" "due a + \<delta> + 1000000 \<le> due b"
  shows "getRemainingTimeMs na a < getRemainingTimeMs nb b"
proof -
  let ?x = "na - creation_time a" and ?y = "nb - creation_time b"
  let ?k = "deadline_ms (reqs a) - deadline_ms (reqs b)"
  have "?y + (?k + 1) * 1000000 \<le> ?x" using assms by (simp add: due_def algebra_simps)
  then have "(?y + (?k + 1) * 1000000) div 1000000 \<le> ?x div 1000000" by (rule zdiv_mono1) simp
  then have "?y div 1000000 + (?k + 1) \<le> ?x div 1000000" by (simp only: div_mult_self1 [OF zero_neq_numeral [symmetric]])
  with assms show ?thesis by (simp add: getRemainingTimeMs_def getElapsedTimeMs_def to_millis_nonneg)
qed

lemma elem_loop_cong:
  "distinct (b # xs) \<Longrightarrow> \<forall>j. \<forall>x\<in>set (b # xs). \<forall>y\<in>set (b # xs). x \<noteq> y \<longrightarrow> f j x y = g j x y \<Longrightarrow>
   elem_loop f j b bi xs = elem_loop g j b bi xs"
  by (induction f j b bi xs rule: elem_loop.induct) auto

lemma min_element_cong:
  "distinct q \<Longrightarrow> \<forall>j. \<forall>x\<in>set q. \<forall>y\<in>set q. x \<noteq> y \<longrightarrow> f j x y = g j x y \<Longrightarrow> min_element f q = min_element g q"
  by (cases q) (auto simp: min_element_def intro!: elem_loop_cong)

text \<open>with the clock standing still, earliest deadline first selects the first of the tasks with
  the least remaining time.\<close>

theorem edf_least_remaining:
  assumes "sched_strategy s = EARLIEST_DEADLINE_FIRST" "task_queue (nodes s r) \<noteq> []"
  shows "\<exists>i<length (task_queue (nodes s r)).
    getNextTask (\<lambda>_. (now, now)) (Some r) s =
      (Some (task_queue (nodes s r) ! i), upd_node r (\<lambda>n. n\<lparr>task_queue := remove_at i (task_queue (nodes s r))\<rparr>) s) \<and>
    (\<forall>t\<in>set (task_queue (nodes s r)).
       getRemainingTimeMs now (tasks s (task_queue (nodes s r) ! i)) \<le> getRemainingTimeMs now (tasks s t)) \<and>
    (\<forall>j<i. getRemainingTimeMs now (tasks s (task_queue (nodes s r) ! i)) <
       getRemainingTimeMs now (tasks s (task_queue (nodes s r) ! j)))"
  using getNextTask_take [OF refl assms(2) refl, of "\<lambda>_. (now, now)"] assms(1)
    min_element_spec [OF assms(2) refl, of "\<lambda>t. getRemainingTimeMs now (tasks s t)"]
  by (auto simp: pick_def remaining_less_def [abs_def])

text \<open>C25: the search of earliest deadline first reads a moving clock, twice in each comparison. It
  still selects the task that is due first, provided the tasks' due times are further apart than
  the time the search takes plus the millisecond lost in rounding.\<close>

theorem edf_exact_on_a_moving_clock:
  assumes "sched_strategy s = EARLIEST_DEADLINE_FIRST" "task_queue (nodes s r) \<noteq> []"
    and "distinct (task_queue (nodes s r))"
    and "\<forall>j. start \<le> fst (clk j) \<and> fst (clk j) \<le> start + took \<and> start \<le> snd (clk j) \<and> snd (clk j) \<le> start + took"
    and "\<forall>t\<in>set (task_queue (nodes s r)). creation_time (tasks s t) \<le> start"
    and "\<forall>t\<in>set (task_queue (nodes s r)). \<forall>u\<in>set (task_queue (nodes s r)).
           t \<noteq> u \<longrightarrow> took + 1000000 \<le> \<bar>due (tasks s t) - due (tasks s u)\<bar>"
  shows "\<exists>i<length (task_queue (nodes s r)).
    getNextTask clk (Some r) s =
      (Some (task_queue (nodes s r) ! i), upd_node r (\<lambda>n. n\<lparr>task_queue := remove_at i (task_queue (nodes s r))\<rparr>) s) \<and>
    (\<forall>t\<in>set (task_queue (nodes s r)). due (tasks s (task_queue (nodes s r) ! i)) \<le> due (tasks s t))"
proof -
  let ?q = "task_queue (nodes s r)"
  have less: "remaining_less (tasks s) clk j t u \<longleftrightarrow> due (tasks s t) < due (tasks s u)"
    if "t \<in> set ?q" "u \<in> set ?q" "t \<noteq> u" for j t u
  proof -
    have c: "creation_time (tasks s t) \<le> fst (clk j)" "creation_time (tasks s u) \<le> snd (clk j)"
      "snd (clk j) \<le> fst (clk j) + took" "fst (clk j) \<le> snd (clk j) + took"
      using assms(4,5) that(1,2) by (smt (verit))+
    have "took + 1000000 \<le> \<bar>due (tasks s t) - due (tasks s u)\<bar>" using assms(6) that by blast
    moreover have "0 \<le> took" using c by simp
    ultimately consider "due (tasks s t) + took + 1000000 \<le> due (tasks s u)" "due (tasks s t) < due (tasks s u)"
      | "due (tasks s u) + took + 1000000 \<le> due (tasks s t)" "due (tasks s u) < due (tasks s t)"
      by linarith
    then show ?thesis
      using remaining_separated [OF c(1,2,3)] remaining_separated [OF c(2,1,4)]
      by cases (auto simp: remaining_less_def)
  qed
  have "min_element (remaining_less (tasks s) clk) ?q = min_element (\<lambda>_ t u. due (tasks s t) < due (tasks s u)) ?q"
    using assms(3) less by (intro min_element_cong) auto
  then show ?thesis
    using getNextTask_take [OF refl assms(2) refl, of clk] assms(1)
      min_element_spec [OF assms(2) refl, of "\<lambda>t. due (tasks s t)"]
    by (auto simp: pick_def)
qed


section \<open>A concrete state\<close>

text \<open>Three tasks of different priorities and deadlines on the first node.\<close>

definition demo_req_of :: "tref \<Rightarrow> requirements" where
  "demo_req_of t = (if t = 0 then mk_req 5 20 1 500 MEDIUM else if t = 1 then mk_req 60 1024 20 50 CRITICAL else mk_req 10 50 1 100 HIGH)"

definition demo_sched :: "scheduling_strategy \<Rightarrow> unit scheduler" where
  "demo_sched st =
     upd_node 0 (\<lambda>n. n\<lparr>task_queue := [0, 1, 2]\<rparr>)
       ((allocator.extend (demo ROUND_ROBIN) \<lparr>sched_strategy = st, total_tasks_scheduled = 3\<rparr>)
          \<lparr>tasks := \<lambda>t. new_task 0 ''T'' ''device-1'' ''camera'' (demo_req_of t) ()\<rparr>)"

lemma demo_sched_simps [simp]:
  "task_queue (nodes (demo_sched st) 0) = [0, 1, 2]" "sched_strategy (demo_sched st) = st"
  "reqs (tasks (demo_sched st) t) = demo_req_of t" "creation_time (tasks (demo_sched st) t) = 0"
  by (simp_all add: demo_sched_def upd_node_def new_task_def allocator.defs)

theorem queue_emptied_once_witness:
  "mset (fst (dispatched (\<lambda>clk. getNextTask clk (Some 0)) (replicate 3 (\<lambda>_. (0, 0))) (demo_sched FIFO))) = {#0, 1, 2#}"
  using queue_emptied_once [of "demo_sched FIFO" 0 "replicate 3 (\<lambda>_. (0, 0))"] by simp

theorem priority_order_is_stable_sort_witness:
  "fst (dispatched (\<lambda>clk. getNextTask clk (Some 0)) (replicate 3 (\<lambda>_. (0, 0))) (demo_sched SCHED_PRIORITY_BASED)) = [1, 2, 0]"
  using priority_order_is_stable_sort [of "demo_sched SCHED_PRIORITY_BASED" "replicate 3 (\<lambda>_. (0, 0))" 0]
  by (simp add: demo_req_of_def mk_req_def)

theorem queue_order_policies_witness:
  "fst (dispatched (\<lambda>clk. getNextTask clk (Some 0)) (replicate 2 (\<lambda>_. (0, 0))) (demo_sched FIFO)) = [0, 1]"
  using queue_order_policies [of "demo_sched FIFO" 0 "replicate 2 (\<lambda>_. (0, 0))"] by simp

lemma demo_deadlines: "deadline_ms (demo_req_of 0) = 500" "deadline_ms (demo_req_of (Suc 0)) = 50" "deadline_ms (demo_req_of 2) = 100"
  by (simp_all add: demo_req_of_def mk_req_def)

lemma index_of_three: "i < length [0 :: nat, 1, 2] \<Longrightarrow> i = 0 \<or> i = 1 \<or> i = 2"
  by auto

theorem edf_least_remaining_witness:
  "\<exists>s'. getNextTask (\<lambda>_. (7, 7)) (Some 0) (demo_sched EARLIEST_DEADLINE_FIRST) = (Some 1, s')"
proof -
  obtain i where i: "i < length [0 :: nat, 1, 2]"
    "fst (getNextTask (\<lambda>_. (7, 7)) (Some 0) (demo_sched EARLIEST_DEADLINE_FIRST)) = Some ([0, 1, 2] ! i)"
    "deadline_ms (demo_req_of ([0, 1, 2] ! i)) \<le> 50"
    using edf_least_remaining [of "demo_sched EARLIEST_DEADLINE_FIRST" 0 7]
    by (auto simp: getRemainingTimeMs_def getElapsedTimeMs_def demo_deadlines simp del: list.size)
  then have "i = 1" using index_of_three [OF i(1)] by (auto simp: demo_deadlines)
  with i(2) show ?thesis by (simp add: prod_eq_iff)
qed

theorem edf_exact_on_a_moving_clock_witness:
  "\<exists>s'. getNextTask (\<lambda>j. (1000, 3000)) (Some 0) (demo_sched EARLIEST_DEADLINE_FIRST) = (Some 1, s')"
proof -
  obtain i where i: "i < length [0 :: nat, 1, 2]"
    "fst (getNextTask (\<lambda>j. (1000, 3000)) (Some 0) (demo_sched EARLIEST_DEADLINE_FIRST)) = Some ([0, 1, 2] ! i)"
    "deadline_ms (demo_req_of ([0, 1, 2] ! i)) \<le> 50"
    using edf_exact_on_a_moving_clock [of "demo_sched EARLIEST_DEADLINE_FIRST" 0 0 "\<lambda>j. (1000, 3000)" 3000]
    by (auto simp: due_def demo_deadlines simp del: list.size)
  then have "i = 1" using index_of_three [OF i(1)] by (auto simp: demo_deadlines)
  with i(2) show ?thesis by (simp add: prod_eq_iff)
qed

end
