(* ===== verification/Task_Manager.thy ===== *)
theory Task_Manager
  imports Task_Scheduler
begin

text \<open>
  \<^verbatim>\<open>task_manager.h\<close> and \<^verbatim>\<open>task_manager.cpp\<close>: task creation from sensor data, task identifiers and
  the manager's queue. The table of task profiles, a singleton of the program, is part of the
  state. The registered creation callback is the argument \<open>cb\<close>, \<open>None\<close> before
  \<open>registerTaskCreationCallback\<close>; the clock reading of the task's constructor is \<open>now\<close>.
\<close>

section \<open>State and operations\<close>

record 'j task_manager = "'j scheduler" +
  profile_map :: profiles
  manager_queue :: "tref list"
  total_tasks_created :: u64
  manager_tasks_processed :: u64
  task_counter :: u64

text \<open>The profiles belong to a singleton and outlive the managers.\<close>

definition new_manager :: "('j, 'm) task_manager_scheme \<Rightarrow> ('j, 'm) task_manager_scheme" where
  "new_manager s = s\<lparr>manager_queue := [], total_tasks_created := 0, manager_tasks_processed := 0, task_counter := 0\<rparr>"

type_synonym ('j, 'm) creation_callback = "tref \<Rightarrow> ('j, 'm) task_manager_scheme \<Rightarrow> fault + ('j, 'm) task_manager_scheme"

definition generateTaskId :: "('j, 'm) task_manager_scheme \<Rightarrow> string \<times> ('j, 'm) task_manager_scheme" where
  "generateTaskId s =
     (let s1 = s\<lparr>task_counter := task_counter s + 1\<rparr>
      in (''T'' @ pad_dec 6 (unat (task_counter s1)), s1))"

definition createTaskFromSensorData :: "int \<Rightarrow> ('j, 'm) creation_callback option \<Rightarrow> string \<Rightarrow> string \<Rightarrow> 'j \<Rightarrow>
    ('j, 'm) task_manager_scheme \<Rightarrow> fault + tref \<times> ('j, 'm) task_manager_scheme" where
  "createTaskFromSensorData now cb dev sensor data s =
     (let req = getRequirements (profile_map s) sensor;
          (tid, s1) = generateTaskId s;
          (t, s2) = make_task (new_task now tid dev sensor req data) s1;
          s3 = s2\<lparr>total_tasks_created := total_tasks_created s2 + 1\<rparr>
      in case cb of
           None \<Rightarrow> Inr (t, s3)
         | Some call \<Rightarrow> bind_sum (call t s3) (\<lambda>s4. Inr (t, s4)))"

definition manager_enqueueTask :: "tref \<Rightarrow> ('j, 'm) task_manager_scheme \<Rightarrow> ('j, 'm) task_manager_scheme" where
  "manager_enqueueTask t s = s\<lparr>manager_queue := manager_queue s @ [t]\<rparr>"

definition manager_dequeueTask :: "('j, 'm) task_manager_scheme \<Rightarrow> tref option \<times> ('j, 'm) task_manager_scheme" where
  "manager_dequeueTask s =
     (case manager_queue s of
        [] \<Rightarrow> (None, s)
      | t # q \<Rightarrow> (Some t, s\<lparr>manager_queue := q, manager_tasks_processed := manager_tasks_processed s + 1\<rparr>))"

definition manager_hasTasksInQueue :: "('j, 'm) task_manager_scheme \<Rightarrow> bool" where
  "manager_hasTasksInQueue s \<longleftrightarrow> manager_queue s \<noteq> []"

definition getQueueSize :: "('j, 'm) task_manager_scheme \<Rightarrow> u64" where
  "getQueueSize s = of_nat (length (manager_queue s))"

section \<open>The queue\<close>

lemma manager_simps [simp]:
  "manager_queue (upd_node r f s) = manager_queue s" "manager_queue (upd_task t g s) = manager_queue s"
  "manager_queue (db c s) = manager_queue s" "manager_queue (granted t q s) = manager_queue s"
  "manager_queue (refused s) = manager_queue s" "profile_map (upd_node r f s) = profile_map s"
  "profile_map (upd_task t g s) = profile_map s" "profile_map (db c s) = profile_map s"
  "profile_map (granted t q s) = profile_map s" "profile_map (refused s) = profile_map s"
  by (simp_all add: upd_node_def upd_task_def db_def granted_def refused_def Let_def)

interpretation manager_q: fifo manager_enqueueTask manager_dequeueTask manager_queue
  by unfold_locales (auto simp: manager_enqueueTask_def manager_dequeueTask_def)

section \<open>Identifiers\<close>

definition task_id_of :: "nat \<Rightarrow> string" where
  "task_id_of n = ''T'' @ pad_dec 6 n"

lemma task_id_of_inject [simp]: "task_id_of m = task_id_of n \<longleftrightarrow> m = n"
  by (simp add: task_id_of_def pad_dec_inject)

lemma create_no_callback:
  "createTaskFromSensorData now None dev sensor data s =
   Inr (next_task s, s\<lparr>task_counter := task_counter s + 1,
     tasks := (tasks s)(next_task s := new_task now (task_id_of (unat (task_counter s + 1))) dev sensor (getRequirements (profile_map s) sensor) data),
     next_task := Suc (next_task s), total_tasks_created := total_tasks_created s + 1\<rparr>)"
  by (simp add: createTaskFromSensorData_def generateTaskId_def make_task_def task_id_of_def Let_def)

text \<open>Creating a task for each of a list of readings \<open>(now, device, sensor, data)\<close>.\<close>

fun create_all :: "(int \<times> string \<times> string \<times> 'j) list \<Rightarrow> ('j, 'm) task_manager_scheme \<Rightarrow> fault + tref list \<times> ('j, 'm) task_manager_scheme" where
  "create_all [] s = Inr ([], s)"
| "create_all ((now, dev, sensor, data) # rs) s =
     bind_sum (createTaskFromSensorData now None dev sensor data s) (\<lambda>(t, s1).
       bind_sum (create_all rs s1) (\<lambda>(ts, s2). Inr (t # ts, s2)))"

lemma create_all_spec:
  assumes "unat (task_counter s) + length rs < 2 ^ 64"
  shows "\<exists>s'. create_all rs s = Inr ([next_task s..<next_task s + length rs], s') \<and>
    (\<forall>t<next_task s. tasks s' t = tasks s t) \<and> profile_map s' = profile_map s \<and>
    unat (task_counter s') = unat (task_counter s) + length rs \<and>
    (\<forall>i<length rs. task_id (tasks s' (next_task s + i)) = task_id_of (unat (task_counter s) + Suc i) \<and>
       status (tasks s' (next_task s + i)) = CREATED \<and>
       reqs (tasks s' (next_task s + i)) = getRequirements (profile_map s) (fst (snd (snd (rs ! i)))))"
  using assms
proof (induction rs arbitrary: s)
  case (Cons r rs)
  obtain now dev sensor data where r: "r = (now, dev, sensor, data)" by (cases r)
  obtain s1 where s1: "createTaskFromSensorData now None dev sensor data s = Inr (next_task s, s1)"
    "next_task s1 = Suc (next_task s)" "task_counter s1 = task_counter s + 1" "profile_map s1 = profile_map s"
    "tasks s1 = (tasks s)(next_task s := new_task now (task_id_of (unat (task_counter s + 1))) dev sensor (getRequirements (profile_map s) sensor) data)"
    by (simp add: create_no_callback)
  have c: "unat (task_counter s1) = Suc (unat (task_counter s))"
    using Cons.prems by (simp add: s1(3) unat_word_ariths)
  then obtain s2 where s2: "create_all rs s1 = Inr ([next_task s1..<next_task s1 + length rs], s2)"
    "\<forall>t<next_task s1. tasks s2 t = tasks s1 t" "profile_map s2 = profile_map s1"
    "unat (task_counter s2) = unat (task_counter s1) + length rs"
    "\<forall>i<length rs. task_id (tasks s2 (next_task s1 + i)) = task_id_of (unat (task_counter s1) + Suc i) \<and>
       status (tasks s2 (next_task s1 + i)) = CREATED \<and>
       reqs (tasks s2 (next_task s1 + i)) = getRequirements (profile_map s1) (fst (snd (snd (rs ! i))))"
    using Cons.IH [of s1] Cons.prems by auto
  have first: "tasks s2 (next_task s) = new_task now (task_id_of (Suc (unat (task_counter s)))) dev sensor (getRequirements (profile_map s) sensor) data"
    using s2(2) s1 c by simp
  have "next_task s # [next_task s1..<next_task s1 + length rs] = [next_task s..<next_task s + length (r # rs)]"
    by (simp add: s1(2) upt_conv_Cons del: upt_Suc)
  moreover have "task_id (tasks s2 (next_task s + i)) = task_id_of (unat (task_counter s) + Suc i) \<and>
       status (tasks s2 (next_task s + i)) = CREATED \<and>
       reqs (tasks s2 (next_task s + i)) = getRequirements (profile_map s) (fst (snd (snd ((r # rs) ! i))))"
    if "i < length (r # rs)" for i
    using that first s2(5) by (cases i) (auto simp: new_task_def r s1(2,4) c)
  ultimately show ?case
    using s1 s2 c by (auto simp: r simp del: upt_Suc)
qed simp

text \<open>task identifiers are unique: the tasks made from any series of readings, as long as the 64-bit
  counter does not wrap, are new objects in the state \<open>CREATED\<close> with the requirements of their
  sensor's profile, and their identifiers \<open>T000001\<close>, \<open>T000002\<close>, \<open>...\<close> are pairwise different,
  also past the six digits they are padded to.\<close>

theorem created_tasks_distinct:
  assumes "unat (task_counter s) + length rs < 2 ^ 64"
  shows "\<exists>ts s'. create_all rs s = Inr (ts, s') \<and> length ts = length rs \<and> distinct ts \<and>
    distinct (map (\<lambda>t. task_id (tasks s' t)) ts) \<and> (\<forall>t<next_task s. tasks s' t = tasks s t) \<and>
    (\<forall>i<length rs. next_task s \<le> ts ! i \<and> status (tasks s' (ts ! i)) = CREATED \<and>
       task_id (tasks s' (ts ! i)) = ''T'' @ pad_dec 6 (unat (task_counter s) + Suc i) \<and>
       reqs (tasks s' (ts ! i)) = getRequirements (profile_map s) (fst (snd (snd (rs ! i)))))"
proof -
  obtain s' where s': "create_all rs s = Inr ([next_task s..<next_task s + length rs], s')"
    "\<forall>t<next_task s. tasks s' t = tasks s t"
    "\<forall>i<length rs. task_id (tasks s' (next_task s + i)) = task_id_of (unat (task_counter s) + Suc i) \<and>
       status (tasks s' (next_task s + i)) = CREATED \<and>
       reqs (tasks s' (next_task s + i)) = getRequirements (profile_map s) (fst (snd (snd (rs ! i))))"
    using create_all_spec [OF assms] by auto
  have "inj_on (\<lambda>t. task_id (tasks s' t)) {next_task s..<next_task s + length rs}"
  proof (rule inj_onI)
    have id: "task_id (tasks s' t) = task_id_of (unat (task_counter s) + Suc (t - next_task s))"
      if "t \<in> {next_task s..<next_task s + length rs}" for t
      using that s'(3) [rule_format, of "t - next_task s"] by auto
    fix x y
    assume xy: "x \<in> {next_task s..<next_task s + length rs}" "y \<in> {next_task s..<next_task s + length rs}"
      "task_id (tasks s' x) = task_id (tasks s' y)"
    then have "x - next_task s = y - next_task s" by (simp only: id task_id_of_inject)
    with xy show "x = y" by auto
  qed
  then have "distinct (map (\<lambda>t. task_id (tasks s' t)) [next_task s..<next_task s + length rs])"
    by (simp add: distinct_map)
  with s' show ?thesis
    by (intro exI [of _ "[next_task s..<next_task s + length rs]"] exI [of _ s']) (simp add: task_id_of_def)
qed

text \<open>the manager's queue hands out the tasks in the order they were put in.\<close>

theorem manager_queue_order:
  assumes "n < length ts"
  shows "fst (manager_dequeueTask (((\<lambda>s. snd (manager_dequeueTask s)) ^^ n) (fold manager_enqueueTask ts (s\<lparr>manager_queue := []\<rparr>)))) = Some (ts ! n)"
  using manager_q.deq_order [of n "fold manager_enqueueTask ts (s\<lparr>manager_queue := []\<rparr>)"] assms
  by (simp add: manager_q.items_enqs)

section \<open>A concrete state\<close>

definition demo_manager :: "unit task_manager" where
  "demo_manager = scheduler.extend (scheduler.truncate (demo_sched FIFO))
     \<lparr>profile_map = initializeDefaultProfiles [], manager_queue = [], total_tasks_created = 0,
      manager_tasks_processed = 0, task_counter = 999999\<rparr>"

theorem created_tasks_distinct_witness:
  "\<exists>t u s'. create_all [(5, ''DEV0001'', ''camera'', ()), (6, ''DEV0002'', ''humidity'', ())] demo_manager = Inr ([t, u], s') \<and>
     task_id (tasks s' t) = ''T1000000'' \<and> task_id (tasks s' u) = ''T1000001''"
proof -
  have c: "unat (task_counter demo_manager) = 999999" by (simp add: demo_manager_def scheduler.defs)
  have d: "pad_dec 6 1000000 = ''1000000''" "pad_dec 6 1000001 = ''1000001''"
    by (simp_all add: pad_dec_def dec.simps eval)
  let ?rs = "[(5 :: int, ''DEV0001'', ''camera'', ()), (6, ''DEV0002'', ''humidity'', ())]"
  have len: "999999 + length ?rs < 2 ^ 64" by simp
  from created_tasks_distinct [of demo_manager ?rs, unfolded c, OF len] obtain ts s' where
    *: "create_all ?rs demo_manager = Inr (ts, s')" "length ts = length ?rs"
      "\<forall>i<length ?rs. task_id (tasks s' (ts ! i)) = ''T'' @ pad_dec 6 (999999 + Suc i)"
    by blast
  from *(2) obtain t u where ts: "ts = [t, u]" by (auto simp: length_Suc_conv)
  have "task_id (tasks s' t) = ''T1000000''" "task_id (tasks s' u) = ''T1000001''"
    using *(3) [rule_format, of 0] *(3) [rule_format, of 1] by (simp_all add: ts d)
  with *(1) ts show ?thesis by blast
qed

theorem manager_queue_order_witness:
  "fst (manager_dequeueTask (snd (manager_dequeueTask (fold manager_enqueueTask [4, 7] (demo_manager\<lparr>manager_queue := []\<rparr>))))) = Some 7"
  using manager_queue_order [of 1 "[4, 7]" demo_manager] by simp

end
