(* ===== verification/Task_Executor.thy ===== *)
theory Task_Executor
  imports Task_Manager
begin

text \<open>
  \<^verbatim>\<open>task_executor.h\<close> and \<^verbatim>\<open>task_executor.cpp\<close>: the workers that run the tasks queued on the edge
  nodes. \<open>simulateTaskExecution\<close> is two steps with a sleep between them: \<open>beginExecution\<close> marks the
  task as running, \<open>finishExecution\<close> settles its outcome, releases its reservation and counts it.
  What other threads do during the sleep is the argument \<open>sleep\<close>; the random jitter and the two
  clock readings are arguments as well. A worker thread is an entry of \<open>workers\<close> as long as it
  can be joined: assigning to such an entry is the fault \<open>Terminate\<close>.
\<close>

section \<open>State and operations\<close>

record 'j executor = "'j task_manager" +
  exec_nodes :: edge_map
  is_running :: bool
  workers :: edge_map
  total_tasks_executed :: u64
  exec_tasks_failed :: u64
  total_execution_time_ms :: double
  active_tasks :: "(string \<times> tref) list"

definition new_executor :: "('j, 'm) executor_scheme \<Rightarrow> ('j, 'm) executor_scheme" where
  "new_executor s =
     s\<lparr>exec_nodes := [], is_running := False, workers := [], total_tasks_executed := 0, exec_tasks_failed := 0,
       total_execution_time_ms := 0, active_tasks := []\<rparr>"

lemmas component_defs = new_monitor_def new_allocator_def new_scheduler_def new_manager_def new_executor_def

definition exec_registerEdgeNode :: "nref option \<Rightarrow> ('j, 'm) executor_scheme \<Rightarrow> ('j, 'm) executor_scheme" where
  "exec_registerEdgeNode node s =
     (case node of
        None \<Rightarrow> s
      | Some r \<Rightarrow> s\<lparr>exec_nodes := map_put (edge_id (nodes s r)) (Some r) (exec_nodes s)\<rparr>)"

definition exec_unregisterEdgeNode :: "string \<Rightarrow> ('j, 'm) executor_scheme \<Rightarrow> ('j, 'm) executor_scheme" where
  "exec_unregisterEdgeNode eid s = s\<lparr>exec_nodes := map_erase eid (exec_nodes s)\<rparr>"

fun spawn_loop :: "edge_map \<Rightarrow> ('j, 'm) executor_scheme \<Rightarrow> fault + ('j, 'm) executor_scheme" where
  "spawn_loop [] s = Inr s"
| "spawn_loop ((eid, node) # es) s =
     (if map_of (workers s) eid \<noteq> None then Inl Terminate
      else spawn_loop es (s\<lparr>workers := map_put eid node (workers s)\<rparr>))"

definition exec_start :: "('j, 'm) executor_scheme \<Rightarrow> fault + ('j, 'm) executor_scheme" where
  "exec_start s = (if is_running s then Inr s else spawn_loop (exec_nodes s) (s\<lparr>is_running := True\<rparr>))"

text \<open>Joining every worker and clearing the map of threads.\<close>

definition exec_stop :: "('j, 'm) executor_scheme \<Rightarrow> ('j, 'm) executor_scheme" where
  "exec_stop s = (if \<not> is_running s then s else s\<lparr>is_running := False, workers := []\<rparr>)"

definition estimateExecutionTime :: "double \<Rightarrow> requirements \<Rightarrow> int" where
  "estimateExecutionTime jitter req =
     (let estimated = (dbl 5 + cpu_percent req * dbl (8 / 10)) * jitter in trunc_int estimated)"

text \<open>\<open>active_tasks_[id] = task\<close> and \<open>active_tasks_.erase(id)\<close>.\<close>

definition active_put :: "string \<Rightarrow> tref \<Rightarrow> ('j, 'm) executor_scheme \<Rightarrow> ('j, 'm) executor_scheme" where
  "active_put tid t s = s\<lparr>active_tasks := map_put tid t (active_tasks s)\<rparr>"

definition active_erase :: "string \<Rightarrow> ('j, 'm) executor_scheme \<Rightarrow> ('j, 'm) executor_scheme" where
  "active_erase tid s = s\<lparr>active_tasks := map_erase tid (active_tasks s)\<rparr>"

definition beginExecution :: "tref \<Rightarrow> ('j, 'm) executor_scheme \<Rightarrow> ('j, 'm) executor_scheme" where
  "beginExecution t s =
     (let s1 = upd_task t (setStatus RUNNING) s;
          s2 = db (Db_updateTaskStatus (task_id (tasks s1 t)) RUNNING) s1
      in active_put (task_id (tasks s2 t)) t s2)"

definition finishExecution :: "int \<Rightarrow> int \<Rightarrow> int \<Rightarrow> nref \<Rightarrow> tref \<Rightarrow> ('j, 'm) executor_scheme \<Rightarrow> ('j, 'm) executor_scheme" where
  "finishExecution now now' estimated_ms r t s =
     (let met_deadline = (\<not> isDeadlineExceeded now (tasks s t));
          s1 = upd_task t (setCompletionTime now') s;
          st = (if met_deadline then COMPLETED else FAILED);
          s2 = upd_task t (setStatus st) s1;
          s3 = db (Db_updateTaskStatus (task_id (tasks s2 t)) st) s2;
          s4 = active_erase (task_id (tasks s3 t)) s3;
          s5 = upd_node r (release (reqs (tasks s4 t))) s4;
          s6 = (if met_deadline then s5\<lparr>total_tasks_executed := total_tasks_executed s5 + 1\<rparr>
                else s5\<lparr>exec_tasks_failed := exec_tasks_failed s5 + 1\<rparr>);
          s7 = s6\<lparr>total_execution_time_ms := total_execution_time_ms s6 + dbl_of_int estimated_ms\<rparr>
      in db (Db_saveTaskExecution (task_id (tasks s7 t)) estimated_ms met_deadline) s7)"

definition simulateTaskExecution :: "double \<Rightarrow> (('j, 'm) executor_scheme \<Rightarrow> ('j, 'm) executor_scheme) \<Rightarrow> int \<Rightarrow> int \<Rightarrow>
    nref \<Rightarrow> tref \<Rightarrow> ('j, 'm) executor_scheme \<Rightarrow> ('j, 'm) executor_scheme" where
  "simulateTaskExecution jitter sleep now now' r t s =
     (let s1 = beginExecution t s;
          estimated_ms = estimateExecutionTime jitter (reqs (tasks s1 t))
      in finishExecution now now' estimated_ms r t (sleep s1))"

text \<open>One turn of a worker's loop: run the next task, or sleep.\<close>

definition executeTasksForEdge_turn :: "(nat \<Rightarrow> int \<times> int) \<Rightarrow> double \<Rightarrow> (('j, 'm) executor_scheme \<Rightarrow> ('j, 'm) executor_scheme) \<Rightarrow>
    int \<Rightarrow> int \<Rightarrow> nref \<Rightarrow> ('j, 'm) executor_scheme \<Rightarrow> ('j, 'm) executor_scheme" where
  "executeTasksForEdge_turn clk jitter sleep now now' r s =
     (if \<not> is_running s then s
      else case getNextTask clk (Some r) s of
             (Some t, s1) \<Rightarrow> simulateTaskExecution jitter sleep now now' r t s1
           | (None, s1) \<Rightarrow> sleep s1)"

definition getAverageExecutionTimeMs :: "('j, 'm) executor_scheme \<Rightarrow> double" where
  "getAverageExecutionTimeMs s =
     (let completed = total_tasks_executed s + exec_tasks_failed s
      in if completed = 0 then 0 else total_execution_time_ms s / dbl_of_u64 completed)"

fun latency_loop :: "('j, 'm) executor_scheme \<Rightarrow> edge_map \<Rightarrow> double \<Rightarrow> fault + double" where
  "latency_loop s [] total_latency = Inr total_latency"
| "latency_loop s ((eid, node) # es) total_latency =
     (case node of
        None \<Rightarrow> Inl NullDeref
      | Some r \<Rightarrow> latency_loop s es (total_latency + dbl_of_int (getLatencyMs (nodes s r))))"

definition getAverageLatency :: "('j, 'm) executor_scheme \<Rightarrow> fault + double" where
  "getAverageLatency s =
     (if exec_nodes s = [] then Inr 0
      else bind_sum (latency_loop s (exec_nodes s) 0) (\<lambda>total_latency. Inr (total_latency / dbl_of_int (int (length (exec_nodes s))))))"

section \<open>The running tasks\<close>

interpretation running: erasable_registry active_put "\<lambda>s. map_of (active_tasks s)" "\<lambda>s. map_ok (active_tasks s)" active_erase
  by unfold_locales (simp_all add: active_put_def active_erase_def map_ok_put map_of_erase map_ok_erase)

lemma active_simps [simp]:
  "tasks (active_put i t s) = tasks s" "nodes (active_put i t s) = nodes s" "db_calls (active_put i t s) = db_calls s"
  "tasks (active_erase i s) = tasks s" "nodes (active_erase i s) = nodes s" "db_calls (active_erase i s) = db_calls s"
  "total_tasks_executed (active_erase i s) = total_tasks_executed s" "exec_tasks_failed (active_erase i s) = exec_tasks_failed s"
  "total_execution_time_ms (active_erase i s) = total_execution_time_ms s"
  "total_tasks_executed (active_put i t s) = total_tasks_executed s" "exec_tasks_failed (active_put i t s) = exec_tasks_failed s"
  by (simp_all add: active_put_def active_erase_def)

lemma executor_simps [simp]:
  "active_tasks (upd_node r f s) = active_tasks s" "active_tasks (upd_task t g s) = active_tasks s" "active_tasks (db c s) = active_tasks s"
  "total_tasks_executed (upd_node r f s) = total_tasks_executed s" "total_tasks_executed (upd_task t g s) = total_tasks_executed s"
  "total_tasks_executed (db c s) = total_tasks_executed s"
  "exec_tasks_failed (upd_node r f s) = exec_tasks_failed s" "exec_tasks_failed (upd_task t g s) = exec_tasks_failed s"
  "exec_tasks_failed (db c s) = exec_tasks_failed s"
  "total_execution_time_ms (upd_node r f s) = total_execution_time_ms s"
  "total_execution_time_ms (upd_task t g s) = total_execution_time_ms s" "total_execution_time_ms (db c s) = total_execution_time_ms s"
  "exec_nodes (upd_node r f s) = exec_nodes s" "exec_nodes (upd_task t g s) = exec_nodes s" "exec_nodes (db c s) = exec_nodes s"
  "workers (upd_node r f s) = workers s" "workers (upd_task t g s) = workers s" "workers (db c s) = workers s"
  "is_running (upd_node r f s) = is_running s" "is_running (upd_task t g s) = is_running s" "is_running (db c s) = is_running s"
  by (simp_all add: upd_node_def upd_task_def db_def)

lemma begin_simps [simp]:
  "tasks (beginExecution t s) = (tasks s)(t := setStatus RUNNING (tasks s t))" "nodes (beginExecution t s) = nodes s"
  "total_tasks_executed (beginExecution t s) = total_tasks_executed s"
  "exec_tasks_failed (beginExecution t s) = exec_tasks_failed s"
  "db_calls (beginExecution t s) = db_calls s @ [Db_updateTaskStatus (task_id (tasks s t)) RUNNING]"
  "active_tasks (beginExecution t s) = map_put (task_id (tasks s t)) t (active_tasks s)"
  by (simp_all add: beginExecution_def Let_def active_put_def)

definition outcome :: "int \<Rightarrow> 'j task \<Rightarrow> task_status" where
  "outcome now t = (if isDeadlineExceeded now t then FAILED else COMPLETED)"

lemma finish_simps [simp]:
  "tasks (finishExecution now now' e r t s) = (tasks s)(t := setStatus (outcome now (tasks s t)) (setCompletionTime now' (tasks s t)))"
  "nodes (finishExecution now now' e r t s) = (nodes s)(r := release (reqs (tasks s t)) (nodes s r))"
  "total_tasks_executed (finishExecution now now' e r t s) =
     total_tasks_executed s + (if isDeadlineExceeded now (tasks s t) then 0 else 1)"
  "exec_tasks_failed (finishExecution now now' e r t s) =
     exec_tasks_failed s + (if isDeadlineExceeded now (tasks s t) then 1 else 0)"
  "total_execution_time_ms (finishExecution now now' e r t s) = total_execution_time_ms s + dbl_of_int e"
  "active_tasks (finishExecution now now' e r t s) = map_erase (task_id (tasks s t)) (active_tasks s)"
  "db_calls (finishExecution now now' e r t s) = db_calls s @
     [Db_updateTaskStatus (task_id (tasks s t)) (outcome now (tasks s t)),
      Db_saveTaskExecution (task_id (tasks s t)) e (\<not> isDeadlineExceeded now (tasks s t))]"
  by (auto simp: finishExecution_def Let_def outcome_def active_erase_def)

lemma scheduled_frame [simp]:
  "total_tasks_scheduled (upd_node r f s) = total_tasks_scheduled s" "total_tasks_scheduled (upd_task t g s) = total_tasks_scheduled s"
  "total_tasks_scheduled (db c s) = total_tasks_scheduled s"
  by (simp_all add: upd_node_def upd_task_def db_def)

text \<open>What the two parts of an execution leave alone.\<close>

lemma begin_frame [simp]:
  "next_task (beginExecution t s) = next_task s" "next_node (beginExecution t s) = next_node s"
  "edge_nodes (beginExecution t s) = edge_nodes s" "nodes_mutex (beginExecution t s) = nodes_mutex s"
  "weights (beginExecution t s) = weights s" "profile_map (beginExecution t s) = profile_map s"
  "workers (beginExecution t s) = workers s" "exec_nodes (beginExecution t s) = exec_nodes s" "is_running (beginExecution t s) = is_running s"
  "total_allocations (beginExecution t s) = total_allocations s"
  "successful_allocations (beginExecution t s) = successful_allocations s"
  "failed_allocations (beginExecution t s) = failed_allocations s"
  "total_tasks_scheduled (beginExecution t s) = total_tasks_scheduled s"
  by (simp_all add: beginExecution_def Let_def active_put_def)

lemma finish_frame [simp]:
  "next_task (finishExecution now now' e r t s) = next_task s" "next_node (finishExecution now now' e r t s) = next_node s"
  "edge_nodes (finishExecution now now' e r t s) = edge_nodes s" "nodes_mutex (finishExecution now now' e r t s) = nodes_mutex s"
  "weights (finishExecution now now' e r t s) = weights s" "profile_map (finishExecution now now' e r t s) = profile_map s"
  "workers (finishExecution now now' e r t s) = workers s" "exec_nodes (finishExecution now now' e r t s) = exec_nodes s" "is_running (finishExecution now now' e r t s) = is_running s"
  "total_allocations (finishExecution now now' e r t s) = total_allocations s"
  "successful_allocations (finishExecution now now' e r t s) = successful_allocations s"
  "failed_allocations (finishExecution now now' e r t s) = failed_allocations s"
  "total_tasks_scheduled (finishExecution now now' e r t s) = total_tasks_scheduled s"
  by (simp_all add: finishExecution_def Let_def active_erase_def)

section \<open>Execution times\<close>

lemma trunc_int_mono: "x \<le> y \<Longrightarrow> trunc_int x \<le> trunc_int y"
proof -
  assume "x \<le> y"
  then have xy: "rat_of x \<le> rat_of y" by (simp add: double_iffs)
  have "\<lceil>rat_of x\<rceil> \<le> 0" "0 \<le> \<lfloor>rat_of y\<rfloor>" if "rat_of x < 0" "0 \<le> rat_of y" using that by auto
  with xy show ?thesis
    by (auto simp: trunc_int_def not_le intro: floor_mono ceiling_mono order_trans [of _ 0])
qed

lemma estimate_mono:
  assumes "0 \<le> cpu_percent req" "cpu_percent req \<le> cpu_percent req'" "0 \<le> jitter" "jitter \<le> jitter'"
  shows "estimateExecutionTime jitter req \<le> estimateExecutionTime jitter' req'"
proof -
  have "0 \<le> cpu_percent req * dbl (8 / 10)" "cpu_percent req * dbl (8 / 10) \<le> cpu_percent req' * dbl (8 / 10)"
    using assms by (auto intro!: double_mult_nonneg double_mult_mono dbl_nonneg)
  then have "(dbl 5 + cpu_percent req * dbl (8 / 10)) * jitter \<le> (dbl 5 + cpu_percent req' * dbl (8 / 10)) * jitter'"
    using assms by (intro double_mult_mono double_add_mono double_add_nonneg dbl_nonneg) auto
  then show ?thesis unfolding estimateExecutionTime_def Let_def by (rule trunc_int_mono)
qed

lemma trunc_int_dbl: "0 \<le> fl q \<Longrightarrow> trunc_int (dbl q) = \<lfloor>fl q\<rfloor>"
  by (simp add: trunc_int_def)

lemma estimate_ends:
  "trunc_int ((dbl 5 + dbl 0 * dbl (4 / 5)) * dbl (9 / 10)) = 4"
  "trunc_int ((dbl 5 + dbl 100 * dbl (4 / 5)) * dbl (13 / 10)) = 110"
proof -
  have lo: "fl (5 * fl (9 / 10)) = 9 / 2" by code_simp
  have hi: "fl (fl (5 + fl (100 * fl (4 / 5))) * fl (13 / 10)) = 221 / 2" by code_simp
  have "\<lfloor>fl (5 * fl (9 / 10))\<rfloor> = 4" "\<lfloor>fl (fl (5 + fl (100 * fl (4 / 5))) * fl (13 / 10))\<rfloor> = 110"
    by (simp_all only: lo hi) (simp_all add: floor_eq_iff)
  then show "trunc_int ((dbl 5 + dbl 0 * dbl (4 / 5)) * dbl (9 / 10)) = 4"
    "trunc_int ((dbl 5 + dbl 100 * dbl (4 / 5)) * dbl (13 / 10)) = 110"
    by (simp_all add: dbl_plus dbl_times trunc_int_dbl fl_nonneg)
qed

text \<open>a task that asks for at most 100 percent CPU runs for between 4 and 110 milliseconds, whatever
  the jitter drawn between 0.9 and 1.3.\<close>

theorem execution_time_bounds:
  assumes "0 \<le> cpu_percent req" "cpu_percent req \<le> dbl 100" "dbl (9 / 10) \<le> jitter" "jitter \<le> dbl (13 / 10)"
  shows "4 \<le> estimateExecutionTime jitter req \<and> estimateExecutionTime jitter req \<le> 110"
proof -
  have "0 \<le> dbl (9 / 10)" by (simp add: dbl_nonneg)
  then have "estimateExecutionTime (dbl (9 / 10)) (req\<lparr>cpu_percent := dbl 0\<rparr>) \<le> estimateExecutionTime jitter req"
    using assms by (intro estimate_mono) (simp_all flip: zero_dbl)
  moreover have "estimateExecutionTime jitter req \<le> estimateExecutionTime (dbl (13 / 10)) (req\<lparr>cpu_percent := dbl 100\<rparr>)"
    using assms \<open>0 \<le> dbl (9 / 10)\<close> by (intro estimate_mono) auto
  ultimately show ?thesis
    by (simp add: estimateExecutionTime_def [of "dbl (9 / 10)"] estimateExecutionTime_def [of "dbl (13 / 10)"] estimate_ends)
qed

section \<open>Starting and stopping\<close>

lemma spawn_loop_spec:
  assumes "\<forall>eid\<in>fst ` set es. map_of (workers s) eid = None" "distinct (map fst es)"
  shows "\<exists>ws. spawn_loop es s = Inr (s\<lparr>workers := ws\<rparr>) \<and> map_of ws = map_of (workers s) ++ map_of es"
  using assms
proof (induction es s rule: spawn_loop.induct)
  case (1 s)
  show ?case by (rule exI [of _ "workers s"]) simp
next
  case (2 eid node es s)
  let ?s1 = "s\<lparr>workers := map_put eid node (workers s)\<rparr>"
  have fresh: "map_of (workers s) eid = None" "eid \<notin> fst ` set es" using 2(2,3) by auto
  have "\<forall>k\<in>fst ` set es. map_of (workers ?s1) k = None" using 2(2) fresh(2) by auto
  moreover have "distinct (map fst es)" using 2(3) by simp
  ultimately obtain ws where ws: "spawn_loop es ?s1 = Inr (?s1\<lparr>workers := ws\<rparr>)" "map_of ws = map_of (workers ?s1) ++ map_of es"
    using 2(1) fresh(1) by blast
  have "spawn_loop ((eid, node) # es) s = Inr (s\<lparr>workers := ws\<rparr>)" using fresh(1) ws(1) by simp
  moreover have "map_of ws = map_of (workers s) ++ map_of ((eid, node) # es)"
    using fresh(2) ws(2) by (auto simp: map_add_def fun_eq_iff map_of_eq_None_iff split: option.splits)
  ultimately show ?case by blast
qed

definition exec_ok :: "('j, 'm) executor_scheme \<Rightarrow> bool" where
  "exec_ok s \<longleftrightarrow> map_ok (exec_nodes s) \<and> map_ok (active_tasks s) \<and> (\<not> is_running s \<longrightarrow> workers s = [])"

text \<open>starting the executor launches exactly one worker for each registered node and never assigns
  to a thread that is still joinable; starting it again changes nothing, and stopping it joins
  every worker, so that it can be started again.\<close>

theorem executor_start_stop:
  assumes "exec_ok s" "\<not> is_running s"
  shows "\<exists>s'. exec_start s = Inr s' \<and> is_running s' \<and> map_of (workers s') = map_of (exec_nodes s) \<and>
    exec_start s' = Inr s' \<and> \<not> is_running (exec_stop s') \<and> workers (exec_stop s') = [] \<and>
    exec_start (exec_stop s') = Inr s'"
proof -
  have d: "distinct (map fst (exec_nodes s))" using assms(1) by (simp add: exec_ok_def map_ok_distinct)
  obtain ws where ws: "spawn_loop (exec_nodes s) (s\<lparr>is_running := True\<rparr>) = Inr (s\<lparr>is_running := True, workers := ws\<rparr>)"
    "map_of ws = map_of (exec_nodes s)"
    using spawn_loop_spec [OF _ d, of "s\<lparr>is_running := True\<rparr>"] assms by (auto simp: exec_ok_def)
  have "workers s = []" using assms by (simp add: exec_ok_def)
  then have stopped: "s\<lparr>is_running := False, workers := []\<rparr> = s" using assms(2) by (cases s) simp
  let ?s' = "s\<lparr>is_running := True, workers := ws\<rparr>"
  have "exec_stop ?s' = s" by (simp add: exec_stop_def stopped)
  moreover have "exec_start s = Inr ?s'" using ws(1) assms(2) by (simp add: exec_start_def)
  moreover have "exec_start ?s' = Inr ?s'" by (simp add: exec_start_def)
  ultimately show ?thesis using ws(2) \<open>workers s = []\<close> assms(2)
    by (intro exI [of _ ?s']) simp
qed

section \<open>Execution\<close>



section \<open>A concrete state\<close>

definition demo_exec :: "unit executor" where
  "demo_exec = task_manager.extend (task_manager.truncate demo_manager)
     \<lparr>exec_nodes = [(''edge-1'', Some 0), (''edge-2'', Some 1)], is_running = False, workers = [],
      total_tasks_executed = 0, exec_tasks_failed = 0, total_execution_time_ms = 0, active_tasks = []\<rparr>"

lemma demo_exec_simps [simp]:
  "exec_nodes demo_exec = [(''edge-1'', Some 0), (''edge-2'', Some 1)]" "\<not> is_running demo_exec" "workers demo_exec = []"
  "active_tasks demo_exec = []" "reqs (tasks demo_exec t) = demo_req_of t" "creation_time (tasks demo_exec t) = 0"
  by (simp_all add: demo_exec_def demo_manager_def demo_sched_def upd_node_def new_task_def task_manager.defs
      scheduler.defs allocator.defs)

theorem execution_time_bounds_witness:
  "4 \<le> estimateExecutionTime (dbl 1) (demo_req_of 1) \<and> estimateExecutionTime (dbl 1) (demo_req_of 1) \<le> 110"
  using execution_time_bounds [of "demo_req_of 1" "dbl 1"] by (simp add: demo_req_of_def mk_req_def dbl_nonneg dbl_le)

theorem executor_start_stop_witness:
  "\<exists>s'. exec_start demo_exec = Inr s' \<and> map_of (workers s') ''edge-2'' = Some (Some 1)"
  using executor_start_stop [of demo_exec] by (auto simp: exec_ok_def map_ok_def)


end
