(* ===== verification/Json.thy ===== *)
theory Json
  imports Binary64
begin

text \<open>
  The values of the JSON library the program is built with, as far as the program builds and reads
  them: a tree whose objects are maps ordered by key. Reading a number or a string out of a value,
  parsing and printing are the library's business: they are the fields of a record of type
  \<open>json_lib\<close> that the definitions take as an argument, and \<open>json_lib_ok\<close> says what the program relies on.
\<close>

datatype json =
    J_Null
  | J_Bool bool
  | J_Num double
  | J_Int int
  | J_Str string
  | J_Arr "json list"
  | J_Obj "(string \<times> json) list"

text \<open>A default-constructed value with a sequence of assignments \<open>j[key] = value\<close>.\<close>

definition put_all :: "(string \<times> json) list \<Rightarrow> (string \<times> json) list \<Rightarrow> (string \<times> json) list" where
  "put_all kvs m = fold (\<lambda>(k, v). map_put k v) kvs m"

definition build :: "(string \<times> json) list \<Rightarrow> json" where
  "build kvs = (if kvs = [] then J_Null else J_Obj (put_all kvs []))"

text \<open>Further assignments to an object; the first one turns a null value into an object.\<close>

fun assign :: "(string \<times> json) list \<Rightarrow> json \<Rightarrow> json" where
  "assign kvs (J_Obj m) = J_Obj (put_all kvs m)"
| "assign kvs J_Null = build kvs"
| "assign kvs j = j"

text \<open>The exceptions the library throws.\<close>

datatype json_error = Type_Error | Out_Of_Range | Parse_Error string

text \<open>\<open>j.at(key)\<close>, \<open>j.contains(key)\<close> and \<open>j.value(key, default)\<close> before any conversion.\<close>

fun at_key :: "string \<Rightarrow> json \<Rightarrow> json_error + json" where
  "at_key k (J_Obj m) = (case map_of m k of Some v \<Rightarrow> Inr v | None \<Rightarrow> Inl Out_Of_Range)"
| "at_key k _ = Inl Type_Error"

fun contains :: "string \<Rightarrow> json \<Rightarrow> bool" where
  "contains k (J_Obj m) \<longleftrightarrow> map_of m k \<noteq> None"
| "contains k _ \<longleftrightarrow> False"

fun value_or :: "string \<Rightarrow> 'a \<Rightarrow> (json \<Rightarrow> json_error + 'a) \<Rightarrow> json \<Rightarrow> json_error + 'a" where
  "value_or k d conv (J_Obj m) = (case map_of m k of Some v \<Rightarrow> conv v | None \<Rightarrow> Inr d)"
| "value_or k d conv _ = Inl Type_Error"

record json_lib =
  get_double :: "json \<Rightarrow> json_error + double"
  get_int64 :: "json \<Rightarrow> json_error + int"
  get_int :: "json \<Rightarrow> json_error + int"
  get_string :: "json \<Rightarrow> json_error + string"
  get_bool :: "json \<Rightarrow> json_error + bool"
  json_parse :: "string \<Rightarrow> json_error + json"
  json_dump :: "json \<Rightarrow> json_error + string"
  what :: "json_error \<Rightarrow> string"

text \<open>\<open>what\<close> is the text of an exception; printing throws on a string that is not UTF-8.

  Each getter returns what a value of its own kind holds and throws on a value of another kind.\<close>

definition json_lib_ok :: "json_lib \<Rightarrow> bool" where
  "json_lib_ok lib \<longleftrightarrow> (\<forall>d. get_double lib (J_Num d) = Inr d) \<and>
     (\<forall>n. get_int64 lib (J_Int n) = Inr n) \<and> (\<forall>n. get_int lib (J_Int n) = Inr n) \<and>
     (\<forall>s. get_string lib (J_Str s) = Inr s) \<and> (\<forall>b. get_bool lib (J_Bool b) = Inr b) \<and>
     (\<forall>j. (\<nexists>s. j = J_Str s) \<longrightarrow> get_string lib j = Inl Type_Error) \<and>
     (\<forall>j. (\<nexists>b. j = J_Bool b) \<longrightarrow> get_bool lib j = Inl Type_Error)"

text \<open>A small library of that kind, for evaluation.\<close>

definition demo_lib :: json_lib where
  "demo_lib =
     \<lparr>get_double = (\<lambda>j. case j of J_Num d \<Rightarrow> Inr d | J_Int n \<Rightarrow> Inr (dbl_of_int n) | _ \<Rightarrow> Inl Type_Error),
      get_int64 = (\<lambda>j. case j of J_Int n \<Rightarrow> Inr n | J_Num d \<Rightarrow> Inr (trunc_int d) | _ \<Rightarrow> Inl Type_Error),
      get_int = (\<lambda>j. case j of J_Int n \<Rightarrow> Inr n | J_Num d \<Rightarrow> Inr (trunc_int d) | J_Bool b \<Rightarrow> Inr (of_bool b) | _ \<Rightarrow> Inl Type_Error),
      get_string = (\<lambda>j. case j of J_Str s \<Rightarrow> Inr s | _ \<Rightarrow> Inl Type_Error),
      get_bool = (\<lambda>j. case j of J_Bool b \<Rightarrow> Inr b | _ \<Rightarrow> Inl Type_Error),
      json_parse = (\<lambda>s. if s = ''{}'' then Inr (J_Obj []) else if s = ''null'' then Inr J_Null else Inl (Parse_Error s)),
      json_dump = (\<lambda>j. case j of J_Null \<Rightarrow> Inr ''null'' | _ \<Rightarrow> Inr ''{}''),
      what = (\<lambda>e. case e of Parse_Error s \<Rightarrow> s | _ \<Rightarrow> '''')\<rparr>"

lemma demo_lib_ok: "json_lib_ok demo_lib"
  by (auto simp: json_lib_ok_def demo_lib_def split: json.splits)

lemma json_libD:
  assumes "json_lib_ok lib"
  shows "get_double lib (J_Num d) = Inr d" "get_int64 lib (J_Int n) = Inr n" "get_int lib (J_Int n) = Inr n"
    "get_string lib (J_Str s) = Inr s" "get_bool lib (J_Bool b) = Inr b"
  using assms by (simp_all add: json_lib_ok_def)

section \<open>Objects\<close>

lemma map_of_put_all [simp]: "map_of (put_all kvs m) = map_of m ++ map_of (rev kvs)"
  by (induction kvs arbitrary: m) (auto simp: put_all_def map_add_def fun_eq_iff split: option.splits)

lemma put_all_ok: "map_ok m \<Longrightarrow> map_ok (put_all kvs m)"
  by (induction kvs arbitrary: m) (auto simp: put_all_def map_ok_put)

lemma at_build: "kvs \<noteq> [] \<Longrightarrow> at_key k (build kvs) = (case map_of (rev kvs) k of Some v \<Rightarrow> Inr v | None \<Rightarrow> Inl Out_Of_Range)"
  by (simp add: build_def)

lemma at_assign:
  "at_key k (assign kvs (J_Obj m)) = (case map_of (rev kvs) k of Some v \<Rightarrow> Inr v | None \<Rightarrow> at_key k (J_Obj m))"
  by (auto simp: map_add_def split: option.splits)

end
