(* ===== verification/Task_Json.thy ===== *)
theory Task_Json
  imports Task_Executor Json
begin

text \<open>
  The JSON view of a task: \<open>Task::toJson\<close> and \<open>Task::fromJson\<close> of \<^verbatim>\<open>task.cpp\<close>, and the list of running
  tasks of \<^verbatim>\<open>task_executor.cpp\<close>. The sensor payload of a task is a JSON value here.
\<close>

section \<open>One task\<close>

definition toJson :: "json task \<Rightarrow> json" where
  "toJson t = build
     [(''task_id'', J_Str (task_id t)),
      (''device_id'', J_Str (device_id t)),
      (''sensor_type'', J_Str (sensor_type t)),
      (''cpu_percent'', J_Num (cpu_percent (reqs t))),
      (''ram_mb'', J_Num (ram_mb (reqs t))),
      (''bandwidth_mbps'', J_Num (bandwidth_mbps (reqs t))),
      (''deadline_ms'', J_Int (deadline_ms (reqs t))),
      (''priority'', J_Int (priority_to_int (priority (reqs t)))),
      (''status'', J_Int (status_to_int (status t))),
      (''assigned_edge_id'', J_Str (assigned_edge_id t)),
      (''sensor_data'', sensor_data t)]"

text \<open>\<open>j.at(key).get<T>()\<close>.\<close>

definition field :: "(json \<Rightarrow> json_error + 'a) \<Rightarrow> string \<Rightarrow> json \<Rightarrow> json_error + 'a" where
  "field conv k j = bind_sum (at_key k j) conv"

definition fromJson :: "json_lib \<Rightarrow> int \<Rightarrow> json \<Rightarrow> json_error + json task" where
  "fromJson lib now j =
     bind_sum (field (get_double lib) ''cpu_percent'' j) (\<lambda>cpu.
     bind_sum (field (get_double lib) ''ram_mb'' j) (\<lambda>ram.
     bind_sum (field (get_double lib) ''bandwidth_mbps'' j) (\<lambda>bandwidth.
     bind_sum (field (get_int64 lib) ''deadline_ms'' j) (\<lambda>deadline.
     bind_sum (field (get_int lib) ''priority'' j) (\<lambda>prio.
     bind_sum (field (get_string lib) ''task_id'' j) (\<lambda>tid.
     bind_sum (field (get_string lib) ''device_id'' j) (\<lambda>dev.
     bind_sum (field (get_string lib) ''sensor_type'' j) (\<lambda>sensor.
     bind_sum (value_or ''sensor_data'' (J_Obj []) Inr j) (\<lambda>data.
       (let req = \<lparr>cpu_percent = cpu, ram_mb = ram, bandwidth_mbps = bandwidth, deadline_ms = deadline,
                   priority = priority_of_int prio\<rparr>;
            t = new_task now tid dev sensor req data
        in bind_sum (if contains ''assigned_edge_id'' j
                     then bind_sum (field (get_string lib) ''assigned_edge_id'' j) (\<lambda>e. Inr (setAssignedEdgeId e t))
                     else Inr t) (\<lambda>t1.
             if contains ''status'' j
             then bind_sum (field (get_int lib) ''status'' j) (\<lambda>st. Inr (setStatus (status_of_int st) t1))
             else Inr t1)))))))))))"

section \<open>The running tasks\<close>

text \<open>The \<open>j\<close>th entry sees the two clock readings \<open>clk j\<close>.\<close>

fun active_loop :: "(nat \<Rightarrow> int \<times> int) \<Rightarrow> nat \<Rightarrow> (tref \<Rightarrow> json task) \<Rightarrow> (string \<times> tref) list \<Rightarrow> json list" where
  "active_loop clk j ts [] = []"
| "active_loop clk j ts ((tid, t) # es) =
     assign [(''elapsed_ms'', J_Int (getElapsedTimeMs (fst (clk j)) (ts t))),
             (''remaining_ms'', J_Int (getRemainingTimeMs (snd (clk j)) (ts t)))] (toJson (ts t))
     # active_loop clk (Suc j) ts es"

definition getActiveTasks :: "(nat \<Rightarrow> int \<times> int) \<Rightarrow> json executor \<Rightarrow> json list" where
  "getActiveTasks clk s = active_loop clk 0 (tasks s) (active_tasks s)"

section \<open>Properties\<close>

lemma field_toJson:
  "at_key ''task_id'' (toJson t) = Inr (J_Str (task_id t))" "at_key ''device_id'' (toJson t) = Inr (J_Str (device_id t))"
  "at_key ''sensor_type'' (toJson t) = Inr (J_Str (sensor_type t))" "at_key ''cpu_percent'' (toJson t) = Inr (J_Num (cpu_percent (reqs t)))"
  "at_key ''ram_mb'' (toJson t) = Inr (J_Num (ram_mb (reqs t)))" "at_key ''bandwidth_mbps'' (toJson t) = Inr (J_Num (bandwidth_mbps (reqs t)))"
  "at_key ''deadline_ms'' (toJson t) = Inr (J_Int (deadline_ms (reqs t)))"
  "at_key ''priority'' (toJson t) = Inr (J_Int (priority_to_int (priority (reqs t))))"
  "at_key ''status'' (toJson t) = Inr (J_Int (status_to_int (status t)))"
  "at_key ''assigned_edge_id'' (toJson t) = Inr (J_Str (assigned_edge_id t))" "at_key ''sensor_data'' (toJson t) = Inr (sensor_data t)"
  by (simp_all add: toJson_def at_build)

lemma at_contains: "at_key k j = Inr v \<Longrightarrow> contains k j"
  by (cases j) (auto split: option.splits)

lemma at_value_or: "at_key k j = Inr v \<Longrightarrow> value_or k d conv j = conv v"
  by (cases j) (auto split: option.splits)

lemma fromJson_toJson:
  assumes "json_lib_ok lib" "proper_priority (priority (reqs t))" "proper_status (status t)"
  shows "fromJson lib now (toJson t) = Inr (t\<lparr>creation_time := now, completion_time := 0\<rparr>)"
proof -
  note at = field_toJson [of t]
  have "priority_of_int (priority_to_int (priority (reqs t))) = priority (reqs t)"
    "status_of_int (status_to_int (status t)) = status t"
    using assms(2,3) by (simp_all add: proper_priority_def proper_status_def)
  then show ?thesis
    using at_contains [OF at(9)] at_contains [OF at(10)] at_value_or [OF at(11), of "J_Obj []" Inr]
    by (simp add: fromJson_def field_def at json_libD [OF assms(1)] new_task_def setStatus_def setAssignedEdgeId_def)
qed

text \<open>C32: a task survives the trip through JSON: reading back what \<open>toJson\<close> writes gives the same task, but
  for its two time stamps, which are not written: it is created anew at the time of reading and
  not completed.\<close>

theorem task_json_roundtrip:
  assumes "json_lib_ok lib" "proper_priority (priority (reqs t))" "proper_status (status t)"
  shows "fromJson lib now (toJson t) = Inr (t\<lparr>creation_time := now, completion_time := 0\<rparr>)"
  by (rule fromJson_toJson [OF assms])

text \<open>reading a task never invents a field: it fails with the library's exception if the value is not
  an object, and if one of the eight required fields is missing; only the payload, the assigned node
  and the status may be.\<close>

theorem task_json_required:
  assumes "k \<in> {''cpu_percent'', ''ram_mb'', ''bandwidth_mbps'', ''deadline_ms'', ''priority'', ''task_id'', ''device_id'', ''sensor_type''}"
    and "\<not> contains k j"
  shows "\<nexists>t. fromJson lib now j = Inr t"
proof -
  have "\<nexists>v. at_key k j = Inr v" using at_contains [of k j] assms(2) by blast
  then have "\<nexists>v. field (get_double lib) k j = Inr v" "\<nexists>v. field (get_int64 lib) k j = Inr v"
    "\<nexists>v. field (get_int lib) k j = Inr v" "\<nexists>v. field (get_string lib) k j = Inr v"
    by (simp_all add: field_def bind_sum_Inr)
  with assms(1) show ?thesis by (auto simp: fromJson_def bind_sum_Inr Let_def)
qed

lemma length_active_loop: "length (active_loop clk j ts es) = length es"
  by (induction clk j ts es rule: active_loop.induct) auto

lemma active_loop_nth:
  "i < length es \<Longrightarrow> active_loop clk j ts es ! i =
     assign [(''elapsed_ms'', J_Int (getElapsedTimeMs (fst (clk (j + i))) (ts (snd (es ! i))))),
             (''remaining_ms'', J_Int (getRemainingTimeMs (snd (clk (j + i))) (ts (snd (es ! i)))))] (toJson (ts (snd (es ! i))))"
proof (induction clk j ts es arbitrary: i rule: active_loop.induct)
  case (2 clk j ts tid t es)
  then show ?case by (cases i) auto
qed simp

section \<open>A concrete task\<close>

definition demo_task :: "json task" where
  "demo_task = setStatus RUNNING (setAssignedEdgeId ''E03''
     (new_task 0 ''T000009'' ''DEV0004'' ''humidity'' (mk_req 5 20 (1 / 2) 500 LOW) (build [(''humidity_percent'', J_Num (dbl 51))])))"

theorem task_json_roundtrip_witness:
  "fromJson demo_lib 77 (toJson demo_task) = Inr (demo_task\<lparr>creation_time := 77\<rparr>)"
proof -
  have "demo_task\<lparr>creation_time := 77, completion_time := 0\<rparr> = demo_task\<lparr>creation_time := 77\<rparr>"
    by (simp add: demo_task_def setStatus_def setAssignedEdgeId_def new_task_def)
  moreover have "proper_priority (priority (reqs demo_task))" "proper_status (status demo_task)"
    by (simp_all add: demo_task_def setStatus_def setAssignedEdgeId_def new_task_def mk_req_def proper_priority_def proper_status_def
        priority_of_int_def status_of_int_def)
  ultimately show ?thesis using task_json_roundtrip [OF demo_lib_ok, of demo_task 77] by simp
qed

theorem task_json_required_witness: "\<nexists>t. fromJson demo_lib 5 (build [(''task_id'', J_Str ''T000001'')]) = Inr t"
  by (rule task_json_required [where k = "''ram_mb''"]) (simp_all add: build_def put_all_def)

end
