(* ===== verification/Database_Manager.thy ===== *)
theory Database_Manager
  imports Sqlite Task_Json
begin

text \<open>
  \<^verbatim>\<open>database_manager.h\<close> and \<^verbatim>\<open>database_manager.cpp\<close>: the persistence of the simulation. The state is
  the pointer to the connection, the flag of the manager and the state of the library. Text is bound
  through \<open>c_str()\<close>, so it ends at the first null character. Building a \<open>std::string\<close> or a JSON value
  from a null text pointer is the fault \<open>NullDeref\<close>. A loop over the rows of a statement ends only when
  the library says so: a function with such a loop returns \<open>None\<close> when it never ends.
\<close>

section \<open>The state and the helpers\<close>

record 'd database =
  conn :: 'd
  db_handle :: "handle option"
  db_initialized :: bool

definition executeSql :: "'d sqlite \<Rightarrow> string \<Rightarrow> 'd database \<Rightarrow> bool \<times> 'd database" where
  "executeSql L sql D =
     (let (rc, msg, c) = sq_exec L (db_handle D) sql (conn D) in (rc = SQLITE_OK, D\<lparr>conn := c\<rparr>))"

definition prepareStatement :: "'d sqlite \<Rightarrow> string \<Rightarrow> 'd database \<Rightarrow> handle option \<times> 'd database" where
  "prepareStatement L sql D =
     (let (rc, st, c) = sq_prepare L (db_handle D) sql (conn D)
      in (if rc \<noteq> SQLITE_OK then None else st, D\<lparr>conn := c\<rparr>))"

definition c_str :: "string \<Rightarrow> string" where
  "c_str s = takeWhile (\<lambda>c. c \<noteq> CHR 0x00) s"

text \<open>The \<open>sqlite3_bind\<close> calls of a statement: the position of each parameter and its value.\<close>

definition bind_all :: "'d sqlite \<Rightarrow> handle \<Rightarrow> (nat \<times> sql_value) list \<Rightarrow> 'd \<Rightarrow> 'd" where
  "bind_all L st bs c = fold (\<lambda>(i, v). sq_bind L st i v) bs c"

text \<open>What every operation that writes does: prepare, bind, one step, finalize.\<close>

definition run_write :: "'d sqlite \<Rightarrow> string \<Rightarrow> (nat \<times> sql_value) list \<Rightarrow> 'd database \<Rightarrow> bool \<times> 'd database" where
  "run_write L sql bs D =
     (case prepareStatement L sql D of
        (None, D1) \<Rightarrow> (False, D1)
      | (Some st, D1) \<Rightarrow>
          (let (rc, c) = sq_step L st (bind_all L st bs (conn D1))
           in (rc = SQLITE_DONE, D1\<lparr>conn := sq_finalize L st c\<rparr>)))"

section \<open>Schemas\<close>

definition schemas :: "string list" where
  "schemas =
     [''CREATE TABLE IF NOT EXISTS devices (  device_id TEXT PRIMARY KEY,  device_type TEXT NOT NULL);'',
      ''CREATE TABLE IF NOT EXISTS task_profiles (  sensor_type TEXT PRIMARY KEY,  cpu_percent REAL NOT NULL,'' @
      ''  ram_mb REAL NOT NULL,  bandwidth_mbps REAL NOT NULL,  deadline_ms INTEGER NOT NULL,  priority INTEGER NOT NULL);'',
      ''CREATE TABLE IF NOT EXISTS edge_nodes (  edge_id TEXT PRIMARY KEY,  cpu_capacity REAL NOT NULL,'' @
      ''  ram_capacity_mb REAL NOT NULL,  bandwidth_capacity_mbps REAL NOT NULL,  latency_ms INTEGER NOT NULL);'',
      ''CREATE TABLE IF NOT EXISTS tasks (  task_id TEXT PRIMARY KEY,  device_id TEXT NOT NULL,  sensor_type TEXT NOT NULL,'' @
      ''  cpu_percent REAL NOT NULL,  ram_mb REAL NOT NULL,  bandwidth_mbps REAL NOT NULL,  deadline_ms INTEGER NOT NULL,'' @
      ''  priority INTEGER NOT NULL,  status INTEGER NOT NULL,  created_at TEXT DEFAULT CURRENT_TIMESTAMP,'' @
      ''  FOREIGN KEY (device_id) REFERENCES devices(device_id));'',
      ''CREATE TABLE IF NOT EXISTS task_allocations (  id INTEGER PRIMARY KEY AUTOINCREMENT,  task_id TEXT NOT NULL,'' @
      ''  edge_id TEXT,  score REAL,  success INTEGER NOT NULL,  strategy TEXT,  reason TEXT,'' @
      ''  allocated_at TEXT DEFAULT CURRENT_TIMESTAMP,  FOREIGN KEY (task_id) REFERENCES tasks(task_id));'',
      ''CREATE TABLE IF NOT EXISTS task_execution (  id INTEGER PRIMARY KEY AUTOINCREMENT,  task_id TEXT NOT NULL,'' @
      ''  execution_time_ms INTEGER NOT NULL,  success INTEGER NOT NULL,  executed_at TEXT DEFAULT CURRENT_TIMESTAMP,'' @
      ''  FOREIGN KEY (task_id) REFERENCES tasks(task_id));'',
      ''CREATE TABLE IF NOT EXISTS resource_history (  id INTEGER PRIMARY KEY AUTOINCREMENT,  edge_id TEXT NOT NULL,'' @
      ''  cpu_percent REAL NOT NULL,  ram_mb REAL NOT NULL,  bandwidth_mbps REAL NOT NULL,  queue_length INTEGER NOT NULL,'' @
      ''  recorded_at TEXT DEFAULT CURRENT_TIMESTAMP,  FOREIGN KEY (edge_id) REFERENCES edge_nodes(edge_id));'',
      ''CREATE INDEX IF NOT EXISTS idx_tasks_device ON tasks(device_id);'',
      ''CREATE INDEX IF NOT EXISTS idx_allocations_task ON task_allocations(task_id);'',
      ''CREATE INDEX IF NOT EXISTS idx_execution_task ON task_execution(task_id);'',
      ''CREATE INDEX IF NOT EXISTS idx_resource_history_edge ON resource_history(edge_id);'']"

text \<open>The loop that stops at the first failure.\<close>

fun execute_all :: "'d sqlite \<Rightarrow> string list \<Rightarrow> 'd database \<Rightarrow> bool \<times> 'd database" where
  "execute_all L [] D = (True, D)"
| "execute_all L (sql # sqls) D =
     (case executeSql L sql D of (ok, D1) \<Rightarrow> if \<not> ok then (False, D1) else execute_all L sqls D1)"

definition migration_sql :: string where
  "migration_sql = ''ALTER TABLE task_allocations ADD COLUMN strategy TEXT;''"

definition createSchemas :: "'d sqlite \<Rightarrow> 'd database \<Rightarrow> bool \<times> 'd database" where
  "createSchemas L D =
     (case execute_all L schemas D of
        (False, D1) \<Rightarrow> (False, D1)
      | (True, D1) \<Rightarrow>
          (let (rc, migration_error, c) = sq_exec L (db_handle D1) migration_sql (conn D1);
               D2 = D1\<lparr>conn := c\<rparr>
           in if rc \<noteq> SQLITE_OK
              then (let message = (case migration_error of None \<Rightarrow> ''unknown error'' | Some m \<Rightarrow> m)
                    in if find_sub ''duplicate column name'' message = None then (False, D2) else (True, D2))
              else (True, D2)))"

definition db_initialize :: "'d sqlite \<Rightarrow> string \<Rightarrow> 'd database \<Rightarrow> bool \<times> 'd database" where
  "db_initialize L db_path D =
     (let (rc, h, c) = sq_open L (c_str db_path) (conn D);
          D1 = D\<lparr>conn := c, db_handle := h\<rparr>
      in if rc \<noteq> SQLITE_OK then (False, D1\<lparr>db_initialized := False\<rparr>)
         else (let (_, D2) = executeSql L ''PRAGMA foreign_keys = ON;'' D1;
                   (_, D3) = executeSql L ''PRAGMA journal_mode = WAL;'' D2;
                   (ok, D4) = createSchemas L D3
               in (ok, D4\<lparr>db_initialized := ok\<rparr>)))"

definition db_close :: "'d sqlite \<Rightarrow> 'd database \<Rightarrow> 'd database" where
  "db_close L D =
     (if db_handle D \<noteq> None
      then D\<lparr>conn := snd (sq_close L (db_handle D) (conn D)), db_handle := None, db_initialized := False\<rparr>
      else D\<lparr>db_initialized := False\<rparr>)"

definition reset_sql :: string where
  "reset_sql = ''DELETE FROM task_execution;'' @ ''DELETE FROM task_allocations;'' @ ''DELETE FROM resource_history;'' @
     ''DELETE FROM tasks;'' @ ''DELETE FROM edge_nodes;'' @ ''DELETE FROM devices;''"

definition resetSimulationData :: "'d sqlite \<Rightarrow> 'd database \<Rightarrow> bool \<times> 'd database" where
  "resetSimulationData L D = executeSql L reset_sql D"

section \<open>Writing\<close>

definition device_sql :: string where
  "device_sql = ''INSERT OR REPLACE INTO devices (device_id, device_type) VALUES (?, ?);''"

definition saveDevice :: "'d sqlite \<Rightarrow> string \<Rightarrow> string \<Rightarrow> 'd database \<Rightarrow> bool \<times> 'd database" where
  "saveDevice L dev type =
     run_write L device_sql [(1, SQL_Text (c_str dev)), (2, SQL_Text (c_str type))]"

definition profile_sql :: string where
  "profile_sql = ''INSERT OR REPLACE INTO task_profiles '' @
     ''(sensor_type, cpu_percent, ram_mb, bandwidth_mbps, deadline_ms, priority) '' @ ''VALUES (?, ?, ?, ?, ?, ?);''"

definition saveTaskProfile :: "'d sqlite \<Rightarrow> string \<Rightarrow> requirements \<Rightarrow> 'd database \<Rightarrow> bool \<times> 'd database" where
  "saveTaskProfile L sensor req =
     run_write L profile_sql
       [(1, SQL_Text (c_str sensor)), (2, SQL_Real (cpu_percent req)), (3, SQL_Real (ram_mb req)),
        (4, SQL_Real (bandwidth_mbps req)), (5, SQL_Int (deadline_ms req)), (6, SQL_Int (priority_to_int (priority req)))]"

definition edge_sql :: string where
  "edge_sql = ''INSERT OR REPLACE INTO edge_nodes '' @
     ''(edge_id, cpu_capacity, ram_capacity_mb, bandwidth_capacity_mbps, latency_ms) '' @ ''VALUES (?, ?, ?, ?, ?);''"

definition edge_binds :: "string \<Rightarrow> resource_capacity \<Rightarrow> (nat \<times> sql_value) list" where
  "edge_binds eid cap =
     [(1, SQL_Text (c_str eid)), (2, SQL_Real (cap_cpu_percent cap)), (3, SQL_Real (cap_ram_mb cap)),
      (4, SQL_Real (cap_bandwidth_mbps cap)), (5, SQL_Int (latency_ms cap))]"

text \<open>The pointers to a node and to a task may be null.\<close>

definition saveEdgeNode :: "'d sqlite \<Rightarrow> edge_node option \<Rightarrow> 'd database \<Rightarrow> bool \<times> 'd database" where
  "saveEdgeNode L node D =
     (case node of None \<Rightarrow> (False, D)
      | Some n \<Rightarrow> run_write L edge_sql (edge_binds (edge_id n) (capacity n)) D)"

definition task_sql :: string where
  "task_sql = ''INSERT OR REPLACE INTO tasks '' @
     ''(task_id, device_id, sensor_type, cpu_percent, ram_mb, bandwidth_mbps, '' @
     '' deadline_ms, priority, status) VALUES (?, ?, ?, ?, ?, ?, ?, ?, ?);''"

definition task_binds :: "string \<Rightarrow> string \<Rightarrow> string \<Rightarrow> requirements \<Rightarrow> task_status \<Rightarrow> (nat \<times> sql_value) list" where
  "task_binds tid dev sensor req st =
     [(1, SQL_Text (c_str tid)), (2, SQL_Text (c_str dev)), (3, SQL_Text (c_str sensor)),
      (4, SQL_Real (cpu_percent req)), (5, SQL_Real (ram_mb req)), (6, SQL_Real (bandwidth_mbps req)),
      (7, SQL_Int (deadline_ms req)), (8, SQL_Int (priority_to_int (priority req))), (9, SQL_Int (status_to_int st))]"

definition saveTask :: "'d sqlite \<Rightarrow> 'j task option \<Rightarrow> 'd database \<Rightarrow> bool \<times> 'd database" where
  "saveTask L task D =
     (case task of None \<Rightarrow> (False, D)
      | Some t \<Rightarrow> run_write L task_sql (task_binds (task_id t) (device_id t) (sensor_type t) (reqs t) (status t)) D)"

definition status_sql :: string where
  "status_sql = ''UPDATE tasks SET status = ? WHERE task_id = ?;''"

definition updateTaskStatus :: "'d sqlite \<Rightarrow> string \<Rightarrow> task_status \<Rightarrow> 'd database \<Rightarrow> bool \<times> 'd database" where
  "updateTaskStatus L tid st =
     run_write L status_sql [(1, SQL_Int (status_to_int st)), (2, SQL_Text (c_str tid))]"

definition allocation_sql :: string where
  "allocation_sql = ''INSERT INTO task_allocations (task_id, edge_id, score, success, reason, strategy) '' @
     ''VALUES (?, ?, ?, 1, '' @ [CHR 0x27] @ ''allocated'' @ [CHR 0x27] @ '', ?);''"

definition saveAllocation :: "'d sqlite \<Rightarrow> string \<Rightarrow> string \<Rightarrow> double \<Rightarrow> string \<Rightarrow> 'd database \<Rightarrow> bool \<times> 'd database" where
  "saveAllocation L tid eid sc label =
     run_write L allocation_sql
       [(1, SQL_Text (c_str tid)), (2, SQL_Text (c_str eid)), (3, SQL_Real sc), (4, SQL_Text (c_str label))]"

definition allocation_failure_sql :: string where
  "allocation_failure_sql = ''INSERT INTO task_allocations (task_id, edge_id, score, success, reason) '' @
     ''VALUES (?, NULL, NULL, 0, ?);''"

definition saveAllocationFailure :: "'d sqlite \<Rightarrow> string \<Rightarrow> string \<Rightarrow> 'd database \<Rightarrow> bool \<times> 'd database" where
  "saveAllocationFailure L tid why =
     run_write L allocation_failure_sql [(1, SQL_Text (c_str tid)), (2, SQL_Text (c_str why))]"

definition execution_sql :: string where
  "execution_sql = ''INSERT INTO task_execution (task_id, execution_time_ms, success) VALUES (?, ?, ?);''"

definition saveTaskExecution :: "'d sqlite \<Rightarrow> string \<Rightarrow> int \<Rightarrow> bool \<Rightarrow> 'd database \<Rightarrow> bool \<times> 'd database" where
  "saveTaskExecution L tid ms success_flag =
     run_write L execution_sql
       [(1, SQL_Text (c_str tid)), (2, SQL_Int ms), (3, SQL_Int (if success_flag then 1 else 0))]"

definition resource_sql :: string where
  "resource_sql = ''INSERT INTO resource_history '' @
     ''(edge_id, cpu_percent, ram_mb, bandwidth_mbps, queue_length) '' @ ''VALUES (?, ?, ?, ?, ?);''"

definition saveResourceSnapshot :: "'d sqlite \<Rightarrow> string \<Rightarrow> resource_usage \<Rightarrow> int \<Rightarrow> 'd database \<Rightarrow> bool \<times> 'd database" where
  "saveResourceSnapshot L eid usage queue_length =
     run_write L resource_sql
       [(1, SQL_Text (c_str eid)), (2, SQL_Real (used_cpu_percent usage)), (3, SQL_Real (used_ram_mb usage)),
        (4, SQL_Real (used_bandwidth_mbps usage)), (5, SQL_Int queue_length)]"

text \<open>The calls the simulation logs, carried out.\<close>

fun perform :: "'d sqlite \<Rightarrow> db_call \<Rightarrow> 'd database \<Rightarrow> bool \<times> 'd database" where
  "perform L (Db_saveTask tid dev sensor req st) = run_write L task_sql (task_binds tid dev sensor req st)"
| "perform L (Db_updateTaskStatus tid st) = updateTaskStatus L tid st"
| "perform L (Db_saveAllocation tid eid sc label) = saveAllocation L tid eid sc label"
| "perform L (Db_saveAllocationFailure tid why) = saveAllocationFailure L tid why"
| "perform L (Db_saveTaskExecution tid ms ok) = saveTaskExecution L tid ms ok"
| "perform L (Db_saveResourceSnapshot eid usage n) = saveResourceSnapshot L eid usage n"
| "perform L (Db_saveEdgeNode eid cap) = run_write L edge_sql (edge_binds eid cap)"
| "perform L (Db_saveDevice dev type) = saveDevice L dev type"
| "perform L (Db_saveTaskProfile sensor req) = saveTaskProfile L sensor req"

definition perform_all :: "'d sqlite \<Rightarrow> db_call list \<Rightarrow> 'd database \<Rightarrow> 'd database" where
  "perform_all L calls D = fold (\<lambda>call D. snd (perform L call D)) calls D"

lemma perform_saved_task: "perform L (saved_task t) = saveTask L (Some t)"
  by (simp add: saved_task_def saveTask_def fun_eq_iff)

section \<open>Reading\<close>

text \<open>One row, read through \<open>col\<close>, which gives the value of each column. A plain text column must not be
  null; \<open>text_or_empty\<close> is the guarded conversion.\<close>

definition text_column :: "'d sqlite \<Rightarrow> (nat \<Rightarrow> sql_value) \<Rightarrow> nat \<Rightarrow> fault + json" where
  "text_column L col i = (case column_text L (col i) of None \<Rightarrow> Inl NullDeref | Some s \<Rightarrow> Inr (J_Str s))"

definition text_or_empty :: "'d sqlite \<Rightarrow> (nat \<Rightarrow> sql_value) \<Rightarrow> nat \<Rightarrow> fault + json" where
  "text_or_empty L col i = Inr (J_Str (case column_text L (col i) of None \<Rightarrow> '''' | Some s \<Rightarrow> s))"

definition double_column :: "'d sqlite \<Rightarrow> (nat \<Rightarrow> sql_value) \<Rightarrow> nat \<Rightarrow> fault + json" where
  "double_column L col i = Inr (J_Num (column_double L (col i)))"

definition int64_column :: "'d sqlite \<Rightarrow> (nat \<Rightarrow> sql_value) \<Rightarrow> nat \<Rightarrow> fault + json" where
  "int64_column L col i = Inr (J_Int (column_int64 L (col i)))"

definition int_column :: "'d sqlite \<Rightarrow> (nat \<Rightarrow> sql_value) \<Rightarrow> nat \<Rightarrow> fault + json" where
  "int_column L col i = Inr (J_Int (column_int L (col i)))"

fun row_values :: "(string \<times> (fault + json)) list \<Rightarrow> fault + (string \<times> json) list" where
  "row_values [] = Inr []"
| "row_values ((k, v) # kvs) = bind_sum v (\<lambda>x. bind_sum (row_values kvs) (\<lambda>xs. Inr ((k, x) # xs)))"

definition row_object :: "(string \<times> (fault + json)) list \<Rightarrow> fault + json" where
  "row_object kvs = bind_sum (row_values kvs) (\<lambda>xs. Inr (build xs))"

text \<open>The loop over the rows: \<open>acc\<close> is the vector of results.\<close>

partial_function (option) read_rows ::
  "'d sqlite \<Rightarrow> handle \<Rightarrow> ((nat \<Rightarrow> sql_value) \<Rightarrow> fault + 'r) \<Rightarrow> 'r list \<Rightarrow> 'd \<Rightarrow> (fault + 'r list \<times> 'd) option" where
  "read_rows L st row acc c =
     (let rc = fst (sq_step L st c); c1 = snd (sq_step L st c)
      in if rc = SQLITE_ROW
         then (let r = row (\<lambda>i. sq_column L st i c1)
               in if isl r then Some (Inl (projl r)) else read_rows L st row (acc @ [projr r]) c1)
         else Some (Inr (acc, c1)))"

definition query :: "'d sqlite \<Rightarrow> string \<Rightarrow> (nat \<times> sql_value) list \<Rightarrow> ((nat \<Rightarrow> sql_value) \<Rightarrow> fault + 'r) \<Rightarrow> 'd database \<Rightarrow>
    (fault + 'r list \<times> 'd database) option" where
  "query L sql bs row D =
     (case prepareStatement L sql D of
        (None, D1) \<Rightarrow> Some (Inr ([], D1))
      | (Some st, D1) \<Rightarrow>
          (case read_rows L st row [] (bind_all L st bs (conn D1)) of
             None \<Rightarrow> None
           | Some (Inl f) \<Rightarrow> Some (Inl f)
           | Some (Inr (rs, c)) \<Rightarrow> Some (Inr (rs, D1\<lparr>conn := sq_finalize L st c\<rparr>))))"

text \<open>A task rebuilt from a row; the constructor reads the clock as \<open>now\<close>.\<close>

definition row_requirements :: "'d sqlite \<Rightarrow> (nat \<Rightarrow> sql_value) \<Rightarrow> requirements" where
  "row_requirements L col =
     \<lparr>cpu_percent = column_double L (col 3), ram_mb = column_double L (col 4), bandwidth_mbps = column_double L (col 5),
      deadline_ms = column_int64 L (col 6), priority = priority_of_int (column_int L (col 7))\<rparr>"

definition text_of :: "'d sqlite \<Rightarrow> (nat \<Rightarrow> sql_value) \<Rightarrow> nat \<Rightarrow> fault + string" where
  "text_of L col i = (case column_text L (col i) of None \<Rightarrow> Inl NullDeref | Some s \<Rightarrow> Inr s)"

definition get_task_sql :: string where
  "get_task_sql = ''SELECT task_id, device_id, sensor_type, cpu_percent, ram_mb, bandwidth_mbps, '' @
     ''deadline_ms, priority, status FROM tasks WHERE task_id = ?;''"

definition getTask :: "'d sqlite \<Rightarrow> int \<Rightarrow> string \<Rightarrow> 'd database \<Rightarrow> fault + json task option \<times> 'd database" where
  "getTask L now tid D =
     (case prepareStatement L get_task_sql D of
        (None, D1) \<Rightarrow> Inr (None, D1)
      | (Some st, D1) \<Rightarrow>
          (let (rc, c) = sq_step L st (bind_all L st [(1, SQL_Text (c_str tid))] (conn D1));
               col = (\<lambda>i. sq_column L st i c);
               D2 = D1\<lparr>conn := sq_finalize L st c\<rparr>
           in if rc = SQLITE_ROW
              then bind_sum (text_of L col 1) (\<lambda>dev.
                   bind_sum (text_of L col 2) (\<lambda>sensor.
                     Inr (Some (setStatus (status_of_int (column_int L (col 8)))
                                  (new_task now tid dev sensor (row_requirements L col) (J_Obj []))), D2)))
              else Inr (None, D2)))"

definition all_tasks_sql :: string where
  "all_tasks_sql = ''SELECT task_id, device_id, sensor_type, cpu_percent, ram_mb, bandwidth_mbps, '' @
     ''deadline_ms, priority, status FROM tasks;''"

definition task_row :: "'d sqlite \<Rightarrow> int \<Rightarrow> (nat \<Rightarrow> sql_value) \<Rightarrow> fault + json task" where
  "task_row L now col =
     bind_sum (text_of L col 0) (\<lambda>tid. bind_sum (text_of L col 1) (\<lambda>dev. bind_sum (text_of L col 2) (\<lambda>sensor.
       Inr (setStatus (status_of_int (column_int L (col 8)))
              (new_task now tid dev sensor (row_requirements L col) (J_Obj []))))))"

definition getAllTasks :: "'d sqlite \<Rightarrow> int \<Rightarrow> 'd database \<Rightarrow> (fault + json task list \<times> 'd database) option" where
  "getAllTasks L now = query L all_tasks_sql [] (task_row L now)"

definition history_sql :: string where
  "history_sql = ''SELECT task_id, edge_id, score, success, reason, allocated_at, strategy '' @
     ''FROM task_allocations ORDER BY id DESC LIMIT 1000;''"

definition history_row :: "'d sqlite \<Rightarrow> (nat \<Rightarrow> sql_value) \<Rightarrow> fault + json" where
  "history_row L col = row_object
     [(''task_id'', text_column L col 0), (''edge_id'', text_or_empty L col 1), (''score'', double_column L col 2),
      (''success'', Inr (J_Bool (column_int L (col 3) \<noteq> 0))), (''reason'', text_or_empty L col 4),
      (''allocated_at'', text_column L col 5), (''strategy'', text_or_empty L col 6)]"

definition getTaskAllocationHistory :: "'d sqlite \<Rightarrow> 'd database \<Rightarrow> (fault + json list \<times> 'd database) option" where
  "getTaskAllocationHistory L = query L history_sql [] (history_row L)"

definition edge_history_sql :: string where
  "edge_history_sql = ''SELECT cpu_percent, ram_mb, bandwidth_mbps, queue_length, recorded_at '' @
     ''FROM resource_history WHERE edge_id = ? ORDER BY id DESC LIMIT 1000;''"

definition edge_history_row :: "'d sqlite \<Rightarrow> (nat \<Rightarrow> sql_value) \<Rightarrow> fault + json" where
  "edge_history_row L col = row_object
     [(''cpu_percent'', double_column L col 0), (''ram_mb'', double_column L col 1), (''bandwidth_mbps'', double_column L col 2),
      (''queue_length'', int64_column L col 3), (''recorded_at'', text_column L col 4)]"

definition getEdgeResourceHistory :: "'d sqlite \<Rightarrow> string \<Rightarrow> 'd database \<Rightarrow> (fault + json list \<times> 'd database) option" where
  "getEdgeResourceHistory L eid = query L edge_history_sql [(1, SQL_Text (c_str eid))] (edge_history_row L)"

definition devices_sql :: string where
  "devices_sql = ''SELECT device_id, device_type FROM devices ORDER BY device_id;''"

definition device_row :: "'d sqlite \<Rightarrow> (nat \<Rightarrow> sql_value) \<Rightarrow> fault + json" where
  "device_row L col = row_object
     [(''device_id'', text_column L col 0), (''device_type'', text_column L col 1), (''status'', Inr (J_Str ''online''))]"

definition getDevicesJson :: "'d sqlite \<Rightarrow> 'd database \<Rightarrow> (fault + json list \<times> 'd database) option" where
  "getDevicesJson L = query L devices_sql [] (device_row L)"

definition edge_nodes_sql :: string where
  "edge_nodes_sql = ''SELECT edge_id, cpu_capacity, ram_capacity_mb, bandwidth_capacity_mbps, latency_ms '' @
     ''FROM edge_nodes ORDER BY edge_id;''"

definition edge_node_row :: "'d sqlite \<Rightarrow> (nat \<Rightarrow> sql_value) \<Rightarrow> fault + json" where
  "edge_node_row L col = row_object
     [(''edge_id'', text_column L col 0), (''cpu_capacity'', double_column L col 1), (''ram_capacity_mb'', double_column L col 2),
      (''bandwidth_capacity_mbps'', double_column L col 3), (''latency_ms'', int64_column L col 4), (''status'', Inr (J_Str ''online''))]"

definition getEdgeNodesJson :: "'d sqlite \<Rightarrow> 'd database \<Rightarrow> (fault + json list \<times> 'd database) option" where
  "getEdgeNodesJson L = query L edge_nodes_sql [] (edge_node_row L)"

definition last_allocation :: "string \<Rightarrow> string" where
  "last_allocation column =
     ''COALESCE((SELECT a.'' @ column @ '' FROM task_allocations a WHERE a.task_id=t.task_id '' @
     ''AND a.success=1 ORDER BY a.id DESC LIMIT 1), '' @ [CHR 0x27, CHR 0x27] @ '') AS '' @ column"

definition tasks_sql :: string where
  "tasks_sql = ''SELECT t.task_id, t.device_id, t.sensor_type, t.cpu_percent, t.ram_mb, '' @
     ''t.bandwidth_mbps, t.deadline_ms, t.priority, t.status, t.created_at, '' @
     last_allocation ''edge_id'' @ '', '' @ last_allocation ''strategy'' @ '', '' @
     ''COALESCE((SELECT e.executed_at FROM task_execution e WHERE e.task_id=t.task_id '' @
     ''ORDER BY e.id DESC LIMIT 1), '' @ [CHR 0x27, CHR 0x27] @ '') AS executed_at '' @
     ''FROM tasks t ORDER BY t.rowid DESC LIMIT ?;''"

definition task_fields :: "'d sqlite \<Rightarrow> (nat \<Rightarrow> sql_value) \<Rightarrow> (string \<times> (fault + json)) list" where
  "task_fields L col =
     [(''task_id'', text_column L col 0), (''device_id'', text_column L col 1), (''sensor_type'', text_column L col 2),
      (''cpu_percent'', double_column L col 3), (''ram_mb'', double_column L col 4), (''bandwidth_mbps'', double_column L col 5),
      (''deadline_ms'', int64_column L col 6), (''priority'', int_column L col 7), (''status'', int_column L col 8)]"

definition tasks_row :: "'d sqlite \<Rightarrow> (nat \<Rightarrow> sql_value) \<Rightarrow> fault + json" where
  "tasks_row L col = row_object (task_fields L col @
     [(''created_at'', text_column L col 9), (''edge_id'', text_column L col 10), (''allocation_strategy'', text_column L col 11),
      (''executed_at'', text_column L col 12)])"

text \<open>\<open>static_cast<sqlite3_int64>(limit)\<close> reads the 64 bits as a signed number.\<close>

definition getTasksJson :: "'d sqlite \<Rightarrow> u64 \<Rightarrow> 'd database \<Rightarrow> (fault + json list \<times> 'd database) option" where
  "getTasksJson L n = query L tasks_sql [(1, SQL_Int (sint n))] (tasks_row L)"

definition active_sql :: string where
  "active_sql = ''SELECT t.task_id, t.device_id, t.sensor_type, t.cpu_percent, t.ram_mb, '' @
     ''t.bandwidth_mbps, t.deadline_ms, t.priority, t.status, '' @ last_allocation ''edge_id'' @ '' '' @
     ''FROM tasks t WHERE t.status IN (1,2) ORDER BY t.rowid DESC LIMIT 500;''"

definition active_row :: "'d sqlite \<Rightarrow> (nat \<Rightarrow> sql_value) \<Rightarrow> fault + json" where
  "active_row L col = row_object (task_fields L col @ [(''edge_id'', text_column L col 9)])"

definition getActiveTasksJson :: "'d sqlite \<Rightarrow> 'd database \<Rightarrow> (fault + json list \<times> 'd database) option" where
  "getActiveTasksJson L = query L active_sql [] (active_row L)"

text \<open>A text of SQL between quotes.\<close>

definition quoted :: "string \<Rightarrow> string" where
  "quoted s = CHR 0x27 # s @ [CHR 0x27]"

definition activities_sql :: string where
  "activities_sql = ''SELECT * FROM ('' @
     ''SELECT '' @ quoted ''allocation'' @ '' AS type, '' @ quoted ''Task '' @ '' || task_id || '' @ quoted '' allocated to '' @
     '' || COALESCE(edge_id,'' @ quoted '''' @ '') AS message, allocated_at AS occurred_at '' @
     ''FROM task_allocations WHERE success=1 '' @
     ''UNION ALL '' @
     ''SELECT '' @ quoted ''execution'' @ '' AS type, '' @ quoted ''Task '' @ '' || task_id || CASE WHEN success=1 THEN '' @
     quoted '' completed'' @ '' ELSE '' @ quoted '' failed'' @ '' END AS message, executed_at AS occurred_at '' @
     ''FROM task_execution '' @
     '') ORDER BY occurred_at DESC LIMIT ?;''"

definition activity_row :: "'d sqlite \<Rightarrow> (nat \<Rightarrow> sql_value) \<Rightarrow> fault + json" where
  "activity_row L col = row_object
     [(''type'', text_column L col 0), (''message'', text_column L col 1), (''occurred_at'', text_column L col 2)]"

definition getActivitiesJson :: "'d sqlite \<Rightarrow> u64 \<Rightarrow> 'd database \<Rightarrow> (fault + json list \<times> 'd database) option" where
  "getActivitiesJson L n = query L activities_sql [(1, SQL_Int (sint n))] (activity_row L)"

definition alerts_sql :: string where
  "alerts_sql = ''SELECT edge_id, cpu_percent, ram_mb, queue_length, recorded_at '' @
     ''FROM resource_history WHERE cpu_percent >= 80 '' @ ''ORDER BY id DESC LIMIT 20;''"

definition alert_row :: "'d sqlite \<Rightarrow> (nat \<Rightarrow> sql_value) \<Rightarrow> fault + json" where
  "alert_row L col = bind_sum (text_of L col 0) (\<lambda>eid. row_object
     [(''type'', Inr (J_Str ''high_cpu'')), (''edge_id'', Inr (J_Str eid)), (''cpu_percent'', double_column L col 1),
      (''ram_mb'', double_column L col 2), (''queue_length'', int64_column L col 3), (''occurred_at'', text_column L col 4),
      (''message'', Inr (J_Str (''High CPU usage on '' @ eid)))])"

definition getAlertsJson :: "'d sqlite \<Rightarrow> 'd database \<Rightarrow> (fault + json list \<times> 'd database) option" where
  "getAlertsJson L = query L alerts_sql [] (alert_row L)"

definition resource_history_sql :: string where
  "resource_history_sql = ''SELECT edge_id, cpu_percent, ram_mb, bandwidth_mbps, queue_length, recorded_at '' @
     ''FROM resource_history ORDER BY id DESC LIMIT ?;''"

definition resource_history_row :: "'d sqlite \<Rightarrow> (nat \<Rightarrow> sql_value) \<Rightarrow> fault + json" where
  "resource_history_row L col = row_object
     [(''edge_id'', text_column L col 0), (''cpu_percent'', double_column L col 1), (''ram_mb'', double_column L col 2),
      (''bandwidth_mbps'', double_column L col 3), (''queue_length'', int64_column L col 4), (''recorded_at'', text_column L col 5)]"

definition getResourceHistoryJson :: "'d sqlite \<Rightarrow> u64 \<Rightarrow> 'd database \<Rightarrow> (fault + json list \<times> 'd database) option" where
  "getResourceHistoryJson L n = query L resource_history_sql [(1, SQL_Int (sint n))] (resource_history_row L)"

definition metrics_sql :: string where
  "metrics_sql = ''SELECT '' @ ''  (SELECT COUNT(*) FROM tasks) AS total_tasks,'' @
     ''  (SELECT COUNT(*) FROM task_allocations WHERE success = 1) AS successful_allocations,'' @
     ''  (SELECT COUNT(*) FROM task_allocations WHERE success = 0) AS failed_allocations,'' @
     ''  (SELECT AVG(execution_time_ms) FROM task_execution) AS avg_execution_ms;''"

definition getSystemMetrics :: "'d sqlite \<Rightarrow> 'd database \<Rightarrow> json \<times> 'd database" where
  "getSystemMetrics L D =
     (case prepareStatement L metrics_sql D of
        (None, D1) \<Rightarrow> (J_Null, D1)
      | (Some st, D1) \<Rightarrow>
          (let (rc, c) = sq_step L st (conn D1);
               metrics = (if rc = SQLITE_ROW
                  then build [(''total_tasks'', J_Int (column_int64 L (sq_column L st 0 c))),
                              (''successful_allocations'', J_Int (column_int64 L (sq_column L st 1 c))),
                              (''failed_allocations'', J_Int (column_int64 L (sq_column L st 2 c))),
                              (''avg_execution_ms'', J_Num (column_double L (sq_column L st 3 c)))]
                  else J_Null)
           in (metrics, D1\<lparr>conn := sq_finalize L st c\<rparr>)))"

end
