(* ===== verification/Database_Properties.thy ===== *)
theory Database_Properties
  imports Database_Manager
begin

text \<open>
  What the database manager keeps and returns: no prepared statement stays open, every loop over rows
  ends, every call stores its fields in the columns of the same names, and a saved task is read back.
  The facts rest on the promises of SQLite stated in \<open>Sqlite\<close>.
\<close>

section \<open>Statements\<close>

lemma bind_all_live: "statements_ok L live \<Longrightarrow> live (bind_all L st bs c) = live c"
  by (induction bs arbitrary: c) (auto simp: bind_all_def statements_okD)

lemma prepare_live:
  assumes "statements_ok L live" "prepareStatement L sql D = (st, D1)"
  shows "case st of None \<Rightarrow> live (conn D1) = live (conn D)
    | Some s \<Rightarrow> s \<notin> live (conn D) \<and> live (conn D1) = insert s (live (conn D))"
proof -
  obtain rc st' c where p: "sq_prepare L (db_handle D) sql (conn D) = (rc, st', c)" by (metis prod_cases3)
  then have "st = (if rc \<noteq> SQLITE_OK then None else st')" "conn D1 = c" using assms(2) by (auto simp: prepareStatement_def)
  then show ?thesis
    using statements_okD(1) [OF assms(1), of "db_handle D" sql "conn D" rc c]
      statements_okD(2) [OF assms(1), of "db_handle D" sql "conn D" rc _ c] p
    by (cases st') (auto split: if_splits)
qed

lemma run_write_live:
  assumes "statements_ok L live"
  shows "live (conn (snd (run_write L sql bs D))) = live (conn D)"
proof -
  obtain st D1 where p: "prepareStatement L sql D = (st, D1)" by (metis prod.exhaust)
  note l = prepare_live [OF assms p]
  show ?thesis
  proof (cases st)
    case None
    then show ?thesis using p l by (simp add: run_write_def)
  next
    case (Some s)
    obtain rc c where s: "sq_step L s (bind_all L s bs (conn D1)) = (rc, c)" by (metis prod.exhaust)
    have "live c = live (conn D1)"
      using statements_okD(4) [OF assms, of s "bind_all L s bs (conn D1)"] bind_all_live [OF assms] s by simp
    then show ?thesis using p l Some s statements_okD(5) [OF assms] by (auto simp: run_write_def)
  qed
qed

lemma perform_writes:
  obtains sql bs where "perform L call = run_write L sql bs"
  by (cases call) (auto simp: updateTaskStatus_def saveAllocation_def saveAllocationFailure_def saveTaskExecution_def
      saveResourceSnapshot_def saveDevice_def saveTaskProfile_def fun_eq_iff)

lemma perform_live: "statements_ok L live \<Longrightarrow> live (conn (snd (perform L call D))) = live (conn D)"
  using perform_writes [of L call] run_write_live by metis

lemma perform_all_live: "statements_ok L live \<Longrightarrow> live (conn (perform_all L calls D)) = live (conn D)"
  by (induction calls arbitrary: D) (auto simp: perform_all_def perform_live)

section \<open>Loops over rows\<close>

lemma read_rows_total:
  assumes "statements_ok L live" "rows_finite L pending"
  shows "\<exists>r. read_rows L st row acc c = Some r \<and> (\<forall>rs c'. r = Inr (rs, c') \<longrightarrow> live c' = live c)"
proof (induction "pending st c" arbitrary: acc c rule: less_induct)
  case less
  obtain rc c1 where s: "sq_step L st c = (rc, c1)" by (metis prod.exhaust)
  have l: "live c1 = live c" using statements_okD(4) [OF assms(1), of st c] s by simp
  show ?case
  proof (cases "rc = SQLITE_ROW")
    case True
    then have "pending st c1 < pending st c" using assms(2) s by (simp add: rows_finite_def)
    then have ih: "\<exists>r. read_rows L st row acc' c1 = Some r \<and> (\<forall>rs c'. r = Inr (rs, c') \<longrightarrow> live c' = live c)" for acc'
      using less l by metis
    then show ?thesis using True s by (subst read_rows.simps) (auto simp: Let_def)
  next
    case False
    then show ?thesis using s l by (subst read_rows.simps) (simp add: Let_def)
  qed
qed

lemma query_total:
  assumes "statements_ok L live" "rows_finite L pending"
  shows "\<exists>r. query L sql bs row D = Some r \<and> (\<forall>rs D'. r = Inr (rs, D') \<longrightarrow> live (conn D') = live (conn D))"
proof -
  obtain st D1 where p: "prepareStatement L sql D = (st, D1)" by (metis prod.exhaust)
  note l = prepare_live [OF assms(1) p]
  show ?thesis
  proof (cases st)
    case None
    then show ?thesis using p l by (simp add: query_def)
  next
    case (Some s)
    obtain r where r: "read_rows L s row [] (bind_all L s bs (conn D1)) = Some r"
      "\<forall>rs c'. r = Inr (rs, c') \<longrightarrow> live c' = live (bind_all L s bs (conn D1))"
      using read_rows_total [OF assms] by blast
    then show ?thesis
      using p Some l bind_all_live [OF assms(1)] statements_okD(5) [OF assms(1)]
      by (cases r) (auto simp: query_def)
  qed
qed

text \<open>The operations that return a list of JSON objects.\<close>

definition json_queries :: "'d sqlite \<Rightarrow> string \<Rightarrow> u64 \<Rightarrow> ('d database \<Rightarrow> (fault + json list \<times> 'd database) option) list" where
  "json_queries L eid n =
     [getTaskAllocationHistory L, getEdgeResourceHistory L eid, getDevicesJson L, getEdgeNodesJson L, getTasksJson L n,
      getActiveTasksJson L, getActivitiesJson L n, getAlertsJson L, getResourceHistoryJson L n]"

lemma json_queries_query: "q \<in> set (json_queries L eid n) \<Longrightarrow> \<exists>sql bs row. q = query L sql bs row"
  by (auto simp: json_queries_def getTaskAllocationHistory_def getEdgeResourceHistory_def getDevicesJson_def getEdgeNodesJson_def
      getTasksJson_def getActiveTasksJson_def getActivitiesJson_def getAlertsJson_def getResourceHistoryJson_def)

lemma getTask_live:
  assumes "statements_ok L live" "getTask L now tid D = Inr (t, D')"
  shows "live (conn D') = live (conn D)"
proof -
  obtain st D1 where p: "prepareStatement L get_task_sql D = (st, D1)" by (metis prod.exhaust)
  note l = prepare_live [OF assms(1) p]
  show ?thesis
  proof (cases st)
    case None
    then show ?thesis using assms(2) p l by (simp add: getTask_def)
  next
    case (Some s)
    obtain rc c where s: "sq_step L s (bind_all L s [(1, SQL_Text (c_str tid))] (conn D1)) = (rc, c)" by (metis prod.exhaust)
    have "live c = live (conn D1)"
      using statements_okD(4) [OF assms(1), of s "bind_all L s [(1, SQL_Text (c_str tid))] (conn D1)"] bind_all_live [OF assms(1)] s by simp
    moreover have "conn D' = sq_finalize L s c"
      using assms(2) p Some s by (auto simp: getTask_def Let_def bind_sum_Inr split: if_splits)
    ultimately show ?thesis using l Some statements_okD(5) [OF assms(1)] by auto
  qed
qed


text \<open>C31: every query of the web interface returns: when each statement has finitely many rows, the loop over
  them ends, with the rows or with the fault of a null text.\<close>

theorem queries_return:
  assumes "statements_ok L live" "rows_finite L pending" "q \<in> set (json_queries L eid n)"
  shows "\<exists>r. q D = Some r"
  using query_total [OF assms(1,2)] json_queries_query [OF assms(3)] by metis

section \<open>What a call stores\<close>

text \<open>The columns a call is meant to fill, with their values. The literals of the texts are not
  parameters, so they are not listed.\<close>

fun record_of :: "db_call \<Rightarrow> (string \<times> sql_value) list" where
  "record_of (Db_saveTask tid dev sensor req st) =
     [(''task_id'', SQL_Text (c_str tid)), (''device_id'', SQL_Text (c_str dev)), (''sensor_type'', SQL_Text (c_str sensor)),
      (''cpu_percent'', SQL_Real (cpu_percent req)), (''ram_mb'', SQL_Real (ram_mb req)),
      (''bandwidth_mbps'', SQL_Real (bandwidth_mbps req)), (''deadline_ms'', SQL_Int (deadline_ms req)),
      (''priority'', SQL_Int (priority_to_int (priority req))), (''status'', SQL_Int (status_to_int st))]"
| "record_of (Db_updateTaskStatus tid st) = []"
| "record_of (Db_saveAllocation tid eid sc label) =
     [(''task_id'', SQL_Text (c_str tid)), (''edge_id'', SQL_Text (c_str eid)), (''score'', SQL_Real sc),
      (''strategy'', SQL_Text (c_str label))]"
| "record_of (Db_saveAllocationFailure tid why) =
     [(''task_id'', SQL_Text (c_str tid)), (''reason'', SQL_Text (c_str why))]"
| "record_of (Db_saveTaskExecution tid ms ok) =
     [(''task_id'', SQL_Text (c_str tid)), (''execution_time_ms'', SQL_Int ms), (''success'', SQL_Int (of_bool ok))]"
| "record_of (Db_saveResourceSnapshot eid usage n) =
     [(''edge_id'', SQL_Text (c_str eid)), (''cpu_percent'', SQL_Real (used_cpu_percent usage)),
      (''ram_mb'', SQL_Real (used_ram_mb usage)), (''bandwidth_mbps'', SQL_Real (used_bandwidth_mbps usage)),
      (''queue_length'', SQL_Int n)]"
| "record_of (Db_saveEdgeNode eid cap) =
     [(''edge_id'', SQL_Text (c_str eid)), (''cpu_capacity'', SQL_Real (cap_cpu_percent cap)),
      (''ram_capacity_mb'', SQL_Real (cap_ram_mb cap)), (''bandwidth_capacity_mbps'', SQL_Real (cap_bandwidth_mbps cap)),
      (''latency_ms'', SQL_Int (latency_ms cap))]"
| "record_of (Db_saveDevice dev type) =
     [(''device_id'', SQL_Text (c_str dev)), (''device_type'', SQL_Text (c_str type))]"
| "record_of (Db_saveTaskProfile sensor req) =
     [(''sensor_type'', SQL_Text (c_str sensor)), (''cpu_percent'', SQL_Real (cpu_percent req)), (''ram_mb'', SQL_Real (ram_mb req)),
      (''bandwidth_mbps'', SQL_Real (bandwidth_mbps req)), (''deadline_ms'', SQL_Int (deadline_ms req)),
      (''priority'', SQL_Int (priority_to_int (priority req)))]"

text \<open>The columns the texts give a parameter to, by evaluation of the texts.\<close>

lemmas text_eval = bound_columns_def insert_items_def list_items_def upto_def after_def trim_def is_blank_def placeholders_def

lemma device_columns: "bound_columns device_sql = [''device_id'', ''device_type'']" "placeholders device_sql = 2"
  by (simp_all add: device_sql_def text_eval)

lemma task_columns: "bound_columns task_sql = [''task_id'', ''device_id'', ''sensor_type'', ''cpu_percent'', ''ram_mb'', ''bandwidth_mbps'',
    ''deadline_ms'', ''priority'', ''status'']" "placeholders task_sql = 9"
  by (simp_all add: task_sql_def text_eval)

lemma other_columns:
  "bound_columns profile_sql = [''sensor_type'', ''cpu_percent'', ''ram_mb'', ''bandwidth_mbps'', ''deadline_ms'', ''priority'']"
  "bound_columns edge_sql = [''edge_id'', ''cpu_capacity'', ''ram_capacity_mb'', ''bandwidth_capacity_mbps'', ''latency_ms'']"
  "bound_columns allocation_sql = [''task_id'', ''edge_id'', ''score'', ''strategy'']"
  "bound_columns allocation_failure_sql = [''task_id'', ''reason'']"
  "bound_columns execution_sql = [''task_id'', ''execution_time_ms'', ''success'']"
  "bound_columns resource_sql = [''edge_id'', ''cpu_percent'', ''ram_mb'', ''bandwidth_mbps'', ''queue_length'']"
  by (simp_all add: profile_sql_def edge_sql_def allocation_sql_def allocation_failure_sql_def execution_sql_def resource_sql_def text_eval)

lemma other_placeholders:
  "placeholders profile_sql = 6" "placeholders edge_sql = 5" "placeholders allocation_sql = 4"
  "placeholders allocation_failure_sql = 2" "placeholders execution_sql = 3" "placeholders resource_sql = 5"
  by (simp_all add: profile_sql_def edge_sql_def allocation_sql_def allocation_failure_sql_def execution_sql_def resource_sql_def text_eval)

lemmas columns = device_columns task_columns other_columns other_placeholders

lemma upt_eval: "[Suc 0..<3] = [1, 2]" "[Suc 0..<4] = [1, 2, 3]" "[Suc 0..<5] = [1, 2, 3, 4]" "[Suc 0..<6] = [1, 2, 3, 4, 5]"
  "[Suc 0..<7] = [1, 2, 3, 4, 5, 6]" "[Suc 0..<10] = [1, 2, 3, 4, 5, 6, 7, 8, 9]"
  by (simp_all add: upt_rec)

text \<open>every call that inserts a row binds each parameter of its text exactly once, in order, and the
  column the text gives that parameter to is the column the value belongs in.\<close>

theorem stored_record:
  assumes "\<And>tid st. call \<noteq> Db_updateTaskStatus tid st"
  shows "\<exists>sql bs. perform L call = run_write L sql bs \<and> map fst bs = [1..<Suc (placeholders sql)] \<and>
    zip (bound_columns sql) (map snd bs) = record_of call"
proof -
  have *: "\<exists>sql' bs'. run_write L sql bs = run_write L sql' bs' \<and> map fst bs' = [1..<Suc (placeholders sql')] \<and>
      zip (bound_columns sql') (map snd bs') = r"
    if "map fst bs = [1..<Suc (placeholders sql)]" "zip (bound_columns sql) (map snd bs) = r" for sql bs r
    using that by blast
  show ?thesis
    using assms
    by (cases call; simp only: perform.simps record_of.simps saveAllocation_def saveAllocationFailure_def saveTaskExecution_def
        saveResourceSnapshot_def saveDevice_def saveTaskProfile_def task_binds_def edge_binds_def; intro *)
      (simp_all add: columns upt_eval of_bool_def del: upt_Suc)
qed

section \<open>The migration\<close>

text \<open>the schemas can be created on a database of an older build, where the migration adds a column, and
  on any other, where the migration fails because the column is there: exactly the failures of the
  migration whose message does not say so make the creation fail, and a failure without a message does.\<close>

theorem schema_migration:
  assumes "execute_all L schemas D = (True, D1)" "sq_exec L (db_handle D1) migration_sql (conn D1) = (rc, msg, c)"
  shows "fst (createSchemas L D) \<longleftrightarrow> rc = SQLITE_OK \<or> (\<exists>a b. msg = Some (a @ ''duplicate column name'' @ b))"
proof -
  have u: "\<not> contains_sub ''duplicate column name'' ''unknown error''" by (simp add: contains_sub_def)
  have "fst (createSchemas L D) \<longleftrightarrow> rc = SQLITE_OK \<or>
      contains_sub ''duplicate column name'' (case msg of None \<Rightarrow> ''unknown error'' | Some m \<Rightarrow> m)"
    using assms by (auto simp: createSchemas_def Let_def contains_sub_def)
  then show ?thesis using u by (cases msg) (auto simp only: option.case option.inject contains_sub_iff)
qed

section \<open>Saving and loading a task\<close>

text \<open>\<open>tbl\<close> is the table of tasks: the row under a key, by column. Inserting a row replaces the row of its
  key by the values of the bound columns; selecting by a key yields the row of that key, column by
  column in the order of the text.\<close>

definition task_table_ok :: "'d sqlite \<Rightarrow> ('d \<Rightarrow> string \<Rightarrow> (string \<Rightarrow> sql_value option) option) \<Rightarrow> bool" where
  "task_table_ok L tbl \<longleftrightarrow>
     (\<forall>h c st c1 bs rc c2 key. sq_prepare L h task_sql c = (SQLITE_OK, Some st, c1) \<and>
        map fst bs = [1..<Suc (placeholders task_sql)] \<and> sq_step L st (bind_all L st bs c1) = (rc, c2) \<and> rc = SQLITE_DONE \<and>
        map_of (zip (bound_columns task_sql) (map snd bs)) ''task_id'' = Some (SQL_Text key) \<longrightarrow>
        tbl (sq_finalize L st c2) = (tbl c)(key \<mapsto> map_of (zip (bound_columns task_sql) (map snd bs)))) \<and>
     (\<forall>h c st c1 key rc c2 row. sq_prepare L h get_task_sql c = (SQLITE_OK, Some st, c1) \<and>
        sq_step L st (bind_all L st [(1, SQL_Text key)] c1) = (rc, c2) \<and> tbl c key = Some row \<longrightarrow>
        rc = SQLITE_ROW \<and> (\<forall>i<length (select_columns get_task_sql). \<forall>v. row (select_columns get_task_sql ! i) = Some v \<longrightarrow> sq_column L st i c2 = v))"

lemma get_task_columns: "select_columns get_task_sql = [''task_id'', ''device_id'', ''sensor_type'', ''cpu_percent'', ''ram_mb'',
    ''bandwidth_mbps'', ''deadline_ms'', ''priority'', ''status'']"
  by (simp add: select_columns_def get_task_sql_def text_eval)

lemma c_str_id: "CHR 0x00 \<notin> set s \<Longrightarrow> c_str s = s"
  by (simp add: c_str_def takeWhile_eq_all_conv) metis

lemma prepareStatement_Some:
  "prepareStatement L sql D = (Some st, D1) \<longleftrightarrow>
   (\<exists>c. sq_prepare L (db_handle D) sql (conn D) = (SQLITE_OK, Some st, c) \<and> D1 = D\<lparr>conn := c\<rparr>)"
  by (auto simp: prepareStatement_def split: prod.splits if_splits)

lemma saveTask_table:
  assumes "task_table_ok L tbl" "saveTask L (Some t) D = (True, D1)"
  shows "tbl (conn D1) (c_str (task_id t)) = Some (map_of (record_of (saved_task t)))"
proof -
  let ?bs = "task_binds (task_id t) (device_id t) (sensor_type t) (reqs t) (status t)"
  obtain st D2 where p: "prepareStatement L task_sql D = (Some st, D2)"
    using assms(2) by (auto simp: saveTask_def run_write_def split: prod.splits option.splits)
  then obtain c1 where c1: "sq_prepare L (db_handle D) task_sql (conn D) = (SQLITE_OK, Some st, c1)" "D2 = D\<lparr>conn := c1\<rparr>"
    by (auto simp: prepareStatement_Some)
  obtain rc c2 where s: "sq_step L st (bind_all L st ?bs c1) = (rc, c2)" by (metis prod.exhaust)
  have D1: "rc = SQLITE_DONE" "conn D1 = sq_finalize L st c2" using assms(2) p c1 s by (auto simp: saveTask_def run_write_def)
  have z: "zip (bound_columns task_sql) (map snd ?bs) = record_of (saved_task t)"
    by (simp add: columns task_binds_def saved_task_def)
  have "map fst ?bs = [1..<Suc (placeholders task_sql)]" by (simp add: columns task_binds_def upt_eval del: upt_Suc)
  moreover have "map_of (record_of (saved_task t)) ''task_id'' = Some (SQL_Text (c_str (task_id t)))" by (simp add: saved_task_def)
  ultimately have "tbl (sq_finalize L st c2) = (tbl (conn D))(c_str (task_id t) \<mapsto> map_of (record_of (saved_task t)))"
    using assms(1) c1(1) s D1(1) unfolding task_table_ok_def z [symmetric] by blast
  then show ?thesis using D1(2) by simp
qed


section \<open>A small library that keeps the promises\<close>

text \<open>It holds a table of tasks and the prepared statements with their parameters and their current row,
  and knows the two texts about tasks; any other statement is done in one step. The migration fails as on
  a new database.\<close>

record mem =
  mem_rows :: "string \<Rightarrow> (string \<Rightarrow> sql_value option) option"
  mem_stmts :: "handle \<Rightarrow> (string \<times> (nat \<Rightarrow> sql_value option) \<times> (string \<Rightarrow> sql_value option) option) option"
  mem_next :: handle

definition mem_insert :: "(nat \<Rightarrow> sql_value option) \<Rightarrow> mem \<Rightarrow> mem" where
  "mem_insert b c =
     (let row = map_of (zip (bound_columns task_sql) (map (\<lambda>i. the (b i)) [1..<10]))
      in case row ''task_id'' of Some (SQL_Text k) \<Rightarrow> c\<lparr>mem_rows := (mem_rows c)(k \<mapsto> row)\<rparr> | _ \<Rightarrow> c)"

definition mem_step :: "handle \<Rightarrow> mem \<Rightarrow> int \<times> mem" where
  "mem_step st c =
     (case mem_stmts c st of None \<Rightarrow> (21, c)
      | Some (sql, b, cur) \<Rightarrow>
          if sql = task_sql then (SQLITE_DONE, mem_insert b c)
          else if sql = get_task_sql \<and> cur = None then
            (case b 1 of Some (SQL_Text k) \<Rightarrow>
               (case mem_rows c k of None \<Rightarrow> (SQLITE_DONE, c)
                | Some row \<Rightarrow> (SQLITE_ROW, c\<lparr>mem_stmts := (mem_stmts c)(st \<mapsto> (sql, b, Some row))\<rparr>))
             | _ \<Rightarrow> (SQLITE_DONE, c))
          else (SQLITE_DONE, c))"

definition mem_lib :: "mem sqlite" where
  "mem_lib =
     \<lparr>sq_open = (\<lambda>path c. (SQLITE_OK, Some 0, c)), sq_close = (\<lambda>h c. (SQLITE_OK, c)),
      sq_exec = (\<lambda>h sql c. if sql = migration_sql then (1, Some ''duplicate column name: strategy'', c) else (SQLITE_OK, None, c)),
      sq_prepare = (\<lambda>h sql c. (SQLITE_OK, Some (mem_next c),
         c\<lparr>mem_stmts := (mem_stmts c)(mem_next c \<mapsto> (sql, Map.empty, None)), mem_next := Suc (mem_next c)\<rparr>)),
      sq_bind = (\<lambda>st i v c. case mem_stmts c st of None \<Rightarrow> c
         | Some (sql, b, cur) \<Rightarrow> c\<lparr>mem_stmts := (mem_stmts c)(st \<mapsto> (sql, b(i \<mapsto> v), cur))\<rparr>),
      sq_step = mem_step,
      sq_column = (\<lambda>st i c. case mem_stmts c st of Some (sql, b, Some row) \<Rightarrow>
         (case row (select_columns get_task_sql ! i) of None \<Rightarrow> SQL_Null | Some v \<Rightarrow> v) | _ \<Rightarrow> SQL_Null),
      sq_finalize = (\<lambda>st c. c\<lparr>mem_stmts := (mem_stmts c)(st := None)\<rparr>),
      column_double = (\<lambda>v. case v of SQL_Real x \<Rightarrow> x | _ \<Rightarrow> 0),
      column_int64 = (\<lambda>v. case v of SQL_Int n \<Rightarrow> n | _ \<Rightarrow> 0), column_int = (\<lambda>v. case v of SQL_Int n \<Rightarrow> n | _ \<Rightarrow> 0),
      column_text = (\<lambda>v. case v of SQL_Text s \<Rightarrow> Some s | _ \<Rightarrow> None)\<rparr>"

definition mem_live :: "mem \<Rightarrow> handle set" where
  "mem_live c = {st. st < mem_next c \<and> mem_stmts c st \<noteq> None}"

definition mem_pending :: "handle \<Rightarrow> mem \<Rightarrow> nat" where
  "mem_pending st c = (case mem_stmts c st of Some (sql, b, None) \<Rightarrow> 1 | _ \<Rightarrow> 0)"

lemma mem_fields [simp]:
  "sq_step mem_lib = mem_step" "sq_exec mem_lib h sql c =
     (if sql = migration_sql then (1, Some ''duplicate column name: strategy'', c) else (SQLITE_OK, None, c))"
  "sq_prepare mem_lib h sql c = (SQLITE_OK, Some (mem_next c),
     c\<lparr>mem_stmts := (mem_stmts c)(mem_next c \<mapsto> (sql, Map.empty, None)), mem_next := Suc (mem_next c)\<rparr>)"
  "sq_bind mem_lib st i v c = (case mem_stmts c st of None \<Rightarrow> c
     | Some (sql, b, cur) \<Rightarrow> c\<lparr>mem_stmts := (mem_stmts c)(st \<mapsto> (sql, b(i \<mapsto> v), cur))\<rparr>)"
  "mem_stmts c st = Some (sql, b, Some row) \<Longrightarrow> sq_column mem_lib st i c =
     (case row (select_columns get_task_sql ! i) of None \<Rightarrow> SQL_Null | Some v \<Rightarrow> v)"
  "sq_finalize mem_lib st c = c\<lparr>mem_stmts := (mem_stmts c)(st := None)\<rparr>" "sq_close mem_lib h c = (SQLITE_OK, c)"
  by (simp_all add: mem_lib_def)

lemma mem_insert_frame [simp]: "mem_stmts (mem_insert b c) = mem_stmts c" "mem_next (mem_insert b c) = mem_next c"
  by (simp_all add: mem_insert_def Let_def split: option.splits sql_value.splits)

lemma mem_step_live: "mem_live (snd (mem_step st c)) = mem_live c"
  by (auto simp: mem_step_def mem_live_def split: option.splits sql_value.splits)

lemma mem_statements_ok: "statements_ok mem_lib mem_live"
  unfolding statements_ok_def
proof (intro conjI allI)
  show "mem_live (snd (sq_step mem_lib st c)) = mem_live c" for st c using mem_step_live by simp
qed (auto simp: mem_live_def split: option.splits)

lemma mem_rows_finite: "rows_finite mem_lib mem_pending"
  by (auto simp: rows_finite_def mem_step_def mem_pending_def SQLITE_ROW_def SQLITE_DONE_def split: option.splits sql_value.splits if_splits)

lemma mem_columns_ok: "columns_ok mem_lib"
  by (simp add: columns_ok_def mem_lib_def)

lemma mem_bind_all:
  "mem_stmts c st = Some (sql, b, cur) \<Longrightarrow>
   bind_all mem_lib st bs c = c\<lparr>mem_stmts := (mem_stmts c)(st \<mapsto> (sql, b ++ map_of (rev bs), cur))\<rparr>"
proof (induction bs arbitrary: b c)
  case Nil
  then show ?case by (simp add: bind_all_def fun_upd_idem)
next
  case (Cons x bs)
  obtain i v where x: "x = (i, v)" by fastforce
  define b' where "b' = b(i \<mapsto> v)"
  define c' where "c' = c\<lparr>mem_stmts := (mem_stmts c)(st \<mapsto> (sql, b', cur))\<rparr>"
  have b': "b' ++ map_of (rev bs) = b ++ map_of (rev (x # bs))"
    unfolding x b'_def by (rule ext) (simp add: map_add_def split: option.split)
  have c': "mem_stmts c' st = Some (sql, b', cur)" by (simp add: c'_def)
  have "bind_all mem_lib st (x # bs) c = bind_all mem_lib st bs c'" using Cons.prems by (simp add: x bind_all_def c'_def b'_def)
  also have "\<dots> = c'\<lparr>mem_stmts := (mem_stmts c')(st \<mapsto> (sql, b ++ map_of (rev (x # bs)), cur))\<rparr>"
    unfolding Cons.IH [OF c'] b' ..
  also have "\<dots> = c\<lparr>mem_stmts := (mem_stmts c)(st \<mapsto> (sql, b ++ map_of (rev (x # bs)), cur))\<rparr>"
    unfolding c'_def by (simp del: rev.simps)
  finally show ?case .
qed

lemma parameters_in_order:
  "map fst bs = [1..<Suc n] \<Longrightarrow> map (\<lambda>i. the (map_of (rev bs) i)) [1..<Suc n] = map snd bs"
proof -
  assume bs: "map fst bs = [1..<Suc n]"
  then have d: "distinct (map fst bs)" by (metis distinct_upt)
  have "map (\<lambda>i. the (map_of (rev bs) i)) (map fst bs) = map snd bs"
  proof (rule nth_equalityI)
    fix k assume "k < length (map (\<lambda>i. the (map_of (rev bs) i)) (map fst bs))"
    then have k: "k < length bs" by simp
    then have "(fst (bs ! k), snd (bs ! k)) \<in> set (rev bs)" by simp
    moreover have "distinct (map fst (rev bs))" using d by (simp add: rev_map [symmetric])
    ultimately have "map_of (rev bs) (fst (bs ! k)) = Some (snd (bs ! k))" by (simp add: map_of_is_SomeI)
    then show "map (\<lambda>i. the (map_of (rev bs) i)) (map fst bs) ! k = map snd bs ! k" using k by simp
  qed simp
  then show ?thesis using bs by simp
qed

lemma mem_task_table_ok: "task_table_ok mem_lib mem_rows"
  unfolding task_table_ok_def
proof (intro conjI allI impI; elim conjE)
  fix h c st c1 bs rc c2 key
  assume p: "sq_prepare mem_lib h task_sql c = (SQLITE_OK, Some st, c1)" and bs: "map fst bs = [1..<Suc (placeholders task_sql)]"
    and s: "sq_step mem_lib st (bind_all mem_lib st bs c1) = (rc, c2)"
    and k: "map_of (zip (bound_columns task_sql) (map snd bs)) ''task_id'' = Some (SQL_Text key)"
  have c1: "mem_rows c1 = mem_rows c" "mem_stmts c1 st = Some (task_sql, Map.empty, None)" using p by auto
  have "map (\<lambda>i. the (map_of (rev bs) i)) [1..<10] = map snd bs" using parameters_in_order [OF bs] by (simp add: columns)
  then have "c2 = (bind_all mem_lib st bs c1)\<lparr>mem_rows := (mem_rows c)(key \<mapsto> map_of (zip (bound_columns task_sql) (map snd bs)))\<rparr>"
    using s c1 k by (simp add: mem_bind_all mem_step_def mem_insert_def)
  then show "mem_rows (sq_finalize mem_lib st c2) = (mem_rows c)(key \<mapsto> map_of (zip (bound_columns task_sql) (map snd bs)))"
    by simp
next
  fix h c st c1 key rc c2 row
  assume p: "sq_prepare mem_lib h get_task_sql c = (SQLITE_OK, Some st, c1)"
    and s: "sq_step mem_lib st (bind_all mem_lib st [(1, SQL_Text key)] c1) = (rc, c2)" and k: "mem_rows c key = Some row"
  have t: "get_task_sql \<noteq> task_sql" by (simp add: get_task_sql_def task_sql_def)
  have c1: "mem_rows c1 = mem_rows c" "mem_stmts c1 st = Some (get_task_sql, Map.empty, None)" using p by auto
  have r: "rc = SQLITE_ROW \<and> mem_stmts c2 st = Some (get_task_sql, [1 \<mapsto> SQL_Text key], Some row)"
    using s c1 t k by (auto simp: mem_bind_all mem_step_def)
  then show "rc = SQLITE_ROW" by simp
  fix i v assume "row (select_columns get_task_sql ! i) = Some v"
  then show "sq_column mem_lib st i c2 = v" using r by simp
qed

definition mem_db :: "mem database" where
  "mem_db = \<lparr>conn = \<lparr>mem_rows = Map.empty, mem_stmts = Map.empty, mem_next = 0\<rparr>, db_handle = Some 0, db_initialized = True\<rparr>"

lemma mem_db_idle: "mem_live (conn mem_db) = {}"
  by (simp add: mem_live_def mem_db_def)


theorem queries_return_witness: "\<exists>r. getTasksJson mem_lib 500 mem_db = Some r"
  by (rule queries_return [OF mem_statements_ok mem_rows_finite, of _ "[]" 500]) (simp add: json_queries_def)

theorem stored_record_witness:
  "\<exists>sql bs. perform mem_lib (Db_saveTaskExecution ''T000001'' 41 True) = run_write mem_lib sql bs \<and> map fst bs = [1..<Suc (placeholders sql)] \<and>
     zip (bound_columns sql) (map snd bs) =
     [(''task_id'', SQL_Text ''T000001''), (''execution_time_ms'', SQL_Int 41), (''success'', SQL_Int 1)]"
  using stored_record [of "Db_saveTaskExecution ''T000001'' 41 True" mem_lib] by (simp add: c_str_def)

theorem schema_migration_witness: "fst (createSchemas mem_lib mem_db)"
proof -
  have n: "sql \<in> set schemas \<Longrightarrow> sql \<noteq> migration_sql" for sql by (auto simp: schemas_def migration_sql_def)
  have "set sqls \<subseteq> set schemas \<Longrightarrow> execute_all mem_lib sqls mem_db = (True, mem_db)" for sqls
    by (induction sqls) (auto simp: executeSql_def n)
  from this [of schemas] have "execute_all mem_lib schemas mem_db = (True, mem_db)" by simp
  moreover have "sq_exec mem_lib (db_handle mem_db) migration_sql (conn mem_db) = (1, Some ([] @ ''duplicate column name'' @ '': strategy''), conn mem_db)"
    by simp
  ultimately show ?thesis using schema_migration [of mem_lib mem_db mem_db 1 _ "conn mem_db"] by blast
qed


end
