(* ===== verification/Resource_Controller.thy ===== *)
theory Resource_Controller
  imports Task_Executor
begin

text \<open>
  \<^verbatim>\<open>resource_controller.h\<close> and \<^verbatim>\<open>resource_controller.cpp\<close>: the controller that allocates the tasks of
  the manager's queue and moves the tasks of a failed node. Its constructor registers the two
  callbacks, so \<open>onTaskCreated\<close> is the creation callback of the task manager and
  \<open>onNodeStatusChanged\<close> the status callback of the monitor wherever a controller exists.
\<close>

section \<open>State and operations\<close>

record 'j controller = "'j executor" +
  ctl_running :: bool
  total_tasks_allocated :: u64
  total_allocation_failures :: u64
  total_reallocations :: u64

text \<open>The constructor also registers the callbacks: they are arguments of the manager's and the monitor's
  operations.\<close>

definition new_controller :: "('j, 'm) controller_scheme \<Rightarrow> ('j, 'm) controller_scheme" where
  "new_controller s = s\<lparr>ctl_running := False, total_tasks_allocated := 0, total_allocation_failures := 0, total_reallocations := 0\<rparr>"

definition allocateTaskNow :: "tref \<Rightarrow> ('j, 'm) controller_scheme \<Rightarrow> fault + allocation_result \<times> ('j, 'm) controller_scheme" where
  "allocateTaskNow t s =
     bind_sum (allocateTask t s) (\<lambda>(result, s1).
       Inr (result,
         if success result then s1\<lparr>total_tasks_allocated := total_tasks_allocated s1 + 1\<rparr>
         else s1\<lparr>total_allocation_failures := total_allocation_failures s1 + 1\<rparr>))"

text \<open>The queues do not change in an allocation: the loop below ends.\<close>

lemma run_strategy_queues:
  "run_strategy t s = Inr (result, s') \<Longrightarrow> \<forall>r. task_queue (nodes s' r) = task_queue (nodes s r)"
  by (auto simp: run_strategy_def allocateRoundRobin_def allocateLeastLoad_def allocatePriorityBased_def
      allocateMultiConstraint_def Let_def case_prod_beta split: if_splits option.splits allocation_strategy.splits)

lemma allocateTask_queues:
  "allocateTask t s = Inr (result, s') \<Longrightarrow> \<forall>r. task_queue (nodes s' r) = task_queue (nodes s r)"
  by (auto simp: allocateTask_def bind_sum_Inr dest!: run_strategy_queues)

lemma allocateTaskNow_queues:
  "allocateTaskNow t s = Inr (result, s') \<Longrightarrow> \<forall>r. task_queue (nodes s' r) = task_queue (nodes s r)"
  by (auto simp: allocateTaskNow_def bind_sum_Inr dest!: allocateTask_queues)

text \<open>The loop of \<open>reallocateTasksFromFailedNode\<close>. A null pointer in the queue is skipped by the
  code; there is none, so that branch, which would try again, ends the loop here.\<close>

function realloc_loop :: "nref \<Rightarrow> nat \<Rightarrow> ('j, 'm) controller_scheme \<Rightarrow> fault + nat \<times> ('j, 'm) controller_scheme" where
  "realloc_loop r reallocated_count s =
     (if \<not> hasTasksInQueue (nodes s r) then Inr (reallocated_count, s)
      else case dequeueTask (nodes s r) of
        (None, n) \<Rightarrow> Inr (reallocated_count, s)
      | (Some t, n) \<Rightarrow>
          (let s1 = upd_node r (\<lambda>_. n) s;
               s2 = upd_task t (setStatus REALLOCATED) s1;
               s3 = upd_task t (setAssignedEdgeId '''') s2
           in bind_sum (allocateTaskNow t s3) (\<lambda>(result, s4).
                if success result
                then realloc_loop r (Suc reallocated_count) (s4\<lparr>total_reallocations := total_reallocations s4 + 1\<rparr>)
                else realloc_loop r reallocated_count s4)))"
  by pat_completeness auto
termination
  by (relation "measure (\<lambda>(r, _, s). length (task_queue (nodes s r)))")
    (auto simp: hasTasksInQueue_def dequeueTask_def split: list.splits
      dest!: sym [of "Inr _"] allocateTaskNow_queues)

declare realloc_loop.simps [simp del]

definition reallocateTasksFromFailedNode :: "string \<Rightarrow> ('j, 'm) controller_scheme \<Rightarrow> fault + ('j, 'm) controller_scheme" where
  "reallocateTasksFromFailedNode eid s =
     bind_sum (getEdgeNode eid s) (\<lambda>failed_node. case failed_node of
       None \<Rightarrow> Inr s
     | Some r \<Rightarrow> bind_sum (realloc_loop r 0 s) (\<lambda>(n, s'). Inr s'))"

definition handleNodeFailure :: "string \<Rightarrow> ('j, 'm) controller_scheme \<Rightarrow> fault + ('j, 'm) controller_scheme" where
  "handleNodeFailure eid s = reallocateTasksFromFailedNode eid s"

definition onTaskCreated :: "tref \<Rightarrow> ('j, 'm) controller_scheme \<Rightarrow> fault + ('j, 'm) controller_scheme" where
  "onTaskCreated t s = Inr (manager_enqueueTask t s)"

definition onNodeStatusChanged :: "string \<Rightarrow> bool \<Rightarrow> ('j, 'm) controller_scheme \<Rightarrow> fault + ('j, 'm) controller_scheme" where
  "onNodeStatusChanged eid available s = (if \<not> available then handleNodeFailure eid s else Inr s)"

text \<open>One turn of the controller's loop, before its sleep.\<close>

definition processingLoop_turn :: "(string \<Rightarrow> double \<times> double) \<Rightarrow> ('j, 'm) controller_scheme \<Rightarrow> fault + ('j, 'm) controller_scheme" where
  "processingLoop_turn draws s =
     bind_sum
       (if manager_hasTasksInQueue s
        then (case manager_dequeueTask s of
                (None, s1) \<Rightarrow> Inr s1
              | (Some t, s1) \<Rightarrow> bind_sum (allocateTaskNow t s1) (\<lambda>(result, s2). Inr s2))
        else Inr s)
       (updateResourceMetrics draws)"

text \<open>The first \<open>n\<close> turns of the loop, with the draws of each.\<close>

fun processingLoop_turns :: "(nat \<Rightarrow> string \<Rightarrow> double \<times> double) \<Rightarrow> nat \<Rightarrow> ('j, 'm) controller_scheme \<Rightarrow> fault + ('j, 'm) controller_scheme" where
  "processingLoop_turns draws 0 s = Inr s"
| "processingLoop_turns draws (Suc n) s = bind_sum (processingLoop_turns draws n s) (processingLoop_turn (draws n))"

text \<open>The thread object is joinable exactly while the flag is set, so starting it never meets one that is.
  Stopping waits for the turn the thread is in, if it is in one.\<close>

definition ctl_start :: "('j, 'm) controller_scheme \<Rightarrow> ('j, 'm) controller_scheme" where
  "ctl_start s = (if ctl_running s then s else s\<lparr>ctl_running := True\<rparr>)"

definition ctl_stop :: "(string \<Rightarrow> double \<times> double) option \<Rightarrow> ('j, 'm) controller_scheme \<Rightarrow> fault + ('j, 'm) controller_scheme" where
  "ctl_stop in_turn s =
     (if \<not> ctl_running s then Inr s
      else case in_turn of
        None \<Rightarrow> Inr (s\<lparr>ctl_running := False\<rparr>)
      | Some draws \<Rightarrow> processingLoop_turn draws (s\<lparr>ctl_running := False\<rparr>))"

definition setAllocationStrategy :: "allocation_strategy \<Rightarrow> ('j, 'm) controller_scheme \<Rightarrow> ('j, 'm) controller_scheme" where
  "setAllocationStrategy st s = setStrategy st s"

definition ctl_setAllocationWeights :: "allocation_weights \<Rightarrow> ('j, 'm) controller_scheme \<Rightarrow> ('j, 'm) controller_scheme" where
  "ctl_setAllocationWeights w s = setAllocationWeights w s"

section \<open>Allocation through the controller\<close>

lemma controller_simps [simp]:
  "total_reallocations (upd_node r f s) = total_reallocations s" "total_reallocations (upd_task t g s) = total_reallocations s"
  "total_reallocations (db c s) = total_reallocations s" "total_reallocations (granted t q s) = total_reallocations s"
  "total_reallocations (refused s) = total_reallocations s"
  "total_tasks_allocated (upd_node r f s) = total_tasks_allocated s" "total_tasks_allocated (upd_task t g s) = total_tasks_allocated s"
  "total_tasks_allocated (db c s) = total_tasks_allocated s" "total_tasks_allocated (granted t q s) = total_tasks_allocated s"
  "total_tasks_allocated (refused s) = total_tasks_allocated s"
  "total_allocation_failures (upd_node r f s) = total_allocation_failures s"
  "total_allocation_failures (upd_task t g s) = total_allocation_failures s"
  "total_allocation_failures (db c s) = total_allocation_failures s"
  "total_allocation_failures (granted t q s) = total_allocation_failures s"
  "total_allocation_failures (refused s) = total_allocation_failures s"
  by (simp_all add: upd_node_def upd_task_def db_def granted_def refused_def Let_def)

lemma alloc_ok_controller [simp]:
  "alloc_ok (s\<lparr>total_tasks_allocated := n\<rparr>) = alloc_ok s" "alloc_ok (s\<lparr>total_allocation_failures := n\<rparr>) = alloc_ok s"
  "alloc_ok (s\<lparr>total_reallocations := n\<rparr>) = alloc_ok s" "alloc_ok (s\<lparr>manager_queue := q\<rparr>) = alloc_ok s"
  "alloc_ok (s\<lparr>manager_tasks_processed := n\<rparr>) = alloc_ok s"
  by (rule alloc_ok_cong; simp)+

text \<open>What an allocation does not touch.\<close>

definition kept :: "('j, 'm) controller_scheme \<Rightarrow> ('j, 'm) controller_scheme \<Rightarrow> bool" where
  "kept s s' \<longleftrightarrow> edge_nodes s' = edge_nodes s \<and> next_node s' = next_node s \<and> next_task s' = next_task s \<and>
     nodes_mutex s' = nodes_mutex s \<and> manager_queue s' = manager_queue s \<and> (\<forall>u. reqs (tasks s' u) = reqs (tasks s u)) \<and>
     (\<forall>r. capacity (nodes s' r) = capacity (nodes s r) \<and> edge_id (nodes s' r) = edge_id (nodes s r) \<and>
       is_available (nodes s' r) = is_available (nodes s r))"

lemma kept_refl [simp]: "kept s s"
  by (simp add: kept_def)

lemma kept_trans: "kept s s' \<Longrightarrow> kept s' s'' \<Longrightarrow> kept s s''"
  by (simp add: kept_def)

text \<open>The edge id of a registered node that is available.\<close>

definition home :: "('j, 'm) controller_scheme \<Rightarrow> string \<Rightarrow> bool" where
  "home s eid \<longleftrightarrow> (\<exists>p\<in>registered s. is_available (nodes s p) \<and> edge_id (nodes s p) = eid)"

lemma kept_home: "kept s s' \<Longrightarrow> home s' eid = home s eid"
  by (auto simp: kept_def home_def registered_def)

lemma allocateTaskNow_spec:
  assumes "alloc_ok s" "req_ok (reqs (tasks s t))"
  shows "\<exists>result s'. allocateTaskNow t s = Inr (result, s') \<and> alloc_ok s' \<and> kept s s' \<and>
    (\<forall>r. task_queue (nodes s' r) = task_queue (nodes s r)) \<and> total_reallocations s' = total_reallocations s \<and>
    tasks s' = (if success result then (tasks s)(t := setStatus QUEUED (setAssignedEdgeId (result_edge_id result) (tasks s t)))
                else tasks s) \<and>
    total_tasks_allocated s' = total_tasks_allocated s + (if success result then 1 else 0) \<and>
    total_allocation_failures s' = total_allocation_failures s + (if success result then 0 else 1) \<and>
    (success result \<longrightarrow> home s (result_edge_id result)) \<and>
    (\<forall>p. \<not> is_available (nodes s p) \<longrightarrow> nodes s' p = nodes s p)"
proof -
  obtain result s1 where s1: "allocateTask t s = Inr (result, s1)" using allocateTask_total [OF assms(1)] .
  have ok: "alloc_ok s1" using allocateTask_alloc_ok [OF assms s1] .
  have frame: "kept s s1 \<and> total_reallocations s1 = total_reallocations s \<and>
     total_tasks_allocated s1 = total_tasks_allocated s \<and> total_allocation_failures s1 = total_allocation_failures s \<and>
     (\<forall>r. task_queue (nodes s1 r) = task_queue (nodes s r)) \<and>
     tasks s1 = (if success result then (tasks s)(t := setStatus QUEUED (setAssignedEdgeId (result_edge_id result) (tasks s t)))
                 else tasks s) \<and>
     (success result \<longrightarrow> home s (result_edge_id result)) \<and>
     (\<forall>p. \<not> is_available (nodes s p) \<longrightarrow> nodes s1 p = nodes s p)"
  proof (cases "success result")
    case True
    then obtain r s2 where "s1 = granted t result s2"
      "placed_on r t (s\<lparr>total_allocations := total_allocations s + 1\<rparr>) result s2"
      using allocateTask_success [OF assms(1) s1] by blast
    then show ?thesis using True by (auto simp: placed_on_def kept_def home_def getViableEdges_set canAllocate_def Let_def registered_def split: if_splits)
  next
    case False
    then show ?thesis using allocateTask_failure(3) [OF assms(1) s1] by (simp add: kept_def)
  qed
  show ?thesis
    using s1 ok frame by (cases "success result") (auto simp: allocateTaskNow_def kept_def)
qed

section \<open>Moving the tasks of a failed node\<close>

text \<open>The state in which the loop gives a task to the allocator.\<close>

definition taken_off :: "nref \<Rightarrow> tref \<Rightarrow> tref list \<Rightarrow> ('j, 'm) controller_scheme \<Rightarrow> ('j, 'm) controller_scheme" where
  "taken_off r t q s = upd_task t (setAssignedEdgeId '''') (upd_task t (setStatus REALLOCATED) (upd_node r (\<lambda>n. n\<lparr>task_queue := q\<rparr>) s))"

lemma realloc_step:
  assumes "task_queue (nodes s r) = t # q"
  shows "realloc_loop r k s = bind_sum (allocateTaskNow t (taken_off r t q s)) (\<lambda>(result, s4).
           if success result then realloc_loop r (Suc k) (s4\<lparr>total_reallocations := total_reallocations s4 + 1\<rparr>)
           else realloc_loop r k s4)"
  using assms by (subst realloc_loop.simps) (simp add: hasTasksInQueue_def dequeueTask_def taken_off_def upd_node_def Let_def)

lemma realloc_done: "task_queue (nodes s r) = [] \<Longrightarrow> realloc_loop r k s = Inr (k, s)"
  by (subst realloc_loop.simps) (simp add: hasTasksInQueue_def)

lemma alloc_ok_shorter:
  assumes "alloc_ok s" "task_queue (nodes s r) = t # q"
  shows "alloc_ok (upd_node r (\<lambda>n. n\<lparr>task_queue := q\<rparr>) s)"
  using assms monitor_ok_upd_node [of s "\<lambda>n. n\<lparr>task_queue := q\<rparr>" r]
  by (force simp: alloc_ok_def nodes_ok_def node_ok_def)

lemma taken_off_ok:
  assumes "alloc_ok s" "task_queue (nodes s r) = t # q"
  shows "alloc_ok (taken_off r t q s)" "kept s (taken_off r t q s)"
  using alloc_ok_shorter [OF assms] by (simp_all add: taken_off_def kept_def)

text \<open>The outcome of the loop: the node's queue is empty, no other queue has changed, and its
  tasks are either placed or marked as taken off.\<close>

definition rehomed :: "nref \<Rightarrow> ('j, 'm) controller_scheme \<Rightarrow> nat \<Rightarrow> ('j, 'm) controller_scheme \<Rightarrow> bool" where
  "rehomed r s n s' \<longleftrightarrow> alloc_ok s' \<and> kept s s' \<and> task_queue (nodes s' r) = [] \<and>
     (\<forall>p. p \<noteq> r \<longrightarrow> task_queue (nodes s' p) = task_queue (nodes s p)) \<and>
     n \<le> length (task_queue (nodes s r)) \<and> total_reallocations s' = total_reallocations s + of_nat n \<and>
     (\<forall>t. t \<notin> set (task_queue (nodes s r)) \<longrightarrow> tasks s' t = tasks s t) \<and>
     (\<forall>t\<in>set (task_queue (nodes s r)).
        status (tasks s' t) = QUEUED \<and> home s (assigned_edge_id (tasks s' t)) \<or>
        status (tasks s' t) = REALLOCATED \<and> assigned_edge_id (tasks s' t) = '''') \<and>
     (\<not> is_available (nodes s r) \<longrightarrow> current_usage (nodes s' r) = current_usage (nodes s r))"

lemma realloc_loop_spec:
  assumes "alloc_ok s" "\<forall>t. req_ok (reqs (tasks s t))" "distinct (task_queue (nodes s r))"
  shows "\<exists>n s'. realloc_loop r k s = Inr (k + n, s') \<and> rehomed r s n s'"
  using assms
proof (induction "task_queue (nodes s r)" arbitrary: s k)
  case Nil
  then show ?case by (auto simp: realloc_done rehomed_def intro!: exI [of _ 0])
next
  case (Cons t q)
  note q = Cons.hyps(2) [symmetric]
  note off = taken_off_ok [OF Cons.prems(1) q]
  have off_reqs: "\<forall>u. req_ok (reqs (tasks (taken_off r t q s) u))" using off(2) Cons.prems(2) by (simp add: kept_def)
  obtain result s4 where now: "allocateTaskNow t (taken_off r t q s) = Inr (result, s4)" "alloc_ok s4"
    "kept (taken_off r t q s) s4" "\<forall>p. task_queue (nodes s4 p) = task_queue (nodes (taken_off r t q s) p)"
    "total_reallocations s4 = total_reallocations (taken_off r t q s)"
    "tasks s4 = (if success result then (tasks (taken_off r t q s))
       (t := setStatus QUEUED (setAssignedEdgeId (result_edge_id result) (tasks (taken_off r t q s) t))) else tasks (taken_off r t q s))"
    "success result \<longrightarrow> home s (result_edge_id result)"
    "\<not> is_available (nodes s r) \<longrightarrow> current_usage (nodes s4 r) = current_usage (nodes s r)"
    using allocateTaskNow_spec [OF off(1), of t] off_reqs kept_home [OF off(2)] by (fastforce simp: taken_off_def)
  define s5 where "s5 = (if success result then s4\<lparr>total_reallocations := total_reallocations s4 + 1\<rparr> else s4)"
  define k' where "k' = (if success result then Suc k else k)"
  have s5: "alloc_ok s5" "kept s s5" "tasks s5 = tasks s4" "\<forall>p. task_queue (nodes s5 p) = (if p = r then q else task_queue (nodes s p))"
    "total_reallocations s5 = total_reallocations s + (if success result then 1 else 0)"
    "\<not> is_available (nodes s r) \<longrightarrow> current_usage (nodes s5 r) = current_usage (nodes s r)"
    using now off kept_trans [OF off(2) now(3)] by (auto simp: s5_def kept_def taken_off_def)
  then have "\<exists>n s'. realloc_loop r k' s5 = Inr (k' + n, s') \<and> rehomed r s5 n s'"
    using Cons.hyps(1) [of s5 k'] Cons.prems(2,3) q by (simp add: kept_def)
  then obtain n s' where s': "realloc_loop r k' s5 = Inr (k' + n, s')" "rehomed r s5 n s'" by blast
  have "realloc_loop r k s = realloc_loop r k' s5"
    by (simp add: realloc_step [OF q] now(1) s5_def k'_def)
  moreover have "rehomed r s (n + (if success result then 1 else 0)) s'"
  proof -
    have "t \<notin> set q" using Cons.prems(3) q by (metis distinct.simps(2))
    then have "tasks s' t = tasks s4 t" "\<forall>u. u \<notin> set (t # q) \<longrightarrow> tasks s' u = tasks s u"
      using s'(2) s5 now(6) by (auto simp: rehomed_def taken_off_def)
    moreover have "is_available (nodes s5 r) = is_available (nodes s r)" using s5(2) by (simp add: kept_def)
    ultimately show ?thesis
      using s'(2) s5 q kept_trans [OF s5(2), of s'] now(6,7) kept_home [OF s5(2)]
      by (cases "success result") (simp_all add: rehomed_def taken_off_def)
  qed
  ultimately show ?case using s'(1)
    by (intro exI [of _ "n + (if success result then 1 else 0)"] exI [of _ s']) (simp add: k'_def)
qed

section \<open>Properties\<close>

lemma failed_state:
  assumes "alloc_ok s" "(eid, Some r) \<in> set (edge_nodes s)"
  shows "mark_available False eid s = Inr (Some (upd_node r (setAvailable False) s))"
    "alloc_ok (upd_node r (setAvailable False) s)"
    "getEdgeNode eid ((upd_node r (setAvailable False) s)\<lparr>total_node_failures := n\<rparr>) = Inr (Some r)"
proof -
  have m: "monitor_ok s" using assms(1) by (simp add: alloc_ok_def)
  then have look: "map_of (edge_nodes s) eid = Some (Some r)" using assms(2) by (simp add: map_ok_Some monitor_ok_def)
  with m show "mark_available False eid s = Inr (Some (upd_node r (setAvailable False) s))"
    "getEdgeNode eid ((upd_node r (setAvailable False) s)\<lparr>total_node_failures := n\<rparr>) = Inr (Some r)"
    by (simp_all add: mark_available_def getEdgeNode_def)
  show "alloc_ok (upd_node r (setAvailable False) s)"
    using alloc_ok_registered [OF assms(1), of r] assms
    by (intro alloc_ok_upd_node) (auto simp: registered_def getQueueLength_def)
qed

lemma node_failure_spec:
  assumes "alloc_ok s" "\<forall>t. req_ok (reqs (tasks s t))" "(eid, Some r) \<in> set (edge_nodes s)" "distinct (task_queue (nodes s r))"
  shows "\<exists>n s'. simulateNodeFailure (Some onNodeStatusChanged) eid s = Inr s' \<and>
    rehomed r ((upd_node r (setAvailable False) s)\<lparr>total_node_failures := total_node_failures s + 1\<rparr>) n s'"
proof -
  let ?f = "(upd_node r (setAvailable False) s)\<lparr>total_node_failures := total_node_failures s + 1\<rparr>"
  note f = failed_state [OF assms(1,3)]
  have ok: "alloc_ok ?f" using f(2) alloc_ok_cong [of ?f "upd_node r (setAvailable False) s"] by simp
  have q: "distinct (task_queue (nodes ?f r))" "\<forall>t. req_ok (reqs (tasks ?f t))" using assms(2,4) by simp_all
  obtain n s' where "realloc_loop r 0 ?f = Inr (n, s')" "rehomed r ?f n s'"
    using realloc_loop_spec [OF ok q(2,1), of 0] by auto
  moreover have "total_node_failures (upd_node r (setAvailable False) s) = total_node_failures s" by (simp add: upd_node_def)
  ultimately show ?thesis
    using f(1) f(3) [of "total_node_failures s + 1"]
    by (auto simp: simulateNodeFailure_def onNodeStatusChanged_def handleNodeFailure_def reallocateTasksFromFailedNode_def Let_def)
qed

text \<open>when a node fails, the controller's callback always returns, the node is unavailable with an
  empty queue, every task that was queued on it is either placed on another registered node that
  is available or marked as reallocated without a node, and all invariants are kept.\<close>

theorem node_failure_rehomes_tasks:
  assumes "alloc_ok s" "\<forall>t. req_ok (reqs (tasks s t))" "(eid, Some r) \<in> set (edge_nodes s)" "distinct (task_queue (nodes s r))"
  shows "\<exists>s'. simulateNodeFailure (Some onNodeStatusChanged) eid s = Inr s' \<and> alloc_ok s' \<and>
    \<not> is_available (nodes s' r) \<and> task_queue (nodes s' r) = [] \<and>
    (\<forall>t\<in>set (task_queue (nodes s r)).
       status (tasks s' t) = QUEUED \<and> (\<exists>p\<in>registered s. p \<noteq> r \<and> is_available (nodes s p) \<and> assigned_edge_id (tasks s' t) = edge_id (nodes s p)) \<or>
       status (tasks s' t) = REALLOCATED \<and> assigned_edge_id (tasks s' t) = '''')"
proof -
  let ?f = "(upd_node r (setAvailable False) s)\<lparr>total_node_failures := total_node_failures s + 1\<rparr>"
  obtain n s' where s': "simulateNodeFailure (Some onNodeStatusChanged) eid s = Inr s'" "rehomed r ?f n s'"
    using node_failure_spec [OF assms] by blast
  have "home ?f x \<longleftrightarrow> (\<exists>p\<in>registered s. p \<noteq> r \<and> is_available (nodes s p) \<and> x = edge_id (nodes s p))" for x
    by (auto simp: home_def registered_def split: if_splits)
  moreover have "\<not> is_available (nodes s' r)" using s'(2) by (simp add: rehomed_def kept_def)
  ultimately show ?thesis using s' by (auto simp: rehomed_def)
qed


lemma run_strategy_manager: "run_strategy t s = Inr (result, s') \<Longrightarrow> manager_queue s' = manager_queue s"
  by (auto simp: run_strategy_def allocateRoundRobin_def allocateLeastLoad_def allocatePriorityBased_def
      allocateMultiConstraint_def Let_def case_prod_beta split: if_splits option.splits allocation_strategy.splits)

lemma allocateTaskNow_unqueued:
  "allocateTaskNow t s = Inr (result, s') \<Longrightarrow>
   (\<forall>r. task_queue (nodes s' r) = task_queue (nodes s r)) \<and> manager_queue s' = manager_queue s"
  using allocateTaskNow_queues [of t s result s']
  by (auto simp: allocateTaskNow_def allocateTask_def bind_sum_Inr dest!: run_strategy_manager)

lemma fluctuate_loop_manager [simp]: "manager_queue (fluctuate_loop draws es s) = manager_queue s"
  by (induction draws es s rule: fluctuate_loop.induct) (auto split: option.splits)

text \<open>a turn of the controller's loop allocates the front task of the manager's queue but puts it into
  no node's queue: whatever it does, the queues of all nodes are those from before.\<close>

theorem processing_loop_schedules_nothing:
  assumes "processingLoop_turn draws s = Inr s'"
  shows "(\<forall>r. task_queue (nodes s' r) = task_queue (nodes s r)) \<and> manager_queue s' = tl (manager_queue s)"
proof -
  obtain s1 where s1: "(if manager_hasTasksInQueue s
        then (case manager_dequeueTask s of
                (None, s1) \<Rightarrow> Inr s1
              | (Some t, s1) \<Rightarrow> bind_sum (allocateTaskNow t s1) (\<lambda>(result, s2). Inr s2))
        else Inr s) = Inr s1" "updateResourceMetrics draws s1 = Inr s'"
    using assms by (auto simp: processingLoop_turn_def bind_sum_Inr)
  have "(\<forall>r. task_queue (nodes s1 r) = task_queue (nodes s r)) \<and> manager_queue s1 = tl (manager_queue s)"
    using s1(1) by (auto simp: manager_hasTasksInQueue_def manager_dequeueTask_def bind_sum_Inr
        split: if_splits list.splits dest!: allocateTaskNow_unqueued)
  then show ?thesis using s1(2) by (auto simp: updateResourceMetrics_def split: if_splits)
qed

lemma health_loop_controller:
  assumes "nodes_mutex s"
  shows "health_loop (Some onNodeStatusChanged) es s =
    (if \<exists>(eid, node)\<in>set es. \<not> isNodeHealthy node s then Inl SelfDeadlock else Inr s)"
  using assms
  by (induction es) (auto simp: onNodeStatusChanged_def handleNodeFailure_def reallocateTasksFromFailedNode_def getEdgeNode_def Let_def)

text \<open>C30: a health check with the controller's callback registered deadlocks as soon as one registered
  node is unavailable: the callback is called under the monitor's mutex and asks the monitor for
  the node. If all nodes are available, the check changes nothing.\<close>

theorem health_check_deadlock:
  assumes "monitor_ok s"
  shows "checkEdgeNodeHealth (Some onNodeStatusChanged) s =
    (if \<exists>r\<in>registered s. \<not> is_available (nodes s r) then Inl SelfDeadlock else Inr s)"
proof -
  have "(\<exists>(eid, node)\<in>set (edge_nodes s). \<not> isNodeHealthy node (s\<lparr>nodes_mutex := True\<rparr>)) \<longleftrightarrow>
      (\<exists>r\<in>registered s. \<not> is_available (nodes s r))"
    (is "?L \<longleftrightarrow> ?R")
  proof
    assume ?L
    then obtain eid node where e: "(eid, node) \<in> set (edge_nodes s)" "\<not> isNodeHealthy node (s\<lparr>nodes_mutex := True\<rparr>)" by blast
    from assms e(1) show ?R by (rule monitor_okD) (use e(2) in \<open>auto simp: isNodeHealthy_def\<close>)
  next
    assume ?R
    then obtain r eid where "\<not> is_available (nodes s r)" "(eid, Some r) \<in> set (edge_nodes s)"
      by (auto simp: registered_def)
    then show ?L by (intro bexI [of _ "(eid, Some r)"]) (simp_all add: isNodeHealthy_def)
  qed
  with assms show ?thesis
    by (auto simp: checkEdgeNodeHealth_def health_loop_controller)
qed

section \<open>A concrete state\<close>

text \<open>The first node holds the queue of the scheduler's example; every task asks for little.\<close>

definition demo_ctl :: "unit controller" where
  "demo_ctl = executor.extend (executor.truncate demo_exec)
     \<lparr>ctl_running = False, total_tasks_allocated = 0, total_allocation_failures = 0, total_reallocations = 0\<rparr>"

lemma demo_ctl_simps [simp]:
  "nodes demo_ctl = demo_nodes(0 := (demo_nodes 0)\<lparr>task_queue := [0, 1, 2]\<rparr>)" "next_node demo_ctl = 2"
  "edge_nodes demo_ctl = [(''edge-1'', Some 0), (''edge-2'', Some 1)]" "\<not> nodes_mutex demo_ctl"
  "weights demo_ctl = default_weights" "reqs (tasks demo_ctl t) = demo_req_of t" "manager_queue demo_ctl = []"
  by (simp_all add: demo_ctl_def demo_exec_def demo_manager_def demo_sched_def upd_node_def new_task_def
      executor.defs task_manager.defs scheduler.defs allocator.defs)

lemma demo_ctl_registered: "registered demo_ctl = {0, 1}"
  by (auto simp: registered_def)

lemma demo_ctl_ok: "alloc_ok demo_ctl" "\<forall>t. req_ok (reqs (tasks demo_ctl t))"
proof -
  have "node_ok ((demo_nodes 0)\<lparr>task_queue := [0, 1, 2]\<rparr>)" using demo_nodes_ok [of 0] by (simp add: node_ok_def)
  then show "alloc_ok demo_ctl"
    using demo_nodes_ok by (auto simp: alloc_ok_def monitor_ok_def nodes_ok_def default_weights_ok map_ok_def demo_cap_ok less_2_cases_iff)
qed (simp add: demo_req_of_def mk_req_ok)

theorem node_failure_rehomes_tasks_witness:
  "\<exists>s'. simulateNodeFailure (Some onNodeStatusChanged) ''edge-1'' demo_ctl = Inr s' \<and> task_queue (nodes s' 0) = []"
  using node_failure_rehomes_tasks [OF demo_ctl_ok, of "''edge-1''" 0] by auto


theorem processing_loop_schedules_nothing_witness:
  "\<exists>s'. processingLoop_turn (\<lambda>_. (0, 0)) demo_ctl = Inr s' \<and> task_queue (nodes s' 0) = [0, 1, 2]"
proof -
  obtain s' where "processingLoop_turn (\<lambda>_. (0, 0)) demo_ctl = Inr s'"
    by (simp add: processingLoop_turn_def manager_hasTasksInQueue_def updateResourceMetrics_def)
  then show ?thesis using processing_loop_schedules_nothing by fastforce
qed

theorem health_check_deadlock_witness:
  "checkEdgeNodeHealth (Some onNodeStatusChanged) (upd_node 1 (setAvailable False) demo_ctl) = Inl SelfDeadlock"
proof -
  have "monitor_ok (upd_node 1 (setAvailable False) demo_ctl)"
    using demo_ctl_ok(1) by (intro monitor_ok_upd_node) (auto simp: alloc_ok_def)
  moreover have "registered (upd_node 1 (setAvailable False) demo_ctl) = {0, 1}" by (auto simp: registered_def)
  ultimately show ?thesis using health_check_deadlock by fastforce
qed

text \<open>however long the controller's thread runs, it takes the tasks off the manager's queue in their order, one
  a turn, and puts none of them on the queue of a node: the tasks it allocates are never run.\<close>

theorem controller_never_schedules:
  assumes "processingLoop_turns draws n s = Inr s'"
  shows "manager_queue s' = drop n (manager_queue s) \<and> (\<forall>r. task_queue (nodes s' r) = task_queue (nodes s r))"
  using assms
proof (induction n arbitrary: s')
  case (Suc n)
  then obtain s1 where s1: "processingLoop_turns draws n s = Inr s1" "processingLoop_turn (draws n) s1 = Inr s'"
    by (auto simp: bind_sum_Inr)
  from Suc.IH [OF s1(1)] processing_loop_schedules_nothing [OF s1(2)] show ?case by (simp add: drop_Suc tl_drop)
qed simp

theorem controller_never_schedules_witness:
  "\<exists>s'. processingLoop_turns (\<lambda>_ _. (0, 0)) 1 (demo_ctl\<lparr>manager_queue := [0]\<rparr>) = Inr s' \<and> manager_queue s' = [] \<and>
     task_queue (nodes s' 0) = [0, 1, 2]"
proof -
  let ?s = "demo_ctl\<lparr>manager_queue := [], manager_tasks_processed := manager_tasks_processed demo_ctl + 1\<rparr>"
  have "alloc_ok ?s" using demo_ctl_ok(1) by (simp add: alloc_ok_def monitor_ok_def registered_def nodes_ok_def)
  then obtain result s1 where s1: "allocateTaskNow 0 ?s = Inr (result, s1)" "alloc_ok s1"
    using allocateTaskNow_spec [of ?s 0] demo_ctl_ok(2) by auto
  from s1(2) have "\<not> nodes_mutex s1" by (simp add: alloc_ok_def monitor_ok_def)
  then obtain s' where "processingLoop_turns (\<lambda>_ _. (0, 0)) 1 (demo_ctl\<lparr>manager_queue := [0]\<rparr>) = Inr s'"
    using s1(1) by (simp add: processingLoop_turn_def manager_hasTasksInQueue_def manager_dequeueTask_def updateResourceMetrics_def)
  from controller_never_schedules [OF this] this show ?thesis by auto
qed

end
