(* ===== verification/Simulation.thy ===== *)
theory Simulation
  imports Resource_Controller
begin

text \<open>
  The running simulation: the producer of \<^verbatim>\<open>main.cpp\<close> and \<^verbatim>\<open>live_runtime.cpp\<close>, which creates tasks,
  allocates them with back-pressure and schedules them, and one worker per edge node, as a step
  relation that interleaves them. A step is what a thread does without giving up control of the
  state it works on: one attempt of an allocation, one call of the scheduler, the settling of a
  finished task. The sleeps of the code are the places where the other threads' steps go. The
  random draws, the clock readings and the sensor data are arbitrary.
\<close>

section \<open>Threads\<close>

text \<open>Where the producer is: it has created a task, is trying to place it with some retries left, or
  has placed it and not yet queued it. A worker is idle or runs a task with its estimated time.\<close>

datatype producer = P_Idle | P_Created tref | P_Waiting tref nat | P_Placed tref allocation_result

datatype worker = W_Idle | W_Running tref int

type_synonym ('j, 'm) system = "('j, 'm) executor_scheme \<times> producer \<times> (nref \<Rightarrow> worker)"

definition max_retries :: nat where
  "max_retries = 200"

text \<open>The strategies can be changed at any time but while the producer tries to place a task: it holds the
  allocator's mutex through all its attempts.\<close>

inductive sys_step :: "('j, 'm) system \<Rightarrow> ('j, 'm) system \<Rightarrow> bool" where
  produce: "createTaskFromSensorData now None dev sensor data s = Inr (t, s1) \<Longrightarrow>
    sys_step (s, P_Idle, w) (db (saved_task (tasks s1 t)) s1, P_Created t, w)"
| request: "sys_step (s, P_Created t, w) (s\<lparr>total_allocations := total_allocations s + 1\<rparr>, P_Waiting t max_retries, w)"
| place: "run_strategy t s = Inr (result, s1) \<Longrightarrow> success result \<Longrightarrow>
    sys_step (s, P_Waiting t left, w) (granted t result s1, P_Placed t result, w)"
| retry: "run_strategy t s = Inr (result, s1) \<Longrightarrow> \<not> success result \<Longrightarrow> edge_nodes s1 \<noteq> [] \<Longrightarrow>
    sys_step (s, P_Waiting t (Suc left), w) (s1, P_Waiting t left, w)"
| give_up: "run_strategy t s = Inr (result, s1) \<Longrightarrow> \<not> success result \<Longrightarrow> left = 0 \<or> edge_nodes s1 = [] \<Longrightarrow>
    sys_step (s, P_Waiting t left, w) (db (Db_saveAllocationFailure (task_id (tasks s1 t)) (reason result)) (refused s1), P_Idle, w)"
| enqueue: "getEdgeNode (result_edge_id result) s = Inr edge \<Longrightarrow>
    sys_step (s, P_Placed t result, w)
      (db (Db_saveAllocation (task_id (tasks s t)) (result_edge_id result) (score result) label)
         (scheduleTask edge (Some t) s), P_Idle, w)"
| take: "(eid, Some r) \<in> set (workers s) \<Longrightarrow> is_running s \<Longrightarrow> w r = W_Idle \<Longrightarrow>
    getNextTask clk (Some r) s = (Some t, s1) \<Longrightarrow>
    sys_step (s, p, w) (beginExecution t s1, p, w(r := W_Running t (estimateExecutionTime jitter (reqs (tasks s1 t)))))"
| finish: "w r = W_Running t e \<Longrightarrow> sys_step (s, p, w) (finishExecution now now' e r t s, p, w(r := W_Idle))"
| fluctuate: "updateResourceMetrics draws s = Inr s1 \<Longrightarrow> sys_step (s, P_Idle, w) (s1, P_Idle, w)"
| configure: "\<forall>t n. p \<noteq> P_Waiting t n \<Longrightarrow> sys_step (s, p, w) (setSchedStrategy sst (setStrategy st s), p, w)"
| snapshot: "sys_step (s, P_Idle, w)
    (db (Db_saveResourceSnapshot (edge_id (nodes s r)) (current_usage (nodes s r)) (getQueueLength (nodes s r))) s, P_Idle, w)"
| outside: "executor.truncate s' = executor.truncate s \<Longrightarrow> sys_step (s, p, w) (s', p, w)"

inductive_cases sys_stepE: "sys_step \<sigma> \<sigma>'"

text \<open>What the components own is the part of the state up to the executor's fields.\<close>

lemma same_components:
  assumes "executor.truncate s' = executor.truncate s"
  shows "tasks s' = tasks s" "next_task s' = next_task s" "nodes s' = nodes s" "next_node s' = next_node s"
    "db_calls s' = db_calls s" "edge_nodes s' = edge_nodes s" "nodes_mutex s' = nodes_mutex s" "weights s' = weights s"
    "profile_map s' = profile_map s" "workers s' = workers s" "is_running s' = is_running s" "exec_nodes s' = exec_nodes s"
    "strategy s' = strategy s" "sched_strategy s' = sched_strategy s" "active_tasks s' = active_tasks s"
  using assms by (simp_all add: executor.truncate_def)

section \<open>Who holds a task\<close>

datatype place = L_Producer | L_Queue nref | L_Worker nref

fun producer_task :: "producer \<Rightarrow> tref option" where
  "producer_task P_Idle = None"
| "producer_task (P_Created t) = Some t"
| "producer_task (P_Waiting t _) = Some t"
| "producer_task (P_Placed t _) = Some t"

fun worker_task :: "worker \<Rightarrow> tref option" where
  "worker_task W_Idle = None"
| "worker_task (W_Running t _) = Some t"

fun held :: "('j, 'm) system \<Rightarrow> tref \<Rightarrow> place \<Rightarrow> bool" where
  "held (s, p, w) t L_Producer \<longleftrightarrow> producer_task p = Some t"
| "held (s, p, w) t (L_Queue r) \<longleftrightarrow> t \<in> set (task_queue (nodes s r))"
| "held (s, p, w) t (L_Worker r) \<longleftrightarrow> worker_task (w r) = Some t"

text \<open>Every task is in at most one place, and at most once in a queue; only created tasks are anywhere.\<close>

definition owned :: "('j, 'm) system \<Rightarrow> bool" where
  "owned \<sigma> \<longleftrightarrow> (\<forall>t l l'. held \<sigma> t l \<longrightarrow> held \<sigma> t l' \<longrightarrow> l = l') \<and>
     (\<forall>r. distinct (task_queue (nodes (fst \<sigma>) r))) \<and> (\<forall>t l. held \<sigma> t l \<longrightarrow> t < next_task (fst \<sigma>))"

text \<open>What holds of the state whoever holds the tasks.\<close>

definition base_ok :: "('j, 'm) executor_scheme \<Rightarrow> bool" where
  "base_ok s \<longleftrightarrow> monitor_ok s \<and> nodes_ok s \<and> weights_ok (weights s) \<and> profiles_ok (profile_map s) \<and> tasks_ok s \<and>
     (\<forall>(eid, node)\<in>set (workers s). \<exists>r\<in>registered s. node = Some r)"

text \<open>A task in a node's queue or with its worker was placed on that node; a node that works is registered,
  and a placed task is on the way to a registered node.\<close>

definition homes_ok :: "('j, 'm) system \<Rightarrow> bool" where
  "homes_ok \<sigma> \<longleftrightarrow> (case \<sigma> of (s, p, w) \<Rightarrow>
     (\<forall>r. \<forall>t\<in>set (task_queue (nodes s r)). status (tasks s t) = QUEUED \<and> assigned_edge_id (tasks s t) = edge_id (nodes s r)) \<and>
     (\<forall>r t e. w r = W_Running t e \<longrightarrow> r \<in> registered s \<and> status (tasks s t) = RUNNING \<and> assigned_edge_id (tasks s t) = edge_id (nodes s r)) \<and>
     (\<forall>t q. p = P_Placed t q \<longrightarrow> status (tasks s t) = QUEUED \<and> assigned_edge_id (tasks s t) = result_edge_id q \<and>
        (\<exists>r\<in>registered s. edge_id (nodes s r) = result_edge_id q)))"

definition sys_ok :: "('j, 'm) system \<Rightarrow> bool" where
  "sys_ok \<sigma> \<longleftrightarrow> base_ok (fst \<sigma>) \<and> owned \<sigma> \<and> homes_ok \<sigma>"

lemma distinct_below: "distinct q \<Longrightarrow> \<forall>t\<in>set q. t < n \<Longrightarrow> length q \<le> (n :: nat)"
  using card_mono [of "{..<n}" "set q"] by (auto simp: distinct_card subset_eq)

lemma sys_alloc_ok:
  assumes "base_ok s" "owned (s, p, w)" "next_task s < 2 ^ 63"
  shows "alloc_ok s"
proof -
  have "length (task_queue (nodes s r)) < 2 ^ 63" for r
  proof -
    have "distinct (task_queue (nodes s r))" "\<forall>t\<in>set (task_queue (nodes s r)). t < next_task s"
      using assms(2) unfolding owned_def by (simp, metis fst_conv held.simps(2))
    then show ?thesis using distinct_below assms(3) le_less_trans by blast
  qed
  then show ?thesis using assms(1) by (simp add: alloc_ok_def base_ok_def)
qed

section \<open>Moving a task\<close>

lemma owned_queue: "owned (s, p, w) \<Longrightarrow> distinct (task_queue (nodes s r))"
  by (simp add: owned_def)

lemma owned_less: "owned (s, p, w) \<Longrightarrow> held (s, p, w) t l \<Longrightarrow> t < next_task s"
  by (auto simp: owned_def)

lemma owned_same: "owned \<sigma> \<Longrightarrow> held \<sigma> t l \<Longrightarrow> held \<sigma> t l' \<Longrightarrow> l = l'"
  by (auto simp: owned_def)

lemma owned_move:
  assumes "owned \<sigma>" "\<And>u k. held \<sigma>' u k \<Longrightarrow> u = t \<and> k = l' \<or> u \<noteq> t \<and> held \<sigma> u k"
    and "\<And>r. distinct (task_queue (nodes (fst \<sigma>') r))" "next_task (fst \<sigma>) \<le> next_task (fst \<sigma>')" "t < next_task (fst \<sigma>')"
  shows "owned \<sigma>'"
  unfolding owned_def
proof (intro conjI allI impI)
  fix u k k'
  assume "held \<sigma>' u k" "held \<sigma>' u k'"
  then show "k = k'" using assms(2) [of u k] assms(2) [of u k'] owned_same [OF assms(1)] by blast
next
  fix u k
  assume "held \<sigma>' u k"
  then show "u < next_task (fst \<sigma>')"
    using assms(2) [of u k] assms(1,4,5) by (auto simp: owned_def dest: less_le_trans)
qed (use assms(3) in simp)

lemma owned_sub:
  assumes "owned \<sigma>" "\<And>u k. held \<sigma>' u k \<Longrightarrow> held \<sigma> u k"
    and "\<And>r. distinct (task_queue (nodes (fst \<sigma>') r))" "next_task (fst \<sigma>) \<le> next_task (fst \<sigma>')"
  shows "owned \<sigma>'"
  unfolding owned_def
proof (intro conjI allI impI)
  fix u k
  assume "held \<sigma>' u k"
  then have "held \<sigma> u k" by (rule assms(2))
  then have "u < next_task (fst \<sigma>)" using assms(1) by (auto simp: owned_def)
  with assms(4) show "u < next_task (fst \<sigma>')" by simp
qed (use assms(2,3) owned_same [OF assms(1)] in blast)+

lemma owned_cong:
  assumes "owned (s, p, w)" "\<And>r. task_queue (nodes s' r) = task_queue (nodes s r)" "next_task s' = next_task s"
    "producer_task p' = producer_task p"
  shows "owned (s', p', w)"
proof (rule owned_sub [OF assms(1)])
  fix u k
  assume "held (s', p', w) u k"
  then show "held (s, p, w) u k" using assms(2,4) by (cases k) auto
qed (use assms in \<open>auto simp: owned_def\<close>)

lemma remove_at_split:
  assumes "i < length q" "distinct q"
  shows "set (remove_at i q) = set q - {q ! i} \<and> distinct (remove_at i q)"
proof -
  have m: "mset (q ! i # remove_at i q) = mset q" using mset_remove_at [OF assms(1)] by simp
  then have "distinct (q ! i # remove_at i q)" using assms(2) mset_eq_imp_distinct_iff by blast
  moreover have "set (q ! i # remove_at i q) = set q" using m by (metis set_mset_mset)
  ultimately show ?thesis by auto
qed

lemma getNextTask_Some:
  assumes "getNextTask clk (Some r) s = (Some t, s1)"
  shows "\<exists>i<length (task_queue (nodes s r)). t = task_queue (nodes s r) ! i \<and>
    s1 = upd_node r (\<lambda>n. n\<lparr>task_queue := remove_at i (task_queue (nodes s r))\<rparr>) s"
proof (cases "task_queue (nodes s r) = []")
  case True
  then show ?thesis using assms by (simp add: getNextTask_empty)
next
  case False
  then show ?thesis
    using assms getNextTask_take [OF refl False refl, of clk] pick_less [OF False, of "sched_strategy s" clk "tasks s"] by auto
qed

section \<open>Every step keeps every task in one place\<close>

lemma placed_step:
  assumes "base_ok s" "owned (s, P_Waiting t n, w)" "next_task s < 2 ^ 63" "run_strategy t s = Inr (result, s1)" "success result"
  obtains r where "placed_on r t s result s1"
  using strat.success_placed [OF sys_alloc_ok [OF assms(1-3)] assms(4,5)] by blast

lemma unplaced_step:
  assumes "base_ok s" "owned (s, P_Waiting t n, w)" "next_task s < 2 ^ 63" "run_strategy t s = Inr (result, s1)" "\<not> success result"
  shows "s1 = s"
  using strat.failure_unchanged [OF sys_alloc_ok [OF assms(1-3)] assms(4,5)] by blast

lemma owned_take:
  assumes "owned (s, p, w)" "w r = W_Idle" "getNextTask clk (Some r) s = (Some t, s1)"
  shows "owned (beginExecution t s1, p, w(r := W_Running t e))"
proof -
  obtain i where i: "i < length (task_queue (nodes s r))" "t = task_queue (nodes s r) ! i"
    "s1 = upd_node r (\<lambda>n. n\<lparr>task_queue := remove_at i (task_queue (nodes s r))\<rparr>) s"
    using getNextTask_Some [OF assms(3)] by blast
  note q = remove_at_split [OF i(1) owned_queue [OF assms(1)], folded i(2)]
  have t: "held (s, p, w) t (L_Queue r)" using i(1,2) by simp
  have n: "next_task (beginExecution t s1) = next_task s"
    by (simp add: i(3))
  show ?thesis
  proof (rule owned_move [OF assms(1), where t = t and l' = "L_Worker r"])
    fix u k
    assume k: "held (beginExecution t s1, p, w(r := W_Running t e)) u k"
    have "u \<noteq> t" if "held (s, p, w) u k" "k \<noteq> L_Queue r" using owned_same [OF assms(1) t] that by blast
    then show "u = t \<and> k = L_Worker r \<or> u \<noteq> t \<and> held (s, p, w) u k"
      using k q by (cases k) (auto simp: i(3) split: if_splits)
  qed (use n q owned_queue [OF assms(1)] owned_less [OF assms(1) t] in \<open>auto simp: i(3)\<close>)
qed

lemma owned_enqueue:
  assumes "owned (s, P_Placed t result, w)"
  shows "owned (scheduleTask (Some r) (Some t) s, P_Idle, w)"
proof -
  have t: "held (s, P_Placed t result, w) t L_Producer" by simp
  have "t \<notin> set (task_queue (nodes s r))" using owned_same [OF assms t, of "L_Queue r"] by auto
  moreover have n: "next_task (scheduleTask (Some r) (Some t) s) = next_task s" by (simp add: scheduleTask_def Let_def)
  moreover have qs: "task_queue (nodes (scheduleTask (Some r) (Some t) s) k) = task_queue (nodes s k) @ (if k = r then [t] else [])" for k
    by (simp add: scheduleTask_def Let_def enqueueTask_def)
  ultimately show ?thesis
  proof (intro owned_move [OF assms, where t = t and l' = "L_Queue r"])
    fix u k
    assume k: "held (scheduleTask (Some r) (Some t) s, P_Idle, w) u k"
    have "u \<noteq> t" if "held (s, P_Placed t result, w) u k" "k \<noteq> L_Producer" using owned_same [OF assms t] that by blast
    then show "u = t \<and> k = L_Queue r \<or> u \<noteq> t \<and> held (s, P_Placed t result, w) u k"
      using k by (cases k) (auto simp: qs split: if_splits)
  qed (use owned_queue [OF assms] owned_less [OF assms t] in auto)
qed

section \<open>Every step keeps the components well-formed\<close>

lemma base_ok_cong:
  assumes "base_ok s" "nodes s' = nodes s" "next_node s' = next_node s" "edge_nodes s' = edge_nodes s"
    "nodes_mutex s' = nodes_mutex s" "weights s' = weights s" "profile_map s' = profile_map s" "workers s' = workers s"
    "next_task s' = next_task s" "\<And>u. reqs (tasks s' u) = reqs (tasks s u)"
  shows "base_ok s'"
  using assms(1) by (simp add: base_ok_def assms(2-) monitor_ok_def nodes_ok_def tasks_ok_def registered_def)

lemma base_ok_upd_node:
  assumes "base_ok s" "node_ok (nodes s r) \<Longrightarrow> node_ok (f (nodes s r))" "capacity (f (nodes s r)) = capacity (nodes s r)"
    "edge_id (f (nodes s r)) = edge_id (nodes s r)"
  shows "base_ok (upd_node r f s)"
proof -
  have "nodes_ok (upd_node r f s)"
    using assms by (intro nodes_ok_upd_node) (auto simp: base_ok_def nodes_okD)
  moreover have "monitor_ok (upd_node r f s)" using assms by (intro monitor_ok_upd_node) (auto simp: base_ok_def)
  moreover have "profile_map (upd_node r f s) = profile_map s" "workers (upd_node r f s) = workers s"
    by (simp_all add: upd_node_def)
  ultimately show ?thesis using assms(1) by (simp add: base_ok_def registered_def)
qed

lemma base_ok_placed:
  assumes "base_ok s" "t < next_task s" "placed_on r t s result s1"
  shows "base_ok (granted t result s1)"
proof -
  obtain i where i: "s1 = upd_node r (reserve (reqs (tasks s t))) (s\<lparr>round_robin_index := i\<rparr>)"
    and r: "can_host (reqs (tasks s t)) (nodes s r)"
    using assms(3) by (auto simp: placed_on_def getViableEdges_set)
  have "base_ok (s\<lparr>round_robin_index := i\<rparr>)" by (rule base_ok_cong [OF assms(1)]) simp_all
  moreover have "req_ok (reqs (tasks s t))" using assms(1,2) by (simp add: base_ok_def tasks_okD)
  ultimately have "base_ok s1" using r unfolding i by (intro base_ok_upd_node) (simp_all add: node_ok_reserve)
  then show ?thesis
    by (rule base_ok_cong) (simp_all add: granted_def upd_task_def db_def Let_def setStatus_def setAssignedEdgeId_def)
qed

lemma base_ok_take:
  assumes "base_ok s" "getNextTask clk (Some r) s = (Some t, s1)"
  shows "base_ok (beginExecution t s1)"
proof -
  obtain q where s1: "s1 = upd_node r (\<lambda>n. n\<lparr>task_queue := q\<rparr>) s" using getNextTask_Some [OF assms(2)] by blast
  have "base_ok s1" unfolding s1 by (rule base_ok_upd_node [OF assms(1)]) (simp_all add: node_ok_def)
  then show ?thesis
    by (rule base_ok_cong) (simp_all add: setStatus_def)
qed

lemma base_ok_finish:
  assumes "base_ok s" "t < next_task s"
  shows "base_ok (finishExecution now now' e r t s)"
proof -
  have "base_ok (upd_node r (release (reqs (tasks s t))) s)"
    using assms by (intro base_ok_upd_node) (simp_all add: node_ok_release base_ok_def tasks_okD)
  then show ?thesis
    by (rule base_ok_cong)
      (auto simp: setStatus_def setCompletionTime_def)
qed

lemma base_ok_schedule:
  assumes "base_ok s"
  shows "base_ok (scheduleTask edge (Some t) s)"
proof (cases edge)
  case (Some r)
  have "base_ok (upd_node r (enqueueTask t) s)" using assms by (rule base_ok_upd_node) simp_all
  then show ?thesis unfolding Some
    by (rule base_ok_cong) (simp_all add: scheduleTask_def upd_task_def upd_node_def Let_def setStatus_def)
qed (simp add: scheduleTask_def assms)

lemma fluctuate_loop_kept [simp]:
  "weights (fluctuate_loop draws es s) = weights s" "profile_map (fluctuate_loop draws es s) = profile_map s"
  "workers (fluctuate_loop draws es s) = workers s"
  "used_bandwidth_mbps (current_usage (nodes (fluctuate_loop draws es s) r)) = used_bandwidth_mbps (current_usage (nodes s r))"
  by (induction draws es s rule: fluctuate_loop.induct)
    (auto split: option.splits simp: upd_node_def simulateResourceFluctuation_def Let_def)

lemma base_ok_fluctuate:
  assumes "base_ok s" "updateResourceMetrics draws s = Inr s1"
  shows "base_ok s1"
proof -
  have s1: "s1 = fluctuate_loop draws (edge_nodes s) s" using assms(2) by (simp add: updateResourceMetrics_def split: if_splits)
  with assms(1) show ?thesis unfolding s1 base_ok_def
    by (simp add: fluctuate_loop_nodes_ok monitor_ok_fluctuate registered_def tasks_ok_def)
qed

lemma base_ok_produce:
  assumes "base_ok s" "createTaskFromSensorData now None dev sensor data s = Inr (t, s1)"
  shows "base_ok s1" "t = next_task s" "next_task s1 = Suc (next_task s)" "nodes s1 = nodes s"
    "\<And>u. u \<noteq> t \<Longrightarrow> tasks s1 u = tasks s u" "reqs (tasks s1 t) = getRequirements (profile_map s) sensor"
    "edge_nodes s1 = edge_nodes s"
proof -
  show *: "t = next_task s" "next_task s1 = Suc (next_task s)" "nodes s1 = nodes s" "edge_nodes s1 = edge_nodes s"
    "\<And>u. u \<noteq> t \<Longrightarrow> tasks s1 u = tasks s u" "reqs (tasks s1 t) = getRequirements (profile_map s) sensor"
    using assms(2) by (auto simp: create_no_callback new_task_def)
  have "req_ok (getRequirements (profile_map s) sensor)" using assms(1) by (simp add: base_ok_def getRequirements_ok)
  moreover have "tasks_ok s" using assms(1) by (simp add: base_ok_def)
  ultimately have "tasks_ok s1" using * unfolding tasks_ok_def by (metis less_SucE)
  then show "base_ok s1"
    using assms by (auto simp: create_no_callback base_ok_def monitor_ok_def nodes_ok_def registered_def)
qed

section \<open>Every step keeps every task at home\<close>

lemma homes_queue:
  "homes_ok (s, p, w) \<Longrightarrow> t \<in> set (task_queue (nodes s r)) \<Longrightarrow>
   status (tasks s t) = QUEUED \<and> assigned_edge_id (tasks s t) = edge_id (nodes s r)"
  by (simp add: homes_ok_def)

lemma homes_worker:
  "homes_ok (s, p, w) \<Longrightarrow> w r = W_Running t e \<Longrightarrow>
   r \<in> registered s \<and> status (tasks s t) = RUNNING \<and> assigned_edge_id (tasks s t) = edge_id (nodes s r)"
  unfolding homes_ok_def by blast

lemma homes_placed:
  assumes "homes_ok (s, P_Placed t q, w)" "base_ok s"
  obtains r where "getEdgeNode (result_edge_id q) s = Inr (Some r)" "r \<in> registered s" "edge_id (nodes s r) = result_edge_id q"
    "assigned_edge_id (tasks s t) = result_edge_id q" "status (tasks s t) = QUEUED"
  using assms getEdgeNode_registered [of s] by (auto simp: homes_ok_def base_ok_def)

text \<open>Nothing moves and only tasks that are nowhere change.\<close>

lemma homes_cong:
  assumes "homes_ok (s, p, w)" "\<And>r. task_queue (nodes s' r) = task_queue (nodes s r)" "\<And>r. edge_id (nodes s' r) = edge_id (nodes s r)"
    "edge_nodes s' = edge_nodes s" "\<And>u l. held (s, p, w) u l \<Longrightarrow> tasks s' u = tasks s u"
    "\<And>t q. p' = P_Placed t q \<Longrightarrow> p = P_Placed t q"
  shows "homes_ok (s', p', w)"
proof -
  have q: "tasks s' u = tasks s u" if "u \<in> set (task_queue (nodes s r))" for u r using assms(5) [of u "L_Queue r"] that by simp
  have v: "tasks s' u = tasks s u" if "w r = W_Running u e" for u r e using assms(5) [of u "L_Worker r"] that by simp
  have l: "tasks s' u = tasks s u" if "p = P_Placed u q" for u q using assms(5) [of u L_Producer] that by simp
  have r: "registered s' = registered s" using assms(4) by (simp add: registered_def)
  show ?thesis
    unfolding homes_ok_def prod.case assms(2,3) r
  proof (intro conjI allI ballI impI)
    fix k u
    assume u: "u \<in> set (task_queue (nodes s k))"
    show "status (tasks s' u) = QUEUED" "assigned_edge_id (tasks s' u) = edge_id (nodes s k)"
      using homes_queue [OF assms(1) u] q [OF u] by simp_all
  next
    fix k u e
    assume u: "w k = W_Running u e"
    show "k \<in> registered s" "status (tasks s' u) = RUNNING" "assigned_edge_id (tasks s' u) = edge_id (nodes s k)"
      using homes_worker [OF assms(1) u] v [OF u] by simp_all
  next
    fix u x
    assume "p' = P_Placed u x"
    then have u: "p = P_Placed u x" by (rule assms(6))
    with assms(1) show "status (tasks s' u) = QUEUED" "assigned_edge_id (tasks s' u) = result_edge_id x"
      "\<exists>k\<in>registered s. edge_id (nodes s k) = result_edge_id x"
      unfolding homes_ok_def using l [OF u] by auto
  qed
qed

lemma homes_place:
  assumes "homes_ok (s, P_Waiting t n, w)" "owned (s, P_Waiting t n, w)" "placed_on r t s result s1"
  shows "homes_ok (granted t result s1, P_Placed t result, w)"
proof -
  have t: "held (s, P_Waiting t n, w) t L_Producer" by simp
  have "t \<notin> set (task_queue (nodes s k))" for k using owned_same [OF assms(2) t, of "L_Queue k"] by auto
  moreover have "w k \<noteq> W_Running t e" for k e using owned_same [OF assms(2) t, of "L_Worker k"] by auto
  moreover have "registered (granted t result s1) = registered s" "task_queue (nodes s1 k) = task_queue (nodes s k)"
    "edge_id (nodes s1 k) = edge_id (nodes s k)" "tasks s1 = tasks s" for k
    using placed_on_frame [OF assms(3)] by (auto simp: registered_def)
  moreover have "r \<in> registered s" "edge_id (nodes s r) = result_edge_id result"
    using assms(3) by (auto simp: placed_on_def getViableEdges_set)
  ultimately show ?thesis
    using assms(1) unfolding homes_ok_def by (auto simp: setStatus_def setAssignedEdgeId_def)
qed

lemma homes_enqueue:
  assumes "homes_ok (s, P_Placed t q, w)" "owned (s, P_Placed t q, w)" "base_ok s" "getEdgeNode (result_edge_id q) s = Inr edge"
  shows "homes_ok (scheduleTask edge (Some t) s, P_Idle, w)" "\<exists>r. edge = Some r"
proof -
  obtain r where r: "edge = Some r" "r \<in> registered s" "edge_id (nodes s r) = result_edge_id q"
    "assigned_edge_id (tasks s t) = result_edge_id q" "status (tasks s t) = QUEUED"
    using homes_placed [OF assms(1,3)] assms(4) by auto
  have t: "held (s, P_Placed t q, w) t L_Producer" by simp
  have "w k \<noteq> W_Running t e" for k e using owned_same [OF assms(2) t, of "L_Worker k"] by auto
  then show "homes_ok (scheduleTask edge (Some t) s, P_Idle, w)"
    using assms(1) r unfolding homes_ok_def
    by (auto simp: scheduleTask_def Let_def registered_def enqueueTask_def setStatus_def upd_node_def upd_task_def)
  show "\<exists>r. edge = Some r" using r(1) by blast
qed

lemma homes_take:
  assumes "homes_ok (s, p, w)" "owned (s, p, w)" "r \<in> registered s" "getNextTask clk (Some r) s = (Some t, s1)"
  shows "homes_ok (beginExecution t s1, p, w(r := W_Running t e))"
proof -
  obtain i where i: "i < length (task_queue (nodes s r))" "t = task_queue (nodes s r) ! i"
    "s1 = upd_node r (\<lambda>n. n\<lparr>task_queue := remove_at i (task_queue (nodes s r))\<rparr>) s"
    using getNextTask_Some [OF assms(4)] by blast
  note q = remove_at_split [OF i(1) owned_queue [OF assms(2)], folded i(2)]
  have t: "held (s, p, w) t (L_Queue r)" using i(1,2) by simp
  have no_worker: "w k \<noteq> W_Running t e" for k e using owned_same [OF assms(2) t, of "L_Worker k"] by auto
  have no_producer: "p \<noteq> P_Placed t x" for x using owned_same [OF assms(2) t, of L_Producer] by auto
  have no_queue: "t \<notin> set (task_queue (nodes s k))" if "k \<noteq> r" for k
    using owned_same [OF assms(2) t, of "L_Queue k"] that by auto
  have same: "registered (beginExecution t s1) = registered s" "edge_id (nodes (beginExecution t s1) k) = edge_id (nodes s k)"
    "tasks (beginExecution t s1) u = (if u = t then setStatus RUNNING (tasks s t) else tasks s u)"
    "task_queue (nodes (beginExecution t s1) k) = (if k = r then remove_at i (task_queue (nodes s r)) else task_queue (nodes s k))" for k u
    by (simp_all add: i(3) registered_def)
  show ?thesis
    unfolding homes_ok_def prod.case same
  proof (intro conjI allI ballI impI)
    fix k u
    assume "u \<in> set (if k = r then remove_at i (task_queue (nodes s r)) else task_queue (nodes s k))"
    then have "u \<in> set (task_queue (nodes s k))" "u \<noteq> t" using q no_queue by (auto split: if_splits)
    then show "status (if u = t then setStatus RUNNING (tasks s t) else tasks s u) = QUEUED"
      "assigned_edge_id (if u = t then setStatus RUNNING (tasks s t) else tasks s u) = edge_id (nodes s k)"
      using homes_queue [OF assms(1)] by simp_all
  next
    fix k u x
    assume "(w(r := W_Running t e)) k = W_Running u x"
    then have "k = r \<and> u = t \<or> w k = W_Running u x" by (auto split: if_splits)
    then show "k \<in> registered s" "status (if u = t then setStatus RUNNING (tasks s t) else tasks s u) = RUNNING"
      "assigned_edge_id (if u = t then setStatus RUNNING (tasks s t) else tasks s u) = edge_id (nodes s k)"
      using assms(3) homes_worker [OF assms(1)] homes_queue [OF assms(1), of t r] t no_worker by (auto simp: setStatus_def)
  next
    fix u x
    assume u: "p = P_Placed u x"
    then have "u \<noteq> t" using no_producer by blast
    then show "status (if u = t then setStatus RUNNING (tasks s t) else tasks s u) = QUEUED"
      "assigned_edge_id (if u = t then setStatus RUNNING (tasks s t) else tasks s u) = result_edge_id x"
      "\<exists>k\<in>registered s. edge_id (nodes s k) = result_edge_id x"
      using assms(1) u by (simp_all add: homes_ok_def)
  qed
qed

lemma homes_finish:
  assumes "homes_ok (s, p, w)" "owned (s, p, w)" "w r = W_Running t e"
  shows "homes_ok (finishExecution now now' e r t s, p, w(r := W_Idle))"
proof -
  have t: "held (s, p, w) t (L_Worker r)" using assms(3) by simp
  have "k = r" if "w k = W_Running t e'" for k e' using owned_same [OF assms(2) t, of "L_Worker k"] that by auto
  moreover have "p \<noteq> P_Placed t x" for x using owned_same [OF assms(2) t, of L_Producer] by auto
  moreover have "t \<notin> set (task_queue (nodes s k))" for k using owned_same [OF assms(2) t, of "L_Queue k"] by auto
  moreover have "registered (finishExecution now now' e r t s) = registered s"
    by (simp add: registered_def)
  ultimately show ?thesis
    using assms(1) unfolding homes_ok_def by (auto split: if_splits) metis+
qed

section \<open>Reachable states\<close>

lemma sys_ok_step:
  assumes "sys_step \<sigma> \<sigma>'" "sys_ok \<sigma>" "next_task (fst \<sigma>) < 2 ^ 63"
  shows "sys_ok \<sigma>'"
  using assms
proof (induction rule: sys_step.induct)
  case (produce now dev sensor data s t s1 w)
  have ok: "base_ok s" "owned (s, P_Idle, w)" "homes_ok (s, P_Idle, w)" using produce.prems(1) by (simp_all add: sys_ok_def)
  note new = base_ok_produce [OF ok(1) produce.hyps]
  let ?s = "db (saved_task (tasks s1 t)) s1"
  have "base_ok ?s" by (rule base_ok_cong [OF new(1)]) (simp_all add: db_def)
  moreover have "owned (?s, P_Created t, w)"
  proof (rule owned_move [OF ok(2), where t = t and l' = L_Producer])
    fix u k
    assume "held (?s, P_Created t, w) u k"
    then show "u = t \<and> k = L_Producer \<or> u \<noteq> t \<and> held (s, P_Idle, w) u k"
      using owned_less [OF ok(2), of u k] new(2,4) by (cases k) auto
  qed (use new owned_queue [OF ok(2)] in auto)
  moreover have "tasks s1 u = tasks s u" if "held (s, P_Idle, w) u l" for u l
    using owned_less [OF ok(2) that] new(2,5) by simp
  then have "homes_ok (?s, P_Created t, w)" using new(4,7) by (intro homes_cong [OF ok(3)]) simp_all
  ultimately show ?case by (simp add: sys_ok_def)
next
  case (request s t w)
  then have ok: "base_ok s" "owned (s, P_Created t, w)" "homes_ok (s, P_Created t, w)" by (simp_all add: sys_ok_def)
  let ?s = "s\<lparr>total_allocations := total_allocations s + 1\<rparr>"
  have "base_ok ?s" by (rule base_ok_cong [OF ok(1)]) simp_all
  moreover have "owned (?s, P_Waiting t max_retries, w)" by (rule owned_cong [OF ok(2)]) simp_all
  moreover have "homes_ok (?s, P_Waiting t max_retries, w)" by (rule homes_cong [OF ok(3)]) simp_all
  ultimately show ?case by (simp add: sys_ok_def)
next
  case (place t s result s1 left w)
  then have ok: "base_ok s" "owned (s, P_Waiting t left, w)" "homes_ok (s, P_Waiting t left, w)" "next_task s < 2 ^ 63"
    by (simp_all add: sys_ok_def)
  obtain r where r: "placed_on r t s result s1" using placed_step [OF ok(1,2,4) place.hyps] by blast
  have "t < next_task s" using owned_less [OF ok(2), of t L_Producer] by simp
  then have "base_ok (granted t result s1)" using base_ok_placed [OF ok(1) _ r] by blast
  moreover have "owned (granted t result s1, P_Placed t result, w)"
    using placed_on_frame [OF r] by (intro owned_cong [OF ok(2)]) auto
  ultimately show ?case using homes_place [OF ok(3,2) r] by (simp add: sys_ok_def)
next
  case (retry t s result s1 left w)
  then have ok: "base_ok s" "owned (s, P_Waiting t (Suc left), w)" "homes_ok (s, P_Waiting t (Suc left), w)" "next_task s < 2 ^ 63"
    by (simp_all add: sys_ok_def)
  have s1: "s1 = s" using unplaced_step [OF ok(1,2,4) retry.hyps(1,2)] .
  have "owned (s, P_Waiting t left, w)" by (rule owned_cong [OF ok(2)]) simp_all
  moreover have "homes_ok (s, P_Waiting t left, w)" by (rule homes_cong [OF ok(3)]) simp_all
  ultimately show ?case using ok(1) by (simp add: sys_ok_def s1)
next
  case (give_up t s result s1 left w)
  then have ok: "base_ok s" "owned (s, P_Waiting t left, w)" "homes_ok (s, P_Waiting t left, w)" "next_task s < 2 ^ 63"
    by (simp_all add: sys_ok_def)
  have s1: "s1 = s" using unplaced_step [OF ok(1,2,4) give_up.hyps(1,2)] .
  let ?s = "db (Db_saveAllocationFailure (task_id (tasks s1 t)) (reason result)) (refused s1)"
  have "base_ok ?s" by (rule base_ok_cong [OF ok(1)]) (simp_all add: s1 db_def refused_def)
  moreover have "owned (?s, P_Idle, w)"
  proof (rule owned_sub [OF ok(2)])
    fix u k
    assume "held (?s, P_Idle, w) u k"
    then show "held (s, P_Waiting t left, w) u k" by (cases k) (simp_all add: s1)
  qed (use owned_queue [OF ok(2)] in \<open>simp_all add: s1\<close>)
  moreover have "homes_ok (?s, P_Idle, w)" by (rule homes_cong [OF ok(3)]) (simp_all add: s1)
  ultimately show ?case by (simp add: sys_ok_def)
next
  case (enqueue result s edge t w label)
  then have ok: "base_ok s" "owned (s, P_Placed t result, w)" "homes_ok (s, P_Placed t result, w)" by (simp_all add: sys_ok_def)
  let ?s1 = "scheduleTask edge (Some t) s"
  let ?s = "db (Db_saveAllocation (task_id (tasks s t)) (result_edge_id result) (score result) label) ?s1"
  note homes = homes_enqueue [OF ok(3,2,1) enqueue.hyps]
  have "base_ok ?s" by (rule base_ok_cong [OF base_ok_schedule [OF ok(1)]]) (simp_all add: db_def)
  moreover have "owned (?s1, P_Idle, w)" using owned_enqueue [OF ok(2)] homes(2) by auto
  then have "owned (?s, P_Idle, w)" by (rule owned_cong) simp_all
  moreover have "homes_ok (?s, P_Idle, w)" by (rule homes_cong [OF homes(1)]) (simp_all add: db_def)
  ultimately show ?case by (simp add: sys_ok_def)
next
  case (take eid r s w clk t s1 p jitter)
  then have ok: "base_ok s" "owned (s, p, w)" "homes_ok (s, p, w)" by (simp_all add: sys_ok_def)
  have "r \<in> registered s" using ok(1) take.hyps(1) by (auto simp: base_ok_def)
  then show ?case
    using base_ok_take [OF ok(1) take.hyps(4)] owned_take [OF ok(2) take.hyps(3,4)] homes_take [OF ok(3,2) _ take.hyps(4)]
    by (simp add: sys_ok_def)
next
  case (finish w r t e s p now now')
  then have ok: "base_ok s" "owned (s, p, w)" "homes_ok (s, p, w)" by (simp_all add: sys_ok_def)
  let ?s = "finishExecution now now' e r t s"
  have t: "t < next_task s" using owned_less [OF ok(2), of t "L_Worker r"] finish.hyps by simp
  have n: "next_task ?s = next_task s" by simp
  have "owned (?s, p, w(r := W_Idle))"
  proof (rule owned_sub [OF ok(2)])
    fix u k
    assume "held (?s, p, w(r := W_Idle)) u k"
    then show "held (s, p, w) u k" by (cases k) (auto split: if_splits)
  qed (use owned_queue [OF ok(2)] n in auto)
  then show ?case using base_ok_finish [OF ok(1) t] homes_finish [OF ok(3,2) finish.hyps] by (simp add: sys_ok_def)
next
  case (fluctuate draws s s1 w)
  then have ok: "base_ok s" "owned (s, P_Idle, w)" "homes_ok (s, P_Idle, w)" by (simp_all add: sys_ok_def)
  have s1: "s1 = fluctuate_loop draws (edge_nodes s) s"
    using fluctuate.hyps by (simp add: updateResourceMetrics_def split: if_splits)
  have "owned (s1, P_Idle, w)" by (rule owned_cong [OF ok(2)]) (simp_all add: s1)
  moreover have "homes_ok (s1, P_Idle, w)" by (rule homes_cong [OF ok(3)]) (simp_all add: s1)
  ultimately show ?case using base_ok_fluctuate [OF ok(1) fluctuate.hyps] by (simp add: sys_ok_def)
next
  case (configure p s w sst st)
  then have ok: "base_ok s" "owned (s, p, w)" "homes_ok (s, p, w)" by (simp_all add: sys_ok_def)
  let ?s = "setSchedStrategy sst (setStrategy st s)"
  have "base_ok ?s" by (rule base_ok_cong [OF ok(1)]) (simp_all add: setSchedStrategy_def setStrategy_def)
  moreover have "owned (?s, p, w)" by (rule owned_cong [OF ok(2)]) (simp_all add: setSchedStrategy_def setStrategy_def)
  moreover have "homes_ok (?s, p, w)" by (rule homes_cong [OF ok(3)]) (simp_all add: setSchedStrategy_def setStrategy_def)
  ultimately show ?case by (simp add: sys_ok_def)
next
  case (snapshot s w r)
  then have ok: "base_ok s" "owned (s, P_Idle, w)" "homes_ok (s, P_Idle, w)" by (simp_all add: sys_ok_def)
  let ?s = "db (Db_saveResourceSnapshot (edge_id (nodes s r)) (current_usage (nodes s r)) (getQueueLength (nodes s r))) s"
  have "base_ok ?s" by (rule base_ok_cong [OF ok(1)]) (simp_all add: db_def)
  moreover have "owned (?s, P_Idle, w)" by (rule owned_cong [OF ok(2)]) simp_all
  moreover have "homes_ok (?s, P_Idle, w)" by (rule homes_cong [OF ok(3)]) (simp_all add: db_def)
  ultimately show ?case by (simp add: sys_ok_def)
next
  case (outside s' s p w)
  then have ok: "base_ok s" "owned (s, p, w)" "homes_ok (s, p, w)" by (simp_all add: sys_ok_def)
  note same = same_components [OF outside.hyps]
  have "base_ok s'" by (rule base_ok_cong [OF ok(1)]) (simp_all add: same)
  moreover have "owned (s', p, w)" by (rule owned_cong [OF ok(2)]) (simp_all add: same)
  moreover have "homes_ok (s', p, w)" by (rule homes_cong [OF ok(3)]) (simp_all add: same)
  ultimately show ?case by (simp add: sys_ok_def)
qed

end
