(* ===== verification/Bandwidth.thy ===== *)
theory Bandwidth
  imports Simulation
begin

text \<open>
  Bandwidth accounting of the running simulation: what a node has reserved is exactly what the tasks
  at the node need, whatever the interleaving, because the catalogue's bandwidths are multiples of a
  half and their sums are exact in binary64.
\<close>

section \<open>Bandwidth is accounted for exactly\<close>

text \<open>
  The bandwidth of a node, unlike its CPU and RAM, is not moved by the random fluctuation, so its
  usage can be compared with the tasks that hold it. Bandwidth requirements are multiples of a
  half in all built-in profiles, so their sums are exact in binary64.
\<close>

definition half :: "rat \<Rightarrow> bool" where
  "half x \<longleftrightarrow> (\<exists>k :: int. x = of_int k / 2)"

lemma half_add: "half x \<Longrightarrow> half y \<Longrightarrow> half (x + y)"
  unfolding half_def by (metis add_divide_distrib of_int_add)

lemma half_minus: "half x \<Longrightarrow> half (- x)"
  unfolding half_def by (metis minus_divide_left of_int_minus)

lemma half_0 [simp]: "half 0"
  unfolding half_def by (rule exI [of _ 0]) simp

lemma half_sum_list: "\<forall>x\<in>set xs. half x \<Longrightarrow> half (sum_list xs)"
  by (induction xs) (auto simp: half_add)

lemma half_sum_exact:
  assumes "half x" "half y" "\<bar>x\<bar> \<le> 2 ^ 51" "\<bar>y\<bar> \<le> 2 ^ 51"
  shows "fl (x + y) = x + y"
proof -
  obtain k j :: int where k: "x = of_int k / 2" "y = of_int j / 2" using assms(1,2) by (auto simp: half_def)
  have "\<bar>of_int (k + j) :: rat\<bar> \<le> 2 ^ 53" using assms(3,4) unfolding k by (simp add: abs_if split: if_splits)
  then have "\<bar>k + j\<bar> \<le> 2 ^ 53" by (metis of_int_abs of_int_le_iff of_int_numeral of_int_power)
  then have "fl (of_int (k + j) * 2 powi (- 1)) = of_int (k + j) * 2 powi (- 1)" by (intro fl_exact) auto
  then show ?thesis by (simp add: k add_divide_distrib)
qed

definition bw :: "('j, 'm) executor_scheme \<Rightarrow> tref \<Rightarrow> rat" where
  "bw s t = rat_of (bandwidth_mbps (reqs (tasks s t)))"

definition used_bw :: "('j, 'm) executor_scheme \<Rightarrow> nref \<Rightarrow> rat" where
  "used_bw s r = rat_of (used_bandwidth_mbps (current_usage (nodes s r)))"

text \<open>The bandwidth of the tasks that hold a reservation on a node: those in its queue, the one its
  worker runs and the one the producer has placed on it and not yet queued.\<close>

fun running_bw :: "(tref \<Rightarrow> rat) \<Rightarrow> worker \<Rightarrow> rat" where
  "running_bw f W_Idle = 0"
| "running_bw f (W_Running t e) = f t"

fun placed_bw :: "(tref \<Rightarrow> rat) \<Rightarrow> producer \<Rightarrow> string \<Rightarrow> rat" where
  "placed_bw f (P_Placed t q) eid = (if eid = result_edge_id q then f t else 0)"
| "placed_bw f _ eid = 0"

fun held_bw :: "('j, 'm) system \<Rightarrow> nref \<Rightarrow> rat" where
  "held_bw (s, p, w) r =
     sum_list (map (bw s) (task_queue (nodes s r))) +
     running_bw (bw s) (w r) + placed_bw (bw s) p (edge_id (nodes s r))"

definition halves_ok :: "('j, 'm) executor_scheme \<Rightarrow> bool" where
  "halves_ok s \<longleftrightarrow> (\<forall>t<next_task s. half (bw s t)) \<and>
     (\<forall>sensor. half (rat_of (bandwidth_mbps (getRequirements (profile_map s) sensor)))) \<and>
     (\<forall>r\<in>registered s. rat_of (cap_bandwidth_mbps (capacity (nodes s r))) \<le> 2 ^ 50)"

definition bw_ok :: "('j, 'm) system \<Rightarrow> bool" where
  "bw_ok \<sigma> \<longleftrightarrow> halves_ok (fst \<sigma>) \<and> (\<forall>r\<in>registered (fst \<sigma>). used_bw (fst \<sigma>) r = held_bw \<sigma> r)"

lemma held_bw_parts:
  assumes "base_ok s" "owned (s, p, w)"
  shows "t \<in> set (task_queue (nodes s r)) \<Longrightarrow> 0 \<le> bw s t \<and> t < next_task s"
    "w r = W_Running t e \<Longrightarrow> 0 \<le> bw s t \<and> t < next_task s" "p = P_Placed t q \<Longrightarrow> 0 \<le> bw s t \<and> t < next_task s"
    "p = P_Waiting t n \<Longrightarrow> 0 \<le> bw s t \<and> t < next_task s"
proof -
  have "0 \<le> bw s t" if "t < next_task s"
    using assms(1) tasks_okD [OF _ that] by (auto simp: base_ok_def bw_def req_ok_def double_iffs rat_of_ops)
  then show "t \<in> set (task_queue (nodes s r)) \<Longrightarrow> 0 \<le> bw s t \<and> t < next_task s"
    "w r = W_Running t e \<Longrightarrow> 0 \<le> bw s t \<and> t < next_task s" "p = P_Placed t q \<Longrightarrow> 0 \<le> bw s t \<and> t < next_task s"
    "p = P_Waiting t n \<Longrightarrow> 0 \<le> bw s t \<and> t < next_task s"
    using owned_less [OF assms(2), of t "L_Queue r"] owned_less [OF assms(2), of t "L_Worker r"]
      owned_less [OF assms(2), of t L_Producer] by auto
qed

lemma registered_inj:
  assumes "base_ok s" "r \<in> registered s" "k \<in> registered s" "edge_id (nodes s r) = edge_id (nodes s k)"
  shows "r = k"
proof -
  have m: "monitor_ok s" using assms(1) by (simp add: base_ok_def)
  have "getEdgeNode (edge_id (nodes s k)) s = Inr (Some r)" "getEdgeNode (edge_id (nodes s k)) s = Inr (Some k)"
    using assms(2-4) by (simp_all add: getEdgeNode_registered [OF m])
  then show ?thesis by simp
qed

lemma used_bw_bounds:
  assumes "base_ok s" "halves_ok s" "r \<in> registered s"
  shows "0 \<le> used_bw s r" "used_bw s r \<le> 2 ^ 51"
proof -
  let ?c = "cap_bandwidth_mbps (capacity (nodes s r))"
  have r: "r < next_node s" using assms(1,3) by (auto simp: base_ok_def dest: registered_less)
  then have ok: "node_ok (nodes s r)" "0 \<le> rat_of ?c"
    using assms(1) by (auto simp: base_ok_def nodes_ok_def cap_ok_def double_iffs rat_of_ops)
  then show "0 \<le> used_bw s r" by (simp add: node_ok_def fits_def used_bw_def double_iffs rat_of_ops)
  have c: "rat_of ?c \<le> 2 ^ 50" using assms(2,3) by (simp add: halves_ok_def)
  have "used_bw s r \<le> rat_of ?c + ulp (rat_of ?c)"
    using ok(1) by (auto simp: node_ok_def fits_def fill_bound_def used_bw_def less_imp_le split: if_splits intro: order_trans)
  also have "\<dots> \<le> 2 ^ 50 + ulp (2 ^ 50)" using c ok(2) by (intro add_mono ulp_mono) auto
  also have "\<dots> \<le> 2 ^ 51"
  proof -
    have "ulp (2 ^ 50) = 1 / 4" by code_simp
    then show ?thesis by simp
  qed
  finally show "used_bw s r \<le> 2 ^ 51" .
qed

lemma reserve_bw_exact:
  assumes "base_ok s" "halves_ok s" "r \<in> registered s" "half (used_bw s r)" "half (bw s t)" "0 \<le> bw s t"
    "can_host (reqs (tasks s t)) (nodes s r)"
  shows "rat_of (used_bandwidth_mbps (current_usage (reserve (reqs (tasks s t)) (nodes s r)))) = used_bw s r + bw s t"
proof -
  let ?c = "rat_of (cap_bandwidth_mbps (capacity (nodes s r)))"
  note u = used_bw_bounds [OF assms(1-3)]
  have "bw s t \<le> fl (?c - used_bw s r)"
    using assms(7) by (simp add: canAllocate_def Let_def bw_def used_bw_def less_eq_double.rep_eq rat_of_minus)
  also have "\<dots> \<le> fl ?c" using u(1) by (intro fl_mono) simp
  also have "\<dots> \<le> 2 ^ 50" using assms(2,3) by (simp add: halves_ok_def)
  finally have "\<bar>bw s t\<bar> \<le> 2 ^ 51" using assms(6) by simp
  then have "fl (used_bw s r + bw s t) = used_bw s r + bw s t" using u assms(4,5) by (intro half_sum_exact) auto
  then show ?thesis by (simp add: allocateResources_def plus_double.rep_eq used_bw_def bw_def)
qed

lemma release_bw_exact:
  assumes "base_ok s" "halves_ok s" "r \<in> registered s" "half (used_bw s r)" "half (bw s t)" "0 \<le> bw s t" "bw s t \<le> used_bw s r"
  shows "rat_of (used_bandwidth_mbps (current_usage (release (reqs (tasks s t)) (nodes s r)))) = used_bw s r - bw s t"
proof -
  note u = used_bw_bounds [OF assms(1-3)]
  have "fl (used_bw s r + - bw s t) = used_bw s r + - bw s t"
    using u assms(4-7) by (intro half_sum_exact half_minus) auto
  then have "rat_of (used_bandwidth_mbps (current_usage (nodes s r)) - bandwidth_mbps (reqs (tasks s t))) = used_bw s r - bw s t"
    by (simp add: rat_of_minus used_bw_def bw_def)
  then show ?thesis
    using assms(7) by (auto simp: deallocateResources_def max_def less_eq_double.rep_eq rat_of_ops)
qed

lemma halves_ok_cong:
  assumes "halves_ok s" "\<And>u. reqs (tasks s' u) = reqs (tasks s u)" "next_task s' = next_task s" "profile_map s' = profile_map s"
    "edge_nodes s' = edge_nodes s" "\<And>r. capacity (nodes s' r) = capacity (nodes s r)"
  shows "halves_ok s'" "bw s' = bw s" "registered s' = registered s"
  using assms(1) by (simp_all add: halves_ok_def bw_def [abs_def] registered_def assms(2-))

lemma bw_ok_cong:
  assumes "bw_ok (s, p, w)" "\<And>u. reqs (tasks s' u) = reqs (tasks s u)" "next_task s' = next_task s" "profile_map s' = profile_map s"
    "edge_nodes s' = edge_nodes s" "\<And>r. capacity (nodes s' r) = capacity (nodes s r)"
    "\<And>r. task_queue (nodes s' r) = task_queue (nodes s r)" "\<And>r. edge_id (nodes s' r) = edge_id (nodes s r)"
    "\<And>r. used_bw s' r = used_bw s r" "\<And>f eid. placed_bw f p' eid = placed_bw f p eid"
  shows "bw_ok (s', p', w)"
proof -
  have "halves_ok s" using assms(1) by (simp add: bw_ok_def)
  note h = halves_ok_cong [OF this assms(2-6)]
  have "held_bw (s', p', w) r = held_bw (s, p, w) r" for r
    by (simp add: h(2) assms(7,8,10))
  then show ?thesis using assms(1) h by (simp add: bw_ok_def assms(9))
qed

lemma bw_held_half:
  assumes "base_ok s" "owned (s, p, w)" "bw_ok (s, p, w)" "r \<in> registered s"
  shows "half (used_bw s r)" "t < next_task s \<Longrightarrow> half (bw s t)"
proof -
  have h: "half (bw s t)" if "t < next_task s" for t using assms(3) that by (simp add: bw_ok_def halves_ok_def)
  then show "t < next_task s \<Longrightarrow> half (bw s t)" .
  have "half (sum_list (map (bw s) (task_queue (nodes s r))))"
    using held_bw_parts(1) [OF assms(1,2)] h by (intro half_sum_list) auto
  moreover have "half (running_bw (bw s) (w r))"
    using held_bw_parts(2) [OF assms(1,2)] h by (cases "w r") auto
  moreover have "half (placed_bw (bw s) p (edge_id (nodes s r)))"
    using held_bw_parts(3) [OF assms(1,2)] h by (cases p) auto
  ultimately show "half (used_bw s r)" using assms(3,4) by (auto simp: bw_ok_def intro: half_add)
qed

lemma bw_ok_produce:
  assumes "base_ok s" "owned (s, P_Idle, w)" "bw_ok (s, P_Idle, w)" "createTaskFromSensorData now None dev sensor data s = Inr (t, s1)"
  shows "bw_ok (db c s1, P_Created t, w)"
proof -
  note new = base_ok_produce [OF assms(1,4)]
  have prof: "profile_map s1 = profile_map s" using assms(4) by (auto simp: create_no_callback)
  have b: "bw (db c s1) u = bw s u" if "u < next_task s" for u using that new(2,5) by (simp add: bw_def)
  have "half (bw (db c s1) t)" using assms(3) new(6) by (simp add: bw_def bw_ok_def halves_ok_def)
  then have "half (bw (db c s1) u)" if "u < Suc (next_task s)" for u
    using that b [of u] assms(3) new(2) by (cases "u = t") (auto simp: bw_ok_def halves_ok_def)
  then have "halves_ok (db c s1)"
    using assms(3) new(3,4,7) prof by (simp add: bw_ok_def halves_ok_def registered_def db_def)
  moreover have "held_bw (db c s1, P_Created t, w) r = held_bw (s, P_Idle, w) r" for r
  proof -
    have "sum_list (map (bw (db c s1)) (task_queue (nodes s r))) = sum_list (map (bw s) (task_queue (nodes s r)))"
      using b held_bw_parts(1) [OF assms(1,2)] by (intro arg_cong [of _ _ sum_list] map_cong) auto
    moreover have "running_bw (bw (db c s1)) (w r) = running_bw (bw s) (w r)"
      using b held_bw_parts(2) [OF assms(1,2)] by (cases "w r") auto
    ultimately show ?thesis by (simp add: new(4))
  qed
  ultimately show ?thesis using assms(3) new(4,7) by (simp add: bw_ok_def used_bw_def registered_def)
qed

lemma bw_ok_place:
  assumes "base_ok s" "owned (s, P_Waiting t n, w)" "bw_ok (s, P_Waiting t n, w)" "placed_on r t s result s1"
  shows "bw_ok (granted t result s1, P_Placed t result, w)"
proof -
  let ?s = "granted t result s1"
  have r: "r \<in> registered s" "can_host (reqs (tasks s t)) (nodes s r)" "edge_id (nodes s r) = result_edge_id result"
    using assms(4) by (auto simp: placed_on_def getViableEdges_set)
  have nodes: "nodes ?s = (nodes s)(r := reserve (reqs (tasks s t)) (nodes s r))" and rest: "edge_nodes ?s = edge_nodes s"
    "next_task ?s = next_task s" "tasks ?s = (tasks s)(t := setStatus QUEUED (setAssignedEdgeId (result_edge_id result) (tasks s t)))"
    "profile_map ?s = profile_map s"
    using placed_on_frame [OF assms(4)] assms(4) by (auto simp: placed_on_def)
  have halves: "halves_ok s" using assms(3) by (simp add: bw_ok_def)
  have same: "reqs (tasks ?s u) = reqs (tasks s u)" "capacity (nodes ?s k) = capacity (nodes s k)" for u k
    unfolding nodes rest by simp_all
  note h = halves_ok_cong [OF halves, of ?s, OF same(1) rest(2,4,1) same(2)]
  have t: "0 \<le> bw s t" "t < next_task s" using held_bw_parts(4) [OF assms(1,2)] by auto
  have "used_bw ?s k = held_bw (?s, P_Placed t result, w) k" if k: "k \<in> registered s" for k
  proof (cases "k = r")
    case True
    have "used_bw ?s r = used_bw s r + bw s t"
      using reserve_bw_exact [OF assms(1) halves r(1) bw_held_half(1) [OF assms(1-3) r(1)] bw_held_half(2) [OF assms(1-3) r(1) t(2)] t(1) r(2)]
      by (simp add: used_bw_def [of ?s] nodes del: granted_simps)
    then show ?thesis using assms(3) r(1,3) True by (simp add: bw_ok_def nodes h(2) del: granted_simps)
  next
    case False
    then have "edge_id (nodes s k) \<noteq> result_edge_id result" using registered_inj [OF assms(1) k r(1)] r(3) by auto
    then show ?thesis using assms(3) k False by (simp add: bw_ok_def nodes h(2) used_bw_def del: granted_simps)
  qed
  then show ?thesis using h by (simp add: bw_ok_def del: granted_simps)
qed

lemma bw_ok_enqueue:
  assumes "base_ok s" "bw_ok (s, P_Placed t q, w)" "r \<in> registered s" "edge_id (nodes s r) = result_edge_id q"
  shows "bw_ok (scheduleTask (Some r) (Some t) s, P_Idle, w)"
proof -
  let ?s = "scheduleTask (Some r) (Some t) s"
  have nodes: "nodes ?s = (nodes s)(r := enqueueTask t (nodes s r))" and rest: "edge_nodes ?s = edge_nodes s"
    "next_task ?s = next_task s" "tasks ?s = (tasks s)(t := setStatus QUEUED (tasks s t))" "profile_map ?s = profile_map s"
    by (simp_all add: scheduleTask_def Let_def)
  have halves: "halves_ok s" using assms(2) by (simp add: bw_ok_def)
  have h: "halves_ok ?s" "bw ?s = bw s" "registered ?s = registered s"
    by (rule halves_ok_cong [OF halves]; simp add: nodes rest)+
  have "used_bw ?s k = held_bw (?s, P_Idle, w) k" if k: "k \<in> registered s" for k
  proof (cases "k = r")
    case True
    then show ?thesis using assms(2,3,4) by (simp add: bw_ok_def nodes h(2) used_bw_def enqueueTask_def)
  next
    case False
    then have "edge_id (nodes s k) \<noteq> result_edge_id q" using registered_inj [OF assms(1) k assms(3)] assms(4) by auto
    then show ?thesis using assms(2) k False by (simp add: bw_ok_def nodes h(2) used_bw_def)
  qed
  then show ?thesis using h by (simp add: bw_ok_def)
qed

lemma sum_list_remove_at: "i < length q \<Longrightarrow> sum_list (map f q) = f (q ! i) + sum_list (map f (remove_at i q)) " for f :: "'a \<Rightarrow> rat"
  using mset_remove_at [of i q] by (metis sum_mset_sum_list image_mset_add_mset mset_map sum_mset.add_mset)

lemma bw_ok_take:
  assumes "bw_ok (s, p, w)" "w r = W_Idle" "getNextTask clk (Some r) s = (Some t, s1)"
  shows "bw_ok (beginExecution t s1, p, w(r := W_Running t e))"
proof -
  obtain i where i: "i < length (task_queue (nodes s r))" "t = task_queue (nodes s r) ! i"
    "s1 = upd_node r (\<lambda>n. n\<lparr>task_queue := remove_at i (task_queue (nodes s r))\<rparr>) s"
    using getNextTask_Some [OF assms(3)] by blast
  let ?s = "beginExecution t s1"
  have nodes: "nodes ?s = (nodes s)(r := (nodes s r)\<lparr>task_queue := remove_at i (task_queue (nodes s r))\<rparr>)"
    and rest: "edge_nodes ?s = edge_nodes s" "next_task ?s = next_task s" "tasks ?s = (tasks s)(t := setStatus RUNNING (tasks s t))"
      "profile_map ?s = profile_map s"
    by (simp_all add: i(3))
  have halves: "halves_ok s" using assms(1) by (simp add: bw_ok_def)
  have same: "reqs (tasks ?s u) = reqs (tasks s u)" "capacity (nodes ?s k) = capacity (nodes s k)" for u k
    unfolding nodes rest by simp_all
  note h = halves_ok_cong [OF halves, of ?s, OF same(1) rest(2,4,1) same(2)]
  have "used_bw ?s k = held_bw (?s, p, w(r := W_Running t e)) k" if k: "k \<in> registered s" for k
    using assms(1,2) k sum_list_remove_at [OF i(1), of "bw s", folded i(2)]
    by (cases "k = r") (simp_all add: bw_ok_def nodes h(2) used_bw_def del: begin_simps)
  then show ?thesis using h by (simp add: bw_ok_def)
qed

lemma bw_ok_finish:
  assumes "base_ok s" "owned (s, p, w)" "bw_ok (s, p, w)" "w r = W_Running t e" "r \<in> registered s"
  shows "bw_ok (finishExecution now now' e r t s, p, w(r := W_Idle))"
proof -
  let ?s = "finishExecution now now' e r t s"
  have rest: "edge_nodes ?s = edge_nodes s" "next_task ?s = next_task s" "profile_map ?s = profile_map s"
    by simp_all
  have halves: "halves_ok s" using assms(3) by (simp add: bw_ok_def)
  have h: "halves_ok ?s" "bw ?s = bw s" "registered ?s = registered s"
    by (rule halves_ok_cong [OF halves]; simp add: rest)+
  have t: "0 \<le> bw s t" "t < next_task s" using held_bw_parts(2) [OF assms(1,2,4)] by auto
  have "0 \<le> sum_list (map (bw s) (task_queue (nodes s r)))"
    using held_bw_parts(1) [OF assms(1,2)] by (intro sum_list_nonneg) auto
  moreover have "0 \<le> placed_bw (bw s) p (edge_id (nodes s r))"
    using held_bw_parts(3) [OF assms(1,2)] by (cases p) auto
  ultimately have le: "bw s t \<le> used_bw s r" using assms(3,4,5) by (simp add: bw_ok_def)
  have u: "used_bw ?s r = used_bw s r - bw s t"
    using release_bw_exact [OF assms(1) halves assms(5) bw_held_half(1) [OF assms(1-3,5)] bw_held_half(2) [OF assms(1-3,5) t(2)] t(1) le]
    by (simp add: used_bw_def [of ?s])
  have "used_bw ?s k = held_bw (?s, p, w(r := W_Idle)) k" if k: "k \<in> registered s" for k
  proof (cases "k = r")
    case True
    then show ?thesis using u assms(3,4,5) by (simp add: bw_ok_def h(2))
  next
    case False
    then show ?thesis using k assms(3) by (simp add: bw_ok_def h(2) used_bw_def)
  qed
  then show ?thesis using h by (simp add: bw_ok_def)
qed

lemma bw_ok_step:
  assumes "sys_step \<sigma> \<sigma>'" "sys_ok \<sigma>" "bw_ok \<sigma>" "next_task (fst \<sigma>) < 2 ^ 63"
  shows "bw_ok \<sigma>'"
  using assms
proof (induction rule: sys_step.induct)
  case (produce now dev sensor data s t s1 w)
  then show ?case by (intro bw_ok_produce) (simp_all add: sys_ok_def)
next
  case (request s t w)
  then show ?case by (elim bw_ok_cong) (simp_all add: used_bw_def)
next
  case (place t s result s1 left w)
  then have ok: "base_ok s" "owned (s, P_Waiting t left, w)" "next_task s < 2 ^ 63" by (simp_all add: sys_ok_def)
  obtain r where "placed_on r t s result s1" using placed_step [OF ok place.hyps] by blast
  then show ?case using bw_ok_place [OF ok(1,2) place.prems(2)] by blast
next
  case (retry t s result s1 left w)
  then have ok: "base_ok s" "owned (s, P_Waiting t (Suc left), w)" "next_task s < 2 ^ 63" by (simp_all add: sys_ok_def)
  have "s1 = s" using unplaced_step [OF ok retry.hyps(1,2)] .
  then show ?case using retry.prems(2) by (elim bw_ok_cong) simp_all
next
  case (give_up t s result s1 left w)
  then have ok: "base_ok s" "owned (s, P_Waiting t left, w)" "next_task s < 2 ^ 63" by (simp_all add: sys_ok_def)
  have "s1 = s" using unplaced_step [OF ok give_up.hyps(1,2)] .
  then show ?case using give_up.prems(2) by (elim bw_ok_cong) (simp_all add: used_bw_def)
next
  case (enqueue result s edge t w label)
  then have ok: "base_ok s" "owned (s, P_Placed t result, w)" "homes_ok (s, P_Placed t result, w)" by (simp_all add: sys_ok_def)
  obtain r where r: "edge = Some r" "r \<in> registered s" "edge_id (nodes s r) = result_edge_id result"
    using homes_placed [OF ok(3,1)] enqueue.hyps by auto
  have "bw_ok (scheduleTask edge (Some t) s, P_Idle, w)" using bw_ok_enqueue [OF ok(1) enqueue.prems(2) r(2,3)] r(1) by simp
  then show ?case by (elim bw_ok_cong) (simp_all add: used_bw_def)
next
  case (take eid r s w clk t s1 p jitter)
  then show ?case by (intro bw_ok_take)
next
  case (finish w r t e s p now now')
  then have ok: "base_ok s" "owned (s, p, w)" "homes_ok (s, p, w)" by (simp_all add: sys_ok_def)
  show ?case using bw_ok_finish [OF ok(1,2) finish.prems(2) finish.hyps] homes_worker [OF ok(3) finish.hyps] by blast
next
  case (fluctuate draws s s1 w)
  have s1: "s1 = fluctuate_loop draws (edge_nodes s) s"
    using fluctuate.hyps by (simp add: updateResourceMetrics_def split: if_splits)
  show ?case using fluctuate.prems(2) by (elim bw_ok_cong) (simp_all add: s1 used_bw_def)
next
  case (configure p s w sst st)
  from configure.prems(2) show ?case by (elim bw_ok_cong) (simp_all add: setSchedStrategy_def setStrategy_def used_bw_def)
next
  case (snapshot s w r)
  from snapshot.prems(2) show ?case by (elim bw_ok_cong) (simp_all add: used_bw_def)
next
  case (outside s' s p w)
  from outside.prems(2) show ?case by (elim bw_ok_cong) (simp_all add: same_components [OF outside.hyps] used_bw_def)
qed

end
