(* ===== verification/Startup.thy ===== *)
theory Startup
  imports Task_Executor
begin

text \<open>
  The set-up of an experiment in \<^verbatim>\<open>main.cpp\<close>: the names of the strategies, the fleet of edge nodes
  and the construction of the components, up to the start of the workers. The random generator of
  \<open>createEdgeNodes\<close> is a static seeded once, so its state outlives the call: it is the stream of
  draws and the position the next call goes on from. A draw holds the RAM, the bandwidth and the
  latency of one node.
\<close>

section \<open>Names of strategies\<close>

definition strategyFromString :: "string \<Rightarrow> allocation_strategy" where
  "strategyFromString name =
     (if name = ''round_robin'' then ROUND_ROBIN
      else if name = ''least_load'' then LEAST_LOAD
      else if name = ''priority_based'' then PRIORITY_BASED
      else MULTI_CONSTRAINT)"

fun strategyToLabel :: "allocation_strategy \<Rightarrow> string" where
  "strategyToLabel ROUND_ROBIN = ''Round Robin''"
| "strategyToLabel LEAST_LOAD = ''Least Load''"
| "strategyToLabel PRIORITY_BASED = ''Priority Based''"
| "strategyToLabel MULTI_CONSTRAINT = ''Multi-Constraint''"

definition schedulingFromString :: "string \<Rightarrow> scheduling_strategy" where
  "schedulingFromString name =
     (if name = ''fifo'' then FIFO
      else if name = ''edf'' then EARLIEST_DEADLINE_FIRST
      else if name = ''round_robin'' then ROUND_ROBIN_TIME_SLICE
      else SCHED_PRIORITY_BASED)"

fun schedulingToLabel :: "scheduling_strategy \<Rightarrow> string" where
  "schedulingToLabel FIFO = ''FIFO''"
| "schedulingToLabel SCHED_PRIORITY_BASED = ''Priority Based''"
| "schedulingToLabel EARLIEST_DEADLINE_FIRST = ''Earliest Deadline First (EDF)''"
| "schedulingToLabel ROUND_ROBIN_TIME_SLICE = ''Round Robin Time Slice''"

section \<open>The fleet\<close>

type_synonym node_draw = "double \<times> double \<times> int"

definition node_name :: "nat \<Rightarrow> string" where
  "node_name i = ''E'' @ pad_dec 2 (i + 1)"

definition drawn_capacity :: "node_draw \<Rightarrow> resource_capacity" where
  "drawn_capacity d = (case d of (ram, bandwidth, latency) \<Rightarrow>
     \<lparr>cap_cpu_percent = dbl 100, cap_ram_mb = ram, cap_bandwidth_mbps = bandwidth, latency_ms = latency\<rparr>)"

text \<open>The loop from \<open>i\<close> with \<open>k\<close> nodes to go and the generator at position \<open>g\<close>.\<close>

fun create_nodes :: "(nat \<Rightarrow> node_draw) \<Rightarrow> nat \<Rightarrow> nat \<Rightarrow> nat \<Rightarrow> ('j, 'm) monitor_scheme \<Rightarrow> fault + nref list \<times> nat \<times> ('j, 'm) monitor_scheme" where
  "create_nodes draws g i 0 s = Inr ([], g, s)"
| "create_nodes draws g i (Suc k) s =
     (let cap = drawn_capacity (draws g);
          (r, s1) = make_node (new_edge_node (node_name i) cap) s
      in bind_sum (registerEdgeNode (Some r) s1) (\<lambda>s2.
         bind_sum (create_nodes draws (Suc g) (Suc i) k (db (Db_saveEdgeNode (node_name i) cap) s2)) (\<lambda>(rs, g', s3).
           Inr (r # rs, g', s3))))"

definition createEdgeNodes :: "(nat \<Rightarrow> node_draw) \<Rightarrow> nat \<Rightarrow> nat \<Rightarrow> ('j, 'm) monitor_scheme \<Rightarrow> fault + nref list \<times> nat \<times> ('j, 'm) monitor_scheme" where
  "createEdgeNodes draws g n s = create_nodes draws g 0 n s"

text \<open>Each experiment constructs its components anew; the objects, the profiles and the database stay.\<close>

definition new_components :: "allocation_strategy \<Rightarrow> scheduling_strategy \<Rightarrow> 'j executor \<Rightarrow> 'j executor" where
  "new_components st sst s = new_executor (new_scheduler sst (new_allocator st (new_manager (new_monitor s))))"

text \<open>\<open>runExperiment\<close> up to \<open>executor->start()\<close>.\<close>

definition setup_experiment :: "(nat \<Rightarrow> node_draw) \<Rightarrow> nat \<Rightarrow> nat \<Rightarrow> allocation_strategy \<Rightarrow> string \<Rightarrow> 'j executor \<Rightarrow>
    fault + nref list \<times> nat \<times> 'j executor" where
  "setup_experiment draws g n st scheduling s =
     bind_sum (createEdgeNodes draws g n (new_components st (schedulingFromString scheduling) s)) (\<lambda>(edges, g', s1).
     bind_sum (exec_start (fold (\<lambda>r. exec_registerEdgeNode (Some r)) edges s1)) (\<lambda>s2.
       Inr (edges, g', s2)))"

section \<open>The fleet is well-formed\<close>

text \<open>What \<open>std::uniform_real_distribution\<close> and \<open>std::uniform_int_distribution\<close> promise of a draw.\<close>

definition draw_ok :: "node_draw \<Rightarrow> bool" where
  "draw_ok d \<longleftrightarrow> (case d of (ram, bandwidth, latency) \<Rightarrow>
     dbl 4096 \<le> ram \<and> ram \<le> dbl 32768 \<and> dbl 50 \<le> bandwidth \<and> bandwidth \<le> dbl 200 \<and> 8 \<le> latency \<and> latency \<le> 40)"

lemma drawn_cap_ok: "draw_ok d \<Longrightarrow> cap_ok (drawn_capacity d)"
proof -
  assume d: "draw_ok d"
  have "dbl 100 \<le> dbl_of_int (2 ^ 63)" by (simp add: dbl_of_int_def dbl_le)
  moreover have "0 \<le> dbl 4096" "0 \<le> dbl 50" by (simp_all add: dbl_nonneg)
  ultimately show ?thesis
    using d by (auto simp: draw_ok_def cap_ok_def drawn_capacity_def dbl_nonneg
        intro: order_trans [of 0 "dbl 4096"] order_trans [of 0 "dbl 50"])
qed

lemma node_name_inject: "node_name i = node_name j \<longleftrightarrow> i = j"
  by (simp add: node_name_def pad_dec_inject)

text \<open>The state of the loop: every registered node is one of the created ones, under its name.\<close>

lemma create_nodes_spec:
  fixes s :: "('j, 'm) monitor_scheme"
  assumes "\<not> nodes_mutex s"
  shows "\<exists>s'. create_nodes draws g i k s = Inr ([next_node s..<next_node s + k], g + k, s') \<and> \<not> nodes_mutex s' \<and>
    next_node s' = next_node s + k \<and> tasks s' = tasks s \<and> next_task s' = next_task s \<and> monitor.more s' = monitor.more s \<and>
    (\<forall>r. r < next_node s \<or> next_node s + k \<le> r \<longrightarrow> nodes s' r = nodes s r) \<and>
    (\<forall>j<k. nodes s' (next_node s + j) = new_edge_node (node_name (i + j)) (drawn_capacity (draws (g + j)))) \<and>
    map_of (edge_nodes s') = map_of (edge_nodes s) ++ map_of (map (\<lambda>j. (node_name (i + j), Some (next_node s + j))) [0..<k]) \<and>
    (map_ok (edge_nodes s) \<longrightarrow> map_ok (edge_nodes s'))"
  using assms
proof (induction k arbitrary: g i s)
  case (Suc k)
  let ?n = "new_edge_node (node_name i) (drawn_capacity (draws g))"
  let ?s1 = "snd (make_node ?n s)"
  let ?s2 = "?s1\<lparr>edge_nodes := map_put (node_name i) (Some (next_node s)) (edge_nodes s)\<rparr>"
  let ?s3 = "db (Db_saveEdgeNode (node_name i) (drawn_capacity (draws g))) ?s2"
  have s3: "\<not> nodes_mutex ?s3" "next_node ?s3 = Suc (next_node s)" "nodes ?s3 = (nodes s)(next_node s := ?n)"
    "tasks ?s3 = tasks s" "next_task ?s3 = next_task s" "monitor.more ?s3 = monitor.more s"
    "edge_nodes ?s3 = map_put (node_name i) (Some (next_node s)) (edge_nodes s)"
    using Suc.prems by (simp_all add: make_node_def db_def)
  have reg: "registerEdgeNode (Some (next_node s)) ?s1 = Inr ?s2"
    using Suc.prems by (simp add: registerEdgeNode_def make_node_def new_edge_node_def)
  obtain s' where s': "create_nodes draws (Suc g) (Suc i) k ?s3 = Inr ([Suc (next_node s)..<Suc (next_node s) + k], Suc g + k, s')"
    "\<not> nodes_mutex s'" "next_node s' = Suc (next_node s) + k" "tasks s' = tasks s" "next_task s' = next_task s"
    "monitor.more s' = monitor.more s" "\<forall>r. r < Suc (next_node s) \<or> Suc (next_node s) + k \<le> r \<longrightarrow> nodes s' r = nodes ?s3 r"
    "\<forall>j<k. nodes s' (Suc (next_node s) + j) = new_edge_node (node_name (Suc i + j)) (drawn_capacity (draws (Suc g + j)))"
    "map_of (edge_nodes s') = map_of (edge_nodes ?s3) ++ map_of (map (\<lambda>j. (node_name (Suc i + j), Some (Suc (next_node s) + j))) [0..<k])"
    "map_ok (edge_nodes ?s3) \<longrightarrow> map_ok (edge_nodes s')"
    using Suc.IH [OF s3(1), of "Suc g" "Suc i"] unfolding s3(2,4-6) by blast
  have "create_nodes draws g i (Suc k) s = Inr ([next_node s..<next_node s + Suc k], g + Suc k, s')"
    using reg s'(1) by (simp add: make_node_def upt_rec [of "next_node s"])
  moreover have "nodes s' (next_node s + j) = new_edge_node (node_name (i + j)) (drawn_capacity (draws (g + j)))" if "j < Suc k" for j
    using that s'(7,8) s3(3) by (cases j) auto
  moreover have "map_of (edge_nodes s') =
      map_of (edge_nodes s) ++ map_of (map (\<lambda>j. (node_name (i + j), Some (next_node s + j))) [0..<Suc k])"
  proof -
    have "[0..<Suc k] = 0 # map Suc [0..<k]" by (simp add: upt_conv_Cons map_Suc_upt del: upt_Suc)
    then have l: "map (\<lambda>j. (node_name (i + j), Some (next_node s + j))) [0..<Suc k] =
        (node_name i, Some (next_node s)) # map (\<lambda>j. (node_name (Suc i + j), Some (Suc (next_node s) + j))) [0..<k]"
      by (simp add: comp_def)
    have "map_of (map (\<lambda>j. (node_name (Suc i + j), Some (Suc (next_node s) + j))) [0..<k]) (node_name i) = None"
      by (auto simp: map_of_eq_None_iff node_name_inject)
    then show ?thesis unfolding l s'(9) s3(7) by (auto simp: map_add_def fun_eq_iff split: option.splits)
  qed
  moreover have "map_ok (edge_nodes s) \<longrightarrow> map_ok (edge_nodes s')" using s'(10) s3(7) by (simp add: map_ok_put)
  ultimately show ?case using s' s3(3) by (intro exI [of _ s']) auto
qed (auto intro!: exI [of _ s])

section \<open>The workers\<close>

lemma register_all:
  "map_ok (exec_nodes s) \<Longrightarrow>
   \<exists>m. fold (\<lambda>r. exec_registerEdgeNode (Some r)) rs s = s\<lparr>exec_nodes := m\<rparr> \<and> map_ok m \<and>
     map_of m = map_of (exec_nodes s) ++ map_of (rev (map (\<lambda>r. (edge_id (nodes s r), Some r)) rs))"
proof (induction rs arbitrary: s)
  case Nil
  then show ?case by (intro exI [of _ "exec_nodes s"]) simp
next
  case (Cons r rs)
  let ?s1 = "exec_registerEdgeNode (Some r) s"
  have s1: "?s1 = s\<lparr>exec_nodes := map_put (edge_id (nodes s r)) (Some r) (exec_nodes s)\<rparr>" by (simp add: exec_registerEdgeNode_def)
  then have "map_ok (exec_nodes ?s1)" using Cons.prems by (simp add: map_ok_put)
  from Cons.IH [OF this] obtain m where m: "fold (\<lambda>r. exec_registerEdgeNode (Some r)) rs ?s1 = ?s1\<lparr>exec_nodes := m\<rparr>" "map_ok m"
    "map_of m = map_of (exec_nodes ?s1) ++ map_of (rev (map (\<lambda>r. (edge_id (nodes ?s1 r), Some r)) rs))"
    by blast
  then show ?case
    by (intro exI [of _ m]) (auto simp: s1 map_add_def fun_eq_iff split: option.splits)
qed

text \<open>A state in which an experiment can begin: \<open>n\<close> idle nodes from reference \<open>r0\<close>, each registered
  and with a worker.\<close>

definition ready :: "nref \<Rightarrow> nat \<Rightarrow> (nat \<Rightarrow> node_draw) \<Rightarrow> ('j, 'm) executor_scheme \<Rightarrow> bool" where
  "ready r0 n draws s \<longleftrightarrow> monitor_ok s \<and> next_node s = r0 + n \<and> registered s = {r0..<r0 + n} \<and> is_running s \<and>
     weights s = default_weights \<and> task_counter s = 0 \<and> total_allocations s = 0 \<and>
     (\<forall>j<n. nodes s (r0 + j) = new_edge_node (node_name j) (drawn_capacity (draws j))) \<and>
     set (edge_nodes s) = (\<lambda>j. (node_name j, Some (r0 + j))) ` {..<n} \<and>
     set (workers s) = (\<lambda>j. (node_name j, Some (r0 + j))) ` {..<n} \<and> None \<notin> snd ` set (exec_nodes s)"

lemma map_of_name_list:
  "map_of (map (\<lambda>j. (node_name j, Some (r0 + j))) xs) eid = Some v \<longleftrightarrow> (\<exists>j\<in>set xs. eid = node_name j \<and> v = Some (r0 + j))"
  by (induction xs) (auto simp: node_name_inject)

lemma map_ok_set: "map_ok m \<Longrightarrow> set m = {(k, v). map_of m k = Some v}"
  by (auto simp: map_ok_Some)

lemma map_of_rev_names:
  "map_of (rev (map (\<lambda>j. (node_name j, Some (r0 + j))) xs)) eid = Some v \<longleftrightarrow> (\<exists>j\<in>set xs. eid = node_name j \<and> v = Some (r0 + j))"
  using map_of_name_list [of r0 "rev xs"] by (simp add: rev_map)

lemma spawn_loop_ok: "spawn_loop es s = Inr s' \<Longrightarrow> map_ok (workers s) \<Longrightarrow> map_ok (workers s')"
  by (induction es s rule: spawn_loop.induct) (auto simp: map_ok_put split: if_splits)

text \<open>Starting the executor, once the fleet is registered with the monitor and the executor.\<close>

abbreviation fleet_list :: "nref \<Rightarrow> nat \<Rightarrow> (string \<times> nref option) list" where
  "fleet_list r0 n \<equiv> map (\<lambda>j. (node_name j, Some (r0 + j))) [0..<n]"

lemma started_ready:
  fixes s :: "('j, 'm) executor_scheme"
  assumes "\<not> nodes_mutex s" "next_node s = r0 + n" "map_ok (edge_nodes s)" "map_of (edge_nodes s) = map_of (fleet_list r0 n)"
    and nodes: "\<forall>j<n. nodes s (r0 + j) = new_edge_node (node_name j) (drawn_capacity (draws j))"
    and m: "map_ok (exec_nodes s)" "map_of (exec_nodes s) = map_of (rev (fleet_list r0 n))"
    and new: "workers s = []" "\<not> is_running s" "weights s = default_weights" "task_counter s = 0" "total_allocations s = 0"
  shows "\<exists>ws. exec_start s = Inr (s\<lparr>is_running := True, workers := ws\<rparr>) \<and> ready r0 n draws (s\<lparr>is_running := True, workers := ws\<rparr>)"
proof -
  let ?s2 = "s\<lparr>is_running := True\<rparr>"
  obtain ws where ws: "spawn_loop (exec_nodes s) ?s2 = Inr (?s2\<lparr>workers := ws\<rparr>)" "map_of ws = map_of (exec_nodes s)"
    using spawn_loop_spec [of "exec_nodes s" ?s2] map_ok_distinct [OF m(1)] new(1) by auto
  have "map_ok ws" using spawn_loop_ok [OF ws(1)] new(1) by simp
  let ?s' = "s\<lparr>is_running := True, workers := ws\<rparr>"
  have keys: "(eid, v) \<in> set (edge_nodes s) \<longleftrightarrow> (\<exists>j<n. eid = node_name j \<and> v = Some (r0 + j))" for eid v
    unfolding map_ok_set [OF assms(3)] assms(4) by (auto simp: map_of_name_list)
  have "monitor_ok ?s'" using assms(1-3) nodes keys by (auto simp: monitor_ok_def new_edge_node_def)
  moreover have "registered ?s' = {r0..<r0 + n}" using keys unfolding registered_def by (auto simp: le_iff_add)
  moreover have "set (edge_nodes s) = (\<lambda>j. (node_name j, Some (r0 + j))) ` {..<n}" using keys by auto
  moreover have "set ws = (\<lambda>j. (node_name j, Some (r0 + j))) ` {..<n}"
    unfolding map_ok_set [OF \<open>map_ok ws\<close>] ws(2) m(2) by (auto simp: map_of_rev_names)
  moreover have "None \<notin> snd ` set (exec_nodes s)"
    unfolding map_ok_set [OF m(1)] m(2) by (auto simp: map_of_rev_names)
  moreover have "exec_start s = Inr ?s'" using ws(1) new(2) by (simp add: exec_start_def)
  ultimately show ?thesis using assms by (intro exI [of _ ws]) (auto simp: ready_def)
qed

text \<open>Creating the fleet and registering it with the executor.\<close>

lemma fleet_created:
  fixes s :: "('j, 'm) executor_scheme"
  assumes "\<not> nodes_mutex s" "edge_nodes s = []"
  shows "\<exists>s1. create_nodes draws g 0 n s = Inr ([next_node s..<next_node s + n], g + n, s1) \<and> \<not> nodes_mutex s1 \<and>
    next_node s1 = next_node s + n \<and> tasks s1 = tasks s \<and> next_task s1 = next_task s \<and> monitor.more s1 = monitor.more s \<and>
    (\<forall>r. r < next_node s \<or> next_node s + n \<le> r \<longrightarrow> nodes s1 r = nodes s r) \<and>
    (\<forall>j<n. nodes s1 (next_node s + j) = new_edge_node (node_name j) (drawn_capacity (draws (g + j)))) \<and>
    map_of (edge_nodes s1) = map_of (fleet_list (next_node s) n) \<and> map_ok (edge_nodes s1)"
  using create_nodes_spec [OF assms(1), of draws g 0 n] assms(2) by auto

lemma fleet_registered:
  fixes s :: "('j, 'm) executor_scheme"
  assumes "exec_nodes s = []" "\<forall>j<n. edge_id (nodes s (r0 + j)) = node_name j"
  shows "\<exists>m. fold (\<lambda>r. exec_registerEdgeNode (Some r)) [r0..<r0 + n] s = s\<lparr>exec_nodes := m\<rparr> \<and> map_ok m \<and>
    map_of m = map_of (rev (fleet_list r0 n))"
proof -
  have "map (\<lambda>r. (edge_id (nodes s r), Some r)) [r0..<r0 + n] = fleet_list r0 n"
    using assms(2) by (intro nth_equalityI) simp_all
  then show ?thesis using register_all [of s "[r0..<r0 + n]"] assms(1) by auto
qed

text \<open>What the components but the monitor own.\<close>

lemma more_parts:
  fixes s s' :: "('j, 'm) executor_scheme"
  assumes "monitor.more s = monitor.more s'"
  shows "exec_nodes s = exec_nodes s'" "workers s = workers s'" "is_running s = is_running s'" "weights s = weights s'"
    "task_counter s = task_counter s'" "profile_map s = profile_map s'" "strategy s = strategy s'" "sched_strategy s = sched_strategy s'"
    "total_allocations s = total_allocations s'" "successful_allocations s = successful_allocations s'"
    "failed_allocations s = failed_allocations s'" "total_tasks_scheduled s = total_tasks_scheduled s'"
    "total_tasks_executed s = total_tasks_executed s'" "exec_tasks_failed s = exec_tasks_failed s'"
  using assms by (cases s; cases s'; simp)+

lemma setup_ready:
  fixes s :: "'j executor"
  shows "\<exists>s'. setup_experiment draws g n st scheduling s = Inr ([next_node s..<next_node s + n], g + n, s') \<and>
    ready (next_node s) n (\<lambda>j. draws (g + j)) s' \<and>
    (\<forall>r. r < next_node s \<or> next_node s + n \<le> r \<longrightarrow> nodes s' r = nodes s r) \<and>
    tasks s' = tasks s \<and> next_task s' = next_task s \<and> profile_map s' = profile_map s \<and>
    strategy s' = st \<and> sched_strategy s' = schedulingFromString scheduling \<and>
    successful_allocations s' = 0 \<and> failed_allocations s' = 0 \<and> total_tasks_scheduled s' = 0 \<and>
    total_tasks_executed s' = 0 \<and> exec_tasks_failed s' = 0"
proof -
  let ?s0 = "new_components st (schedulingFromString scheduling) s"
  let ?r0 = "next_node s"
  have s0: "\<not> nodes_mutex ?s0" "next_node ?s0 = ?r0" "edge_nodes ?s0 = []" "nodes ?s0 = nodes s" "tasks ?s0 = tasks s"
    "next_task ?s0 = next_task s" by (simp_all add: new_components_def component_defs)
  obtain s1 where s1: "createEdgeNodes draws g n ?s0 = Inr ([?r0..<?r0 + n], g + n, s1)" "\<not> nodes_mutex s1"
    "next_node s1 = ?r0 + n" "tasks s1 = tasks s" "next_task s1 = next_task s" "monitor.more s1 = monitor.more ?s0"
    "\<forall>r. r < ?r0 \<or> ?r0 + n \<le> r \<longrightarrow> nodes s1 r = nodes s r"
    "\<forall>j<n. nodes s1 (?r0 + j) = new_edge_node (node_name j) (drawn_capacity (draws (g + j)))"
    "map_of (edge_nodes s1) = map_of (fleet_list ?r0 n)" "map_ok (edge_nodes s1)"
    using fleet_created [OF s0(1,3), of draws g n] unfolding s0(2,4-6) createEdgeNodes_def by auto
  have more: "exec_nodes s1 = []" "workers s1 = []" "\<not> is_running s1" "weights s1 = default_weights" "task_counter s1 = 0"
    "total_allocations s1 = 0" "profile_map s1 = profile_map s" "strategy s1 = st" "sched_strategy s1 = schedulingFromString scheduling"
    "successful_allocations s1 = 0" "failed_allocations s1 = 0" "total_tasks_scheduled s1 = 0" "total_tasks_executed s1 = 0" "exec_tasks_failed s1 = 0"
    by (simp_all add: more_parts [OF s1(6)] new_components_def component_defs)
  obtain m where m: "fold (\<lambda>r. exec_registerEdgeNode (Some r)) [?r0..<?r0 + n] s1 = s1\<lparr>exec_nodes := m\<rparr>" "map_ok m"
    "map_of m = map_of (rev (fleet_list ?r0 n))"
    using fleet_registered [OF more(1), of n ?r0] s1(8) by (auto simp: new_edge_node_def)
  let ?s2 = "s1\<lparr>exec_nodes := m\<rparr>"
  obtain ws where ws: "exec_start ?s2 = Inr (?s2\<lparr>is_running := True, workers := ws\<rparr>)"
    "ready ?r0 n (\<lambda>j. draws (g + j)) (?s2\<lparr>is_running := True, workers := ws\<rparr>)"
    using started_ready [of ?s2 ?r0 n "\<lambda>j. draws (g + j)"] s1 m more by auto
  have "setup_experiment draws g n st scheduling s = Inr ([?r0..<?r0 + n], g + n, ?s2\<lparr>is_running := True, workers := ws\<rparr>)"
    using s1(1) m(1) ws(1) by (simp add: setup_experiment_def)
  then show ?thesis using ws(2) s1(4,5,7) more(7-) by (intro exI [of _ "?s2\<lparr>is_running := True, workers := ws\<rparr>"]) simp
qed

section \<open>Properties\<close>

lemma ready_node:
  assumes "ready r0 n draws s" "j < n"
  shows "nodes s (r0 + j) = new_edge_node (node_name j) (drawn_capacity (draws j))"
    "getEdgeNode (node_name j) s = Inr (Some (r0 + j))" "(node_name j, Some (r0 + j)) \<in> set (workers s)"
proof -
  show n: "nodes s (r0 + j) = new_edge_node (node_name j) (drawn_capacity (draws j))"
    using assms by (simp add: ready_def)
  have "monitor_ok s" "r0 + j \<in> registered s" using assms by (simp_all add: ready_def)
  then show "getEdgeNode (node_name j) s = Inr (Some (r0 + j))"
    using n by (simp add: getEdgeNode_registered new_edge_node_def)
  have "set (workers s) = (\<lambda>j. (node_name j, Some (r0 + j))) ` {..<n}" using assms(1) unfolding ready_def by blast
  then show "(node_name j, Some (r0 + j)) \<in> set (workers s)" using assms(2) by auto
qed

text \<open>setting up an experiment never faults. Its \<open>n\<close> edge nodes have the distinct names \<open>E01\<close>,
  \<open>E02\<close>, ..., the capacities drawn for them and nothing reserved; each name finds its node in the
  monitor and has a worker in the executor, which is running.\<close>

theorem experiment_setup:
  fixes s :: "'j executor"
  shows "\<exists>edges s'. setup_experiment draws g n st scheduling s = Inr (edges, g + n, s') \<and> length edges = n \<and> distinct edges \<and>
    is_running s' \<and> getAvailableNodeCount s' = Inr (of_nat n) \<and>
    (\<forall>j<n. nodes s' (edges ! j) = new_edge_node (node_name j) (drawn_capacity (draws (g + j))) \<and>
       getEdgeNode (node_name j) s' = Inr (Some (edges ! j)) \<and> (node_name j, Some (edges ! j)) \<in> set (workers s')) \<and>
    inj node_name"
proof -
  obtain s' where s': "setup_experiment draws g n st scheduling s = Inr ([next_node s..<next_node s + n], g + n, s')"
    "ready (next_node s) n (\<lambda>j. draws (g + j)) s'"
    using setup_ready [of draws g n st scheduling s] by blast
  have up: "(\<lambda>(eid, node). case node of None \<Rightarrow> False | Some r \<Rightarrow> is_available (nodes s' r)) e" if e: "e \<in> set (edge_nodes s')" for e
  proof -
    obtain eid node where "e = (eid, node)" by (cases e)
    moreover have "monitor_ok s'" using s'(2) by (simp add: ready_def)
    ultimately obtain r where r: "e = (eid, Some r)" "r \<in> registered s'"
      using e monitor_okD [of s' eid node] by metis
    from r(2) obtain j where "r = next_node s + j" "j < n" using s'(2) by (auto simp: ready_def le_iff_add)
    then show ?thesis using ready_node(1) [OF s'(2)] r(1) by (simp add: new_edge_node_def)
  qed
  have m: "monitor_ok s'" "registered s' = {next_node s..<next_node s + n}" using s'(2) by (simp_all add: ready_def)
  have "length (edge_nodes s') = n"
  proof -
    have "inj_on (\<lambda>j. (node_name j, Some (next_node s + j))) {..<n}" by (simp add: inj_on_def)
    then have "card (set (edge_nodes s')) = n" using s'(2) by (simp add: ready_def card_image)
    moreover have "distinct (edge_nodes s')" using m(1) map_ok_distinct by (auto simp: monitor_ok_def distinct_map)
    ultimately show ?thesis by (simp add: distinct_card)
  qed
  then have "getAvailableNodeCount s' = Inr (of_nat n)"
    using m(1) up by (simp add: getAvailableNodeCount_def count_loop_eq filter_True)
  moreover have "is_running s'" using s'(2) by (simp add: ready_def)
  ultimately show ?thesis
    using s' ready_node [OF s'(2)] by (intro exI conjI) (auto simp: inj_def node_name_inject)
qed

text \<open>the generator of the fleet is seeded once and never again, so two experiments of a comparison
  do not run on the same edge nodes: the second fleet has the same names, but the capacities of the
  next draws of the stream. The experiments agree only if the stream repeats itself after \<open>n\<close> draws.\<close>

theorem comparison_fleets_differ:
  fixes s s' :: "'j executor"
  assumes "setup_experiment draws g n st scheduling s = Inr (edges, g', s1)"
    and "setup_experiment draws g' n st' scheduling s' = Inr (edges', g'', s2)"
  shows "(\<forall>j<n. edge_id (nodes s2 (edges' ! j)) = edge_id (nodes s1 (edges ! j)) \<and>
      capacity (nodes s1 (edges ! j)) = drawn_capacity (draws (g + j)) \<and>
      capacity (nodes s2 (edges' ! j)) = drawn_capacity (draws (g + n + j))) \<and>
    ((\<forall>j<n. capacity (nodes s1 (edges ! j)) = capacity (nodes s2 (edges' ! j))) \<longleftrightarrow> (\<forall>j<n. draws (g + j) = draws (g + n + j)))"
proof -
  have g: "g' = g + n" and e: "edges = [next_node s..<next_node s + n]" and r: "ready (next_node s) n (\<lambda>j. draws (g + j)) s1"
    using setup_ready [of draws g n st scheduling s] assms(1) by auto
  have e': "edges' = [next_node s'..<next_node s' + n]" and r': "ready (next_node s') n (\<lambda>j. draws (g' + j)) s2"
    using setup_ready [of draws g' n st' scheduling s'] assms(2) by auto
  have n: "nodes s1 (edges ! j) = new_edge_node (node_name j) (drawn_capacity (draws (g + j)))"
    "nodes s2 (edges' ! j) = new_edge_node (node_name j) (drawn_capacity (draws (g + n + j)))" if "j < n" for j
    using ready_node(1) [OF r that] ready_node(1) [OF r' that] that by (simp_all add: e e' g)
  have inject: "drawn_capacity d = drawn_capacity e \<longleftrightarrow> d = e" for d e
    by (cases d, cases e) (auto simp: drawn_capacity_def)
  show ?thesis using n inject by (simp add: new_edge_node_def)
qed

section \<open>A concrete experiment\<close>

definition demo_draws :: "nat \<Rightarrow> node_draw" where
  "demo_draws k = (dbl (of_nat (8192 + k)), dbl 128, 10 + int (k mod 20))"

lemma demo_draws_ok: "k < 1000 \<Longrightarrow> draw_ok (demo_draws k)"
  by (simp add: draw_ok_def demo_draws_def dbl_le)

theorem comparison_fleets_differ_witness:
  "\<exists>edges s1 edges' s2. setup_experiment demo_draws 0 2 ROUND_ROBIN ''edf'' demo_exec = Inr (edges, 2, s1) \<and>
     setup_experiment demo_draws 2 2 LEAST_LOAD ''edf'' s1 = Inr (edges', 4, s2) \<and>
     capacity (nodes s1 (edges ! 0)) \<noteq> capacity (nodes s2 (edges' ! 0))"
proof -
  obtain edges s1 where 1: "setup_experiment demo_draws 0 2 ROUND_ROBIN ''edf'' demo_exec = Inr (edges, 2, s1)"
    using setup_ready [of demo_draws 0 2 ROUND_ROBIN "''edf''" demo_exec] by auto
  obtain edges' s2 where 2: "setup_experiment demo_draws 2 2 LEAST_LOAD ''edf'' s1 = Inr (edges', 4, s2)"
    using setup_ready [of demo_draws 2 2 LEAST_LOAD "''edf''" s1] by auto
  from comparison_fleets_differ [OF 1 2]
  have "capacity (nodes s1 (edges ! 0)) \<noteq> capacity (nodes s2 (edges' ! 0))"
    by (simp add: drawn_capacity_def demo_draws_def)
  with 1 2 show ?thesis by blast
qed

theorem experiment_setup_witness:
  "\<exists>edges s'. setup_experiment demo_draws 0 2 ROUND_ROBIN ''edf'' demo_exec = Inr (edges, 2, s') \<and>
     getEdgeNode ''E02'' s' = Inr (Some (edges ! 1)) \<and> latency_ms (capacity (nodes s' (edges ! 1))) = 11"
proof -
  have name: "node_name 1 = ''E02''" by code_simp
  obtain edges s' where *: "setup_experiment demo_draws 0 2 ROUND_ROBIN ''edf'' demo_exec = Inr (edges, 0 + 2, s')"
    "\<forall>j<2. nodes s' (edges ! j) = new_edge_node (node_name j) (drawn_capacity (demo_draws (0 + j))) \<and>
       getEdgeNode (node_name j) s' = Inr (Some (edges ! j)) \<and> (node_name j, Some (edges ! j)) \<in> set (workers s')"
    using experiment_setup [of demo_draws 0 2 ROUND_ROBIN "''edf''" demo_exec] by blast
  from *(2) [rule_format, of 1] have "getEdgeNode ''E02'' s' = Inr (Some (edges ! 1))"
    "latency_ms (capacity (nodes s' (edges ! 1))) = 11"
    by (simp_all add: name [unfolded One_nat_def] new_edge_node_def drawn_capacity_def demo_draws_def)
  with *(1) show ?thesis by auto
qed

end
