(* ===== verification/Conservation.thy ===== *)
theory Conservation
  imports Bandwidth Startup
begin

text \<open>
  What holds in every reachable state of the simulation: each task is in one place, no task is lost,
  bandwidth is conserved and the producer never faults.
\<close>

section \<open>No task is lost\<close>

text \<open>A task has been dealt with when it has been run or when its refusal has been recorded.\<close>

definition settled :: "('j, 'm) executor_scheme \<Rightarrow> tref \<Rightarrow> bool" where
  "settled s t \<longleftrightarrow> status (tasks s t) \<in> {COMPLETED, FAILED} \<or>
     (\<exists>why. Db_saveAllocationFailure (task_id (tasks s t)) why \<in> set (db_calls s))"

definition accounted :: "tref \<Rightarrow> ('j, 'm) system \<Rightarrow> bool" where
  "accounted n0 \<sigma> \<longleftrightarrow> (\<forall>t. n0 \<le> t \<and> t < next_task (fst \<sigma>) \<longrightarrow> (\<exists>l. held \<sigma> t l) \<or> settled (fst \<sigma>) t)"

lemma settled_mono:
  assumes "settled s t" "tasks s' t = tasks s t" "set (db_calls s) \<subseteq> set (db_calls s')"
  shows "settled s' t"
  using assms by (auto simp: settled_def)

text \<open>Tasks that are somewhere stay somewhere or are settled, tasks that are nowhere do not change.\<close>

lemma accounted_step:
  assumes "accounted n0 \<sigma>" "\<And>u l. held \<sigma> u l \<Longrightarrow> (\<exists>l'. held \<sigma>' u l') \<or> settled (fst \<sigma>') u"
    and "\<And>u. u < next_task (fst \<sigma>) \<Longrightarrow> \<forall>l. \<not> held \<sigma> u l \<Longrightarrow> tasks (fst \<sigma>') u = tasks (fst \<sigma>) u"
    and "set (db_calls (fst \<sigma>)) \<subseteq> set (db_calls (fst \<sigma>'))" "\<And>u. next_task (fst \<sigma>) \<le> u \<Longrightarrow> u < next_task (fst \<sigma>') \<Longrightarrow> \<exists>l. held \<sigma>' u l"
  shows "accounted n0 \<sigma>'"
  unfolding accounted_def
proof (intro allI impI)
  fix u
  assume u: "n0 \<le> u \<and> u < next_task (fst \<sigma>')"
  show "(\<exists>l. held \<sigma>' u l) \<or> settled (fst \<sigma>') u"
  proof (cases "u < next_task (fst \<sigma>)")
    case True
    with assms(1) u have "(\<exists>l. held \<sigma> u l) \<or> settled (fst \<sigma>) u" by (simp add: accounted_def)
    then show ?thesis using assms(2,3,4) True settled_mono by metis
  qed (use assms(5) u in simp)
qed

lemma held_same:
  assumes "held (s, p, w) u k" "\<And>r. task_queue (nodes s' r) = task_queue (nodes s r)" "producer_task p' = producer_task p"
  shows "held (s', p', w) u k"
  using assms by (cases k) auto

lemma accounted_cong:
  assumes "accounted n0 (s, p, w)" "\<And>r. task_queue (nodes s' r) = task_queue (nodes s r)" "producer_task p' = producer_task p"
    "tasks s' = tasks s" "next_task s' = next_task s" "set (db_calls s) \<subseteq> set (db_calls s')"
  shows "accounted n0 (s', p', w)"
proof (rule accounted_step [OF assms(1)])
  show "(\<exists>l'. held (s', p', w) u l') \<or> settled (fst (s', p', w)) u" if "held (s, p, w) u l" for u l
    using held_same [OF that assms(2,3)] by blast
qed (use assms(4-6) in auto)

lemma run_strategy_db: "run_strategy t s = Inr (result, s') \<Longrightarrow> db_calls s' = db_calls s \<and> tasks s' = tasks s \<and> next_task s' = next_task s"
  by (auto simp: run_strategy_def allocateRoundRobin_def allocateLeastLoad_def allocatePriorityBased_def
      allocateMultiConstraint_def Let_def case_prod_beta split: if_splits option.splits allocation_strategy.splits)

lemma accounted_produce:
  assumes "base_ok s" "accounted n0 (s, P_Idle, w)" "createTaskFromSensorData now None dev sensor data s = Inr (t, s1)"
  shows "accounted n0 (db c s1, P_Created t, w)"
proof (rule accounted_step [OF assms(2)])
  note new = base_ok_produce [OF assms(1,3)]
  show "\<exists>l'. held (db c s1, P_Created t, w) u l'" if "next_task (fst (s, P_Idle, w)) \<le> u" "u < next_task (fst (db c s1, P_Created t, w))" for u
    using that new(2,3) by (intro exI [of _ L_Producer]) simp
  show "(\<exists>l'. held (db c s1, P_Created t, w) u l') \<or> settled (fst (db c s1, P_Created t, w)) u" if "held (s, P_Idle, w) u l" for u l
  proof -
    have "held (db c s1, P_Created t, w) u l" using that new(4) by (cases l) auto
    then show ?thesis by blast
  qed
  show "tasks (fst (db c s1, P_Created t, w)) u = tasks (fst (s, P_Idle, w)) u" if "u < next_task (fst (s, P_Idle, w))" for u
    using that new(2,5) by simp
  show "set (db_calls (fst (s, P_Idle, w))) \<subseteq> set (db_calls (fst (db c s1, P_Created t, w)))"
    using assms(3) by (auto simp: create_no_callback)
qed

lemma accounted_place:
  assumes "accounted n0 (s, P_Waiting t n, w)" "run_strategy t s = Inr (result, s1)"
  shows "accounted n0 (granted t result s1, P_Placed t result, w)"
proof (rule accounted_step [OF assms(1)])
  note same = run_strategy_db [OF assms(2)] run_strategy_queues [OF assms(2)]
  show "(\<exists>l'. held (granted t result s1, P_Placed t result, w) u l') \<or> settled (fst (granted t result s1, P_Placed t result, w)) u"
    if "held (s, P_Waiting t n, w) u l" for u l
    using held_same [OF that, of "granted t result s1" "P_Placed t result"] same(2) by auto
  show "tasks (fst (granted t result s1, P_Placed t result, w)) u = tasks (fst (s, P_Waiting t n, w)) u"
    if "\<forall>l. \<not> held (s, P_Waiting t n, w) u l" for u
    using that [rule_format, of L_Producer] same(1) by simp
qed (use run_strategy_db [OF assms(2)] in auto)

lemma accounted_give_up:
  assumes "accounted n0 (s, P_Waiting t n, w)"
  shows "accounted n0 (db (Db_saveAllocationFailure (task_id (tasks s t)) why) (refused s), P_Idle, w)"
proof (rule accounted_step [OF assms])
  let ?s = "db (Db_saveAllocationFailure (task_id (tasks s t)) why) (refused s)"
  show "(\<exists>l'. held (?s, P_Idle, w) u l') \<or> settled (fst (?s, P_Idle, w)) u" if "held (s, P_Waiting t n, w) u l" for u l
  proof (cases "u = t")
    case True
    then show ?thesis by (auto simp: settled_def)
  next
    case False
    with that have "held (?s, P_Idle, w) u l" by (cases l) auto
    then show ?thesis by blast
  qed
qed auto

lemma accounted_enqueue:
  assumes "accounted n0 (s, P_Placed t q, w)"
  shows "accounted n0 (db c (scheduleTask (Some r) (Some t) s), P_Idle, w)"
proof (rule accounted_step [OF assms])
  let ?s = "db c (scheduleTask (Some r) (Some t) s)"
  show "(\<exists>l'. held (?s, P_Idle, w) u l') \<or> settled (fst (?s, P_Idle, w)) u" if "held (s, P_Placed t q, w) u l" for u l
  proof (cases "u = t")
    case True
    have "held (?s, P_Idle, w) t (L_Queue r)" by (simp add: scheduleTask_def Let_def enqueueTask_def)
    then show ?thesis unfolding True by blast
  next
    case False
    with that have "held (?s, P_Idle, w) u l" by (cases l) (auto simp: scheduleTask_def Let_def enqueueTask_def)
    then show ?thesis by blast
  qed
  show "tasks (fst (?s, P_Idle, w)) u = tasks (fst (s, P_Placed t q, w)) u" if "\<forall>l. \<not> held (s, P_Placed t q, w) u l" for u
    using that [rule_format, of L_Producer] by (simp add: scheduleTask_def Let_def)
qed (auto simp: scheduleTask_def Let_def)

lemma accounted_take:
  assumes "accounted n0 (s, p, w)" "owned (s, p, w)" "w r = W_Idle" "getNextTask clk (Some r) s = (Some t, s1)"
  shows "accounted n0 (beginExecution t s1, p, w(r := W_Running t e))"
proof (rule accounted_step [OF assms(1)])
  let ?s = "beginExecution t s1"
  obtain i where i: "i < length (task_queue (nodes s r))" "t = task_queue (nodes s r) ! i"
    "s1 = upd_node r (\<lambda>n. n\<lparr>task_queue := remove_at i (task_queue (nodes s r))\<rparr>) s"
    using getNextTask_Some [OF assms(4)] by blast
  note q = remove_at_split [OF i(1) owned_queue [OF assms(2)], folded i(2)]
  have t: "t \<in> set (task_queue (nodes s r))" using i(1,2) by simp
  have n: "next_task ?s = next_task s" by (simp add: i(3))
  show "(\<exists>l'. held (?s, p, w(r := W_Running t e)) u l') \<or> settled (fst (?s, p, w(r := W_Running t e))) u" if "held (s, p, w) u l" for u l
  proof (cases "u = t")
    case True
    have "held (?s, p, w(r := W_Running t e)) t (L_Worker r)" by simp
    then show ?thesis unfolding True by blast
  next
    case False
    have qs: "task_queue (nodes s1 k) = (if k = r then remove_at i (task_queue (nodes s r)) else task_queue (nodes s k))" for k
      by (simp add: i(3))
    have "held (?s, p, w(r := W_Running t e)) u l"
    proof (cases l)
      case (L_Queue k)
      with that False show ?thesis by (auto simp: qs q)
    next
      case (L_Worker k)
      with that assms(3) show ?thesis by auto
    qed (use that in simp)
    then show ?thesis by blast
  qed
  show "tasks (fst (?s, p, w(r := W_Running t e))) u = tasks (fst (s, p, w)) u" if "\<forall>l. \<not> held (s, p, w) u l" for u
    using that [rule_format, of "L_Queue r"] t by (auto simp: i(3))
  show "\<exists>l. held (?s, p, w(r := W_Running t e)) u l" if "next_task (fst (s, p, w)) \<le> u" "u < next_task (fst (?s, p, w(r := W_Running t e)))" for u
    using that n by simp
qed (use getNextTask_Some [OF assms(4)] in auto)

lemma accounted_finish:
  assumes "accounted n0 (s, p, w)" "w r = W_Running t e"
  shows "accounted n0 (finishExecution now now' e r t s, p, w(r := W_Idle))"
proof (rule accounted_step [OF assms(1)])
  let ?s = "finishExecution now now' e r t s"
  have n: "next_task ?s = next_task s" by simp
  show "(\<exists>l'. held (?s, p, w(r := W_Idle)) u l') \<or> settled (fst (?s, p, w(r := W_Idle))) u" if "held (s, p, w) u l" for u l
  proof (cases "u = t")
    case True
    then show ?thesis by (simp add: settled_def outcome_def)
  next
    case False
    with that assms(2) have "held (?s, p, w(r := W_Idle)) u l" by (cases l) auto
    then show ?thesis by blast
  qed
  show "tasks (fst (?s, p, w(r := W_Idle))) u = tasks (fst (s, p, w)) u" if "\<forall>l. \<not> held (s, p, w) u l" for u
    using that [rule_format, of "L_Worker r"] assms(2) by auto
  show "\<exists>l. held (?s, p, w(r := W_Idle)) u l" if "next_task (fst (s, p, w)) \<le> u" "u < next_task (fst (?s, p, w(r := W_Idle)))" for u
    using that n by simp
qed auto

lemma accounted_sys_step:
  assumes "sys_step \<sigma> \<sigma>'" "sys_ok \<sigma>" "accounted n0 \<sigma>" "next_task (fst \<sigma>) < 2 ^ 63"
  shows "accounted n0 \<sigma>'"
  using assms
proof (induction rule: sys_step.induct)
  case (produce now dev sensor data s t s1 w)
  then show ?case by (intro accounted_produce) (simp_all add: sys_ok_def)
next
  case (request s t w)
  show ?case by (rule accounted_cong [OF request.prems(2)]) simp_all
next
  case (place t s result s1 left w)
  then show ?case by (intro accounted_place)
next
  case (retry t s result s1 left w)
  then have ok: "base_ok s" "owned (s, P_Waiting t (Suc left), w)" "next_task s < 2 ^ 63" by (simp_all add: sys_ok_def)
  have "s1 = s" using unplaced_step [OF ok retry.hyps(1,2)] .
  then show ?case by (intro accounted_cong [OF retry.prems(2)]) simp_all
next
  case (give_up t s result s1 left w)
  then have ok: "base_ok s" "owned (s, P_Waiting t left, w)" "next_task s < 2 ^ 63" by (simp_all add: sys_ok_def)
  have "s1 = s" using unplaced_step [OF ok give_up.hyps(1,2)] .
  then show ?case using accounted_give_up [OF give_up.prems(2)] by simp
next
  case (enqueue result s edge t w label)
  then have ok: "base_ok s" "homes_ok (s, P_Placed t result, w)" by (simp_all add: sys_ok_def)
  obtain r where "edge = Some r" using homes_placed [OF ok(2,1)] enqueue.hyps by auto
  then show ?case using accounted_enqueue [OF enqueue.prems(2)] by simp
next
  case (take eid r s w clk t s1 p jitter)
  then show ?case by (intro accounted_take) (simp_all add: sys_ok_def)
next
  case (finish w r t e s p now now')
  then show ?case by (intro accounted_finish)
next
  case (fluctuate draws s s1 w)
  have s1: "s1 = fluctuate_loop draws (edge_nodes s) s"
    using fluctuate.hyps by (simp add: updateResourceMetrics_def split: if_splits)
  show ?case by (rule accounted_cong [OF fluctuate.prems(2)]) (simp_all add: s1)
next
  case (configure p s w sst st)
  show ?case by (rule accounted_cong [OF configure.prems(2)]) (simp_all add: setSchedStrategy_def setStrategy_def)
next
  case (snapshot s w r)
  show ?case by (rule accounted_cong [OF snapshot.prems(2)]) auto
next
  case (outside s' s p w)
  show ?case by (rule accounted_cong [OF outside.prems(2)]) (simp_all add: same_components [OF outside.hyps])
qed

section \<open>Reachable states\<close>

text \<open>The states an experiment that starts in \<open>s0\<close> can get into, as long as it has created fewer than
  \<open>2\<^sup>6\<^sup>3\<close> tasks.\<close>

inductive reachable :: "('j, 'm) executor_scheme \<Rightarrow> ('j, 'm) system \<Rightarrow> bool" for s0 where
  start: "reachable s0 (s0, P_Idle, \<lambda>_. W_Idle)"
| step: "reachable s0 \<sigma> \<Longrightarrow> sys_step \<sigma> \<sigma>' \<Longrightarrow> next_task (fst \<sigma>) < 2 ^ 63 \<Longrightarrow> reachable s0 \<sigma>'"

text \<open>What an experiment may find: well-formed objects and profiles, bandwidths that are multiples of a half,
  and in the queues of the nodes, if an earlier experiment has given up waiting for them, tasks that were
  placed there.\<close>

definition may_begin :: "('j, 'm) executor_scheme \<Rightarrow> bool" where
  "may_begin s \<longleftrightarrow> nodes_ok s \<and> tasks_ok s \<and> profiles_ok (profile_map s) \<and> owned (s, P_Idle, \<lambda>_. W_Idle) \<and>
     homes_ok (s, P_Idle, \<lambda>_. W_Idle) \<and> (\<forall>r. task_queue (nodes s r) \<noteq> [] \<longrightarrow> r < next_node s) \<and> (\<forall>t<next_task s. half (bw s t)) \<and>
     (\<forall>sensor. half (rat_of (bandwidth_mbps (getRequirements (profile_map s) sensor))))"

text \<open>The first experiment finds nothing in a queue.\<close>

definition can_begin :: "('j, 'm) executor_scheme \<Rightarrow> bool" where
  "can_begin s \<longleftrightarrow> nodes_ok s \<and> tasks_ok s \<and> profiles_ok (profile_map s) \<and> (\<forall>r. task_queue (nodes s r) = []) \<and>
     (\<forall>t<next_task s. half (bw s t)) \<and> (\<forall>sensor. half (rat_of (bandwidth_mbps (getRequirements (profile_map s) sensor))))"

definition draws_ok :: "(nat \<Rightarrow> node_draw) \<Rightarrow> nat \<Rightarrow> nat \<Rightarrow> bool" where
  "draws_ok draws g n \<longleftrightarrow> (\<forall>j<n. draw_ok (draws (g + j)))"

text \<open>The executor runs, every registered node has a worker and none of the executor's pointers is null.\<close>

definition manned :: "('j, 'm) executor_scheme \<Rightarrow> bool" where
  "manned s \<longleftrightarrow> is_running s \<and> (\<forall>r\<in>registered s. \<exists>eid. (eid, Some r) \<in> set (workers s)) \<and> None \<notin> snd ` set (exec_nodes s)"

lemma new_node_ok: "draw_ok d \<Longrightarrow> node_ok (new_edge_node eid (drawn_capacity d)) \<and> cap_ok (drawn_capacity d)"
  using drawn_cap_ok [of d] by (simp add: node_ok_new)

text \<open>A state in which a simulation can begin.\<close>

definition begin_ok :: "('j, 'm) executor_scheme \<Rightarrow> bool" where
  "begin_ok s0 \<longleftrightarrow> sys_ok (s0, P_Idle, \<lambda>_. W_Idle) \<and> bw_ok (s0, P_Idle, \<lambda>_. W_Idle) \<and> manned s0 \<and> (\<forall>r\<in>registered s0. task_queue (nodes s0 r) = [])"

lemma idle_owned:
  assumes "\<And>r. task_queue (nodes s r) = []"
  shows "owned (s, P_Idle, \<lambda>_. W_Idle)" "homes_ok (s, P_Idle, \<lambda>_. W_Idle)"
proof -
  have "\<not> held (s, P_Idle, \<lambda>_. W_Idle) u l" for u l by (cases l) (simp_all add: assms)
  then show "owned (s, P_Idle, \<lambda>_. W_Idle)" unfolding owned_def by (simp add: assms)
  show "homes_ok (s, P_Idle, \<lambda>_. W_Idle)" by (simp add: homes_ok_def assms)
qed

lemma can_may_begin: "can_begin s \<Longrightarrow> may_begin s"
  using idle_owned [of s] by (simp add: can_begin_def may_begin_def)

lemma ready_begins:
  assumes "may_begin s" "draws_ok draws g n" "ready (next_node s) n (\<lambda>j. draws (g + j)) s0"
    "\<forall>r. r < next_node s \<or> next_node s + n \<le> r \<longrightarrow> nodes s0 r = nodes s r"
    "tasks s0 = tasks s" "next_task s0 = next_task s" "profile_map s0 = profile_map s"
  shows "begin_ok s0"
proof -
  let ?r0 = "next_node s"
  note r = assms(3) and old = assms(4) and t = assms(5-7)
  have reg: "registered s0 = {?r0..<?r0 + n}" and m: "monitor_ok s0" "next_node s0 = ?r0 + n" "weights s0 = default_weights"
    using r by (simp_all add: ready_def)
  have new: "nodes s0 k = new_edge_node (node_name (k - ?r0)) (drawn_capacity (draws (g + (k - ?r0))))" "draw_ok (draws (g + (k - ?r0)))"
    if k: "k \<in> registered s0" for k
  proof -
    obtain j where j: "k = ?r0 + j" "j < n" using k reg by (auto simp: le_iff_add)
    with ready_node(1) [OF r j(2)] assms(2)
    show "nodes s0 k = new_edge_node (node_name (k - ?r0)) (drawn_capacity (draws (g + (k - ?r0))))" "draw_ok (draws (g + (k - ?r0)))"
      by (simp_all add: draws_ok_def)
  qed
  have queues: "task_queue (nodes s0 k) = []" if "k \<in> registered s0" for k
    using new(1) [OF that] by (simp add: new_edge_node_def)
  have left: "nodes s0 k = nodes s k" if "k \<notin> registered s0" for k
    using that old reg by (auto simp: not_less not_le)
  have "nodes_ok s0"
    unfolding nodes_ok_def
  proof (intro allI impI)
    fix k
    assume "k < next_node s0"
    then show "node_ok (nodes s0 k) \<and> cap_ok (capacity (nodes s0 k))"
      using new [of k] new_node_ok old assms(1) m(2) reg
      by (cases "k < ?r0") (auto simp: may_begin_def nodes_ok_def new_edge_node_def)
  qed
  moreover have "tasks_ok s0" "profiles_ok (profile_map s0)" using assms(1) t by (simp_all add: may_begin_def tasks_ok_def)
  moreover have "\<forall>(eid, node)\<in>set (workers s0). \<exists>r\<in>registered s0. node = Some r" using r reg by (auto simp: ready_def)
  ultimately have "base_ok s0" using m by (simp add: base_ok_def default_weights_ok)
  moreover have "owned (s0, P_Idle, \<lambda>_. W_Idle)"
  proof (rule owned_sub)
    show "owned (s, P_Idle, \<lambda>_. W_Idle)" using assms(1) by (simp add: may_begin_def)
    show "held (s, P_Idle, \<lambda>_. W_Idle) u k" if "held (s0, P_Idle, \<lambda>_. W_Idle) u k" for u k
    proof (cases k)
      case (L_Queue r)
      then show ?thesis using that queues left by (cases "r \<in> registered s0") auto
    qed (use that in simp_all)
    show "distinct (task_queue (nodes (fst (s0, P_Idle, \<lambda>_ :: nref. W_Idle)) r))" for r
      using queues left assms(1) owned_queue [of s] by (cases "r \<in> registered s0") (auto simp: may_begin_def)
  qed (use t in simp)
  moreover have "homes_ok (s0, P_Idle, \<lambda>_. W_Idle)"
  proof -
    have "status (tasks s0 u) = QUEUED \<and> assigned_edge_id (tasks s0 u) = edge_id (nodes s0 k)" if "u \<in> set (task_queue (nodes s0 k))" for k u
      using that queues [of k] left [of k] assms(1) homes_queue [of s P_Idle "\<lambda>_. W_Idle" u k]
      by (cases "k \<in> registered s0") (auto simp: may_begin_def t)
    then show ?thesis by (simp add: homes_ok_def)
  qed
  ultimately have sys: "sys_ok (s0, P_Idle, \<lambda>_. W_Idle)" by (simp add: sys_ok_def)
  have cap: "rat_of (cap_bandwidth_mbps (capacity (nodes s0 k))) \<le> 2 ^ 50" if "k \<in> registered s0" for k
  proof -
    have "cap_bandwidth_mbps (capacity (nodes s0 k)) \<le> dbl 200"
      using new [OF that] by (auto simp: new_edge_node_def drawn_capacity_def draw_ok_def)
    then have "rat_of (cap_bandwidth_mbps (capacity (nodes s0 k))) \<le> 200" by (simp add: double_iffs)
    then show ?thesis by simp
  qed
  have "halves_ok s0" using assms(1) t cap by (simp add: halves_ok_def may_begin_def bw_def)
  moreover have "used_bw s0 k = held_bw (s0, P_Idle, \<lambda>_. W_Idle) k" if "k \<in> registered s0" for k
    using new(1) [OF that] by (simp add: queues [OF that] used_bw_def new_edge_node_def rat_of_ops)
  ultimately have bw: "bw_ok (s0, P_Idle, \<lambda>_. W_Idle)" by (simp add: bw_ok_def)
  have "manned s0"
    unfolding manned_def
  proof (intro conjI ballI)
    show "is_running s0" "None \<notin> snd ` set (exec_nodes s0)" using r by (simp_all add: ready_def)
    fix k
    assume "k \<in> registered s0"
    then obtain j where "k = ?r0 + j" "j < n" using reg by (auto simp: le_iff_add)
    then show "\<exists>eid. (eid, Some k) \<in> set (workers s0)" using ready_node(3) [OF r] by blast
  qed
  then show ?thesis using sys bw queues by (simp add: begin_ok_def)
qed

lemma setup_may_begin:
  assumes "may_begin s" "draws_ok draws g n" "setup_experiment draws g n st scheduling s = Inr (edges, g', s0)"
  shows "begin_ok s0" "next_task s0 = next_task s"
proof -
  have r: "ready (next_node s) n (\<lambda>j. draws (g + j)) s0"
    and old: "\<forall>r. r < next_node s \<or> next_node s + n \<le> r \<longrightarrow> nodes s0 r = nodes s r"
    and t: "tasks s0 = tasks s" "next_task s0 = next_task s" "profile_map s0 = profile_map s"
    using setup_ready [of draws g n st scheduling s] assms(3) by auto
  show "begin_ok s0" by (rule ready_begins [OF assms(1,2) r old t])
  show "next_task s0 = next_task s" by (rule t(2))
qed

lemma setup_begin_ok:
  assumes "can_begin s" "draws_ok draws g n" "setup_experiment draws g n st scheduling s = Inr (edges, g', s0)"
  shows "begin_ok s0" "next_task s0 = next_task s" "\<And>r. task_queue (nodes s0 r) = []"
proof -
  show "begin_ok s0" "next_task s0 = next_task s" using setup_may_begin [OF can_may_begin [OF assms(1)] assms(2,3)] by simp_all
  fix r
  have reg: "registered s0 = {next_node s..<next_node s + n}"
    and old: "\<forall>r. r < next_node s \<or> next_node s + n \<le> r \<longrightarrow> nodes s0 r = nodes s r"
    using setup_ready [of draws g n st scheduling s] assms(3) by (auto simp: ready_def)
  then have "nodes s0 r = nodes s r" if "r \<notin> registered s0" using that by (auto simp: not_less not_le)
  then show "task_queue (nodes s0 r) = []"
    using \<open>begin_ok s0\<close> assms(1) by (cases "r \<in> registered s0") (simp_all add: begin_ok_def can_begin_def)
qed

lemma run_strategy_executor:
  "run_strategy t s = Inr (result, s') \<Longrightarrow> workers s' = workers s \<and> exec_nodes s' = exec_nodes s \<and> is_running s' = is_running s \<and> edge_nodes s' = edge_nodes s \<and>
     next_node s' = next_node s"
  by (auto simp: run_strategy_def allocateRoundRobin_def allocateLeastLoad_def allocatePriorityBased_def
      allocateMultiConstraint_def Let_def case_prod_beta split: if_splits option.splits allocation_strategy.splits)

lemma fluctuate_loop_running [simp]:
  "is_running (fluctuate_loop draws es s) = is_running s" "exec_nodes (fluctuate_loop draws es s) = exec_nodes s"
  by (induction draws es s rule: fluctuate_loop.induct) (auto split: option.splits)

lemma sys_step_frame:
  assumes "sys_step \<sigma> \<sigma>'"
  shows "workers (fst \<sigma>') = workers (fst \<sigma>) \<and> exec_nodes (fst \<sigma>') = exec_nodes (fst \<sigma>) \<and> is_running (fst \<sigma>') = is_running (fst \<sigma>) \<and> edge_nodes (fst \<sigma>') = edge_nodes (fst \<sigma>) \<and>
     next_node (fst \<sigma>') = next_node (fst \<sigma>)"
  using assms
proof (induction rule: sys_step.induct)
  case (produce now dev sensor data s t s1 w)
  then show ?case by (auto simp: create_no_callback)
next
  case (place t s result s1 left w)
  then show ?case using run_strategy_executor [OF place.hyps(1)] by (simp add: granted_def Let_def)
next
  case (retry t s result s1 left w)
  then show ?case using run_strategy_executor [OF retry.hyps(1)] by simp
next
  case (give_up t s result s1 left w)
  then show ?case using run_strategy_executor [OF give_up.hyps(1)] by (simp add: refused_def)
next
  case (enqueue result s edge t w label)
  show ?case by (cases edge) (simp_all add: scheduleTask_def Let_def)
next
  case (take eid r s w clk t s1 p jitter)
  then show ?case using getNextTask_Some [OF take.hyps(4)] by auto
next
  case (finish w r t e s p now now')
  show ?case by simp
next
  case (fluctuate draws s s1 w)
  then show ?case by (auto simp: updateResourceMetrics_def split: if_splits)
next
  case (outside s' s p w)
  show ?case by (simp add: same_components [OF outside.hyps])
qed (simp_all add: setSchedStrategy_def setStrategy_def)

lemma manned_step: "sys_step \<sigma> \<sigma>' \<Longrightarrow> manned (fst \<sigma>) \<Longrightarrow> manned (fst \<sigma>')"
  using sys_step_frame [of \<sigma> \<sigma>'] by (simp add: manned_def registered_def)

text \<open>Nobody touches the queue of a node that is not registered: what an earlier experiment has left there
  stays there.\<close>

lemma left_behind:
  assumes "sys_step \<sigma> \<sigma>'" "sys_ok \<sigma>" "r \<notin> registered (fst \<sigma>)"
  shows "task_queue (nodes (fst \<sigma>') r) = task_queue (nodes (fst \<sigma>) r)"
  using assms
proof (induction rule: sys_step.induct)
  case (produce now dev sensor data s t s1 w)
  have ok: "base_ok s" using produce.prems(1) by (simp add: sys_ok_def)
  show ?case by (simp add: base_ok_produce(4) [OF ok produce.hyps])
next
  case (enqueue result s edge t w label)
  then have ok: "base_ok s" "homes_ok (s, P_Placed t result, w)" by (simp_all add: sys_ok_def)
  obtain k where "edge = Some k" "k \<in> registered s" using homes_placed [OF ok(2,1)] enqueue.hyps by auto
  then show ?case using enqueue.prems(2) by (auto simp: scheduleTask_def Let_def enqueueTask_def)
next
  case (take eid k s w clk t s1 p jitter)
  have "base_ok s" using take.prems(1) by (simp add: sys_ok_def)
  then have "k \<in> registered s" using take.hyps(1) by (auto simp: base_ok_def)
  moreover obtain i where "s1 = upd_node k (\<lambda>n. n\<lparr>task_queue := remove_at i (task_queue (nodes s k))\<rparr>) s"
    using getNextTask_Some [OF take.hyps(4)] by blast
  ultimately show ?case using take.prems(2) by auto
next
  case (fluctuate draws s s1 w)
  then show ?case by (auto simp: updateResourceMetrics_def split: if_splits)
next
  case (outside s' s p w)
  show ?case by (simp add: same_components [OF outside.hyps])
qed (simp_all add: setSchedStrategy_def setStrategy_def run_strategy_queues)

text \<open>All invariants together, in every reachable state.\<close>

lemma begin_ok_reachable:
  assumes "begin_ok s0" "reachable s0 \<sigma>"
  shows "sys_ok \<sigma>" "bw_ok \<sigma>" "accounted (next_task s0) \<sigma>" "manned (fst \<sigma>)" "registered (fst \<sigma>) = registered s0"
    "\<And>r. r \<notin> registered s0 \<Longrightarrow> task_queue (nodes (fst \<sigma>) r) = task_queue (nodes s0 r)" "next_node (fst \<sigma>) = next_node s0"
proof -
  have "sys_ok \<sigma> \<and> bw_ok \<sigma> \<and> accounted (next_task s0) \<sigma> \<and> manned (fst \<sigma>) \<and> registered (fst \<sigma>) = registered s0 \<and> next_node (fst \<sigma>) = next_node s0 \<and>
      (\<forall>r. r \<notin> registered s0 \<longrightarrow> task_queue (nodes (fst \<sigma>) r) = task_queue (nodes s0 r))"
    using assms(2)
  proof induction
    case start
    show ?case using assms(1) by (auto simp: begin_ok_def accounted_def)
  next
    case (step \<sigma> \<sigma>')
    have "registered (fst \<sigma>') = registered (fst \<sigma>)" "next_node (fst \<sigma>') = next_node (fst \<sigma>)"
      using sys_step_frame [OF step.hyps(2)] by (simp_all add: registered_def)
    with step show ?case using sys_ok_step bw_ok_step accounted_sys_step manned_step left_behind by metis
  qed
  then show "sys_ok \<sigma>" "bw_ok \<sigma>" "accounted (next_task s0) \<sigma>" "manned (fst \<sigma>)" "registered (fst \<sigma>) = registered s0"
    "\<And>r. r \<notin> registered s0 \<Longrightarrow> task_queue (nodes (fst \<sigma>) r) = task_queue (nodes s0 r)" "next_node (fst \<sigma>) = next_node s0" by auto
qed

lemma reachable_ok:
  assumes "reachable s0 \<sigma>" "can_begin s" "draws_ok draws g n" "setup_experiment draws g n st scheduling s = Inr (edges, g', s0)"
  shows "sys_ok \<sigma>" "bw_ok \<sigma>" "accounted (next_task s) \<sigma>" "manned (fst \<sigma>)"
    "\<And>r. r \<notin> registered (fst \<sigma>) \<Longrightarrow> task_queue (nodes (fst \<sigma>) r) = []"
  using begin_ok_reachable [OF setup_begin_ok(1) [OF assms(2-4)] assms(1)] setup_begin_ok(2,3) [OF assms(2-4)] by simp_all

text \<open>Only the producer creates tasks, one at a time.\<close>

lemma next_task_schedule [simp]: "next_task (scheduleTask edge task s) = next_task s"
  by (simp add: scheduleTask_def Let_def split: option.split)

lemma step_next_task:
  "sys_step \<sigma> \<sigma>' \<Longrightarrow> next_task (fst \<sigma>') = next_task (fst \<sigma>) + (case (fst (snd \<sigma>), fst (snd \<sigma>')) of (P_Idle, P_Created t) \<Rightarrow> 1 | _ \<Rightarrow> 0)"
proof (induction rule: sys_step.induct)
  case (take eid r s w clk t s1 p jitter)
  then show ?case using getNextTask_Some [OF take.hyps(4)] by (auto split: producer.split)
next
  case (finish w r t e s p now now')
  show ?case by (simp split: producer.split)
next
  case (outside s' s p w)
  show ?case by (simp add: same_components [OF outside.hyps] split: producer.split)
qed (auto simp: create_no_callback setSchedStrategy_def setStrategy_def updateResourceMetrics_def
    dest!: run_strategy_db split: if_splits producer.split)

lemma next_task_step: "sys_step \<sigma> \<sigma>' \<Longrightarrow> next_task (fst \<sigma>) \<le> next_task (fst \<sigma>')"
  by (drule step_next_task) simp

lemma reachable_run:
  "sys_step\<^sup>*\<^sup>* \<sigma> \<sigma>' \<Longrightarrow> reachable s0 \<sigma> \<Longrightarrow> next_task (fst \<sigma>') < 2 ^ 63 \<Longrightarrow> reachable s0 \<sigma>'"
proof (induction rule: rtranclp_induct)
  case (step \<sigma>1 \<sigma>2)
  then have "next_task (fst \<sigma>1) < 2 ^ 63" using next_task_step [of \<sigma>1 \<sigma>2] by simp
  with step show ?case by (blast intro: reachable.step)
qed

lemma reachable_few: "reachable s0 \<sigma> \<Longrightarrow> next_task s0 \<le> next_task (fst \<sigma>) \<and> next_task (fst \<sigma>) \<le> next_task s0 + 2 ^ 63"
proof (induction rule: reachable.induct)
  case (step \<sigma> \<sigma>')
  then show ?case using step_next_task [of \<sigma> \<sigma>'] by (simp split: producer.splits)
qed simp

section \<open>Draining\<close>

text \<open>Nothing is under way: no task is with the producer, in a queue or with a worker.\<close>

definition quiescent :: "('j, 'm) system \<Rightarrow> bool" where
  "quiescent \<sigma> \<longleftrightarrow> (\<forall>t l. \<not> held \<sigma> t l)"

text \<open>The steps still to be made before that.\<close>

fun to_go :: "producer \<Rightarrow> nat" where
  "to_go P_Idle = 0"
| "to_go (P_Created t) = max_retries + 6"
| "to_go (P_Waiting t n) = n + 5"
| "to_go (P_Placed t q) = 4"

definition load :: "('j, 'm) executor_scheme \<Rightarrow> (nref \<Rightarrow> worker) \<Rightarrow> nref \<Rightarrow> nat" where
  "load s w r = 2 * length (task_queue (nodes s r)) + (case w r of W_Idle \<Rightarrow> 0 | W_Running t e \<Rightarrow> 1)"

definition backlog :: "('j, 'm) system \<Rightarrow> nat" where
  "backlog \<sigma> = (case \<sigma> of (s, p, w) \<Rightarrow> to_go p + (\<Sum>r\<in>registered s. load s w r))"

lemma finite_registered [simp]: "finite (registered s)"
proof -
  have "registered s \<subseteq> (\<lambda>e. the (snd e)) ` set (edge_nodes s)" by (force simp: registered_def)
  then show ?thesis using finite_surj by blast
qed

lemma backlog_node:
  assumes "registered s' = registered s" "r \<in> registered s" "\<And>k. k \<noteq> r \<Longrightarrow> load s' w' k = load s w k" "load s' w' r < load s w r"
  shows "backlog (s', p, w') < backlog (s, p, w)"
proof -
  have "(\<Sum>k\<in>registered s. load s' w' k) < (\<Sum>k\<in>registered s. load s w k)"
  proof (rule sum_strict_mono_ex1)
    show "\<forall>k\<in>registered s. load s' w' k \<le> load s w k" using assms(3,4) by (metis less_imp_le order_refl)
  qed (use assms in auto)
  then show ?thesis using assms(1) by (simp add: backlog_def)
qed

lemma backlog_producer:
  assumes "registered s' = registered s" "\<And>k. load s' w k = load s w k" "to_go p' < to_go p"
  shows "backlog (s', p', w) < backlog (s, p, w)"
  using assms by (simp add: backlog_def)

lemma backlog_enqueue:
  assumes "r \<in> registered s"
  shows "backlog (db c (scheduleTask (Some r) (Some t) s), P_Idle, w) < backlog (s, P_Placed t q, w)"
proof -
  let ?s = "db c (scheduleTask (Some r) (Some t) s)"
  have reg: "registered ?s = registered s" by (simp add: registered_def scheduleTask_def Let_def)
  have l: "load ?s w k = load s w k + (if k = r then 2 else 0)" for k
    by (simp add: load_def scheduleTask_def Let_def enqueueTask_def)
  have "(\<Sum>k\<in>registered s. load ?s w k) = (\<Sum>k\<in>registered s. load s w k) + 2"
    unfolding l using assms by (simp add: sum.distrib)
  then show ?thesis by (simp add: backlog_def reg)
qed

lemma step_finish:
  assumes "sys_ok (s, p, w)" "w r = W_Running t e"
  shows "\<exists>\<sigma>'. sys_step (s, p, w) \<sigma>' \<and> backlog \<sigma>' < backlog (s, p, w) \<and> next_task (fst \<sigma>') = next_task s"
proof -
  let ?s = "finishExecution 0 0 e r t s"
  have "r \<in> registered s" using assms(1) homes_worker [of s p w r t e] assms(2) by (auto simp: sys_ok_def)
  then have "backlog (?s, p, w(r := W_Idle)) < backlog (s, p, w)"
    using sys_step_frame [OF sys_step.finish [of w r t e s p 0 0, OF assms(2)]] assms(2)
    by (intro backlog_node [where r = r]) (auto simp: load_def registered_def)
  moreover have "next_task (?s) = next_task s" by simp
  ultimately show ?thesis using sys_step.finish [of w r t e s p 0 0, OF assms(2)] by fastforce
qed

lemma step_take:
  assumes "r \<in> registered s" "manned s" "w r = W_Idle" "task_queue (nodes s r) \<noteq> []"
  shows "\<exists>\<sigma>'. sys_step (s, p, w) \<sigma>' \<and> backlog \<sigma>' < backlog (s, p, w) \<and> next_task (fst \<sigma>') = next_task s"
proof -
  obtain eid where eid: "(eid, Some r) \<in> set (workers s)" "is_running s" using assms(1,2) by (auto simp: manned_def)
  obtain t s1 where t: "getNextTask (\<lambda>_. (0, 0)) (Some r) s = (Some t, s1)"
    using getNextTask_take [OF refl assms(4) refl] by blast
  let ?\<sigma> = "(beginExecution t s1, p, w(r := W_Running t (estimateExecutionTime 1 (reqs (tasks s1 t)))))"
  have step: "sys_step (s, p, w) ?\<sigma>" using eid assms(3) t by (rule sys_step.take)
  obtain i where i: "i < length (task_queue (nodes s r))"
    "s1 = upd_node r (\<lambda>n. n\<lparr>task_queue := remove_at i (task_queue (nodes s r))\<rparr>) s"
    using getNextTask_Some [OF t] by blast
  have "backlog ?\<sigma> < backlog (s, p, w)"
    using sys_step_frame [OF step] i(1) assms(1,3)
    by (intro backlog_node [where r = r]) (auto simp: load_def registered_def i(2) length_remove_at)
  moreover have "next_task (fst ?\<sigma>) = next_task s" by (simp add: i(2))
  ultimately show ?thesis using step by blast
qed

lemma step_producer:
  assumes "sys_ok (s, p, w)" "next_task s < 2 ^ 63" "p \<noteq> P_Idle"
  shows "\<exists>\<sigma>'. sys_step (s, p, w) \<sigma>' \<and> backlog \<sigma>' < backlog (s, p, w) \<and> next_task (fst \<sigma>') = next_task s"
proof (cases p)
  case (P_Created t)
  let ?\<sigma> = "(s\<lparr>total_allocations := total_allocations s + 1\<rparr>, P_Waiting t max_retries, w)"
  have "backlog ?\<sigma> < backlog (s, p, w)"
    unfolding P_Created by (rule backlog_producer) (simp_all add: registered_def load_def)
  then show ?thesis unfolding P_Created using sys_step.request by fastforce
next
  case (P_Waiting t n)
  have ok: "base_ok s" "owned (s, P_Waiting t n, w)" using assms(1) by (simp_all add: sys_ok_def P_Waiting)
  obtain result s1 where run: "run_strategy t s = Inr (result, s1)"
    using strat.never_faults [OF sys_alloc_ok [OF ok assms(2)]] by blast
  note same = run_strategy_db [OF run] run_strategy_queues [OF run] run_strategy_executor [OF run]
  show ?thesis
  proof (cases "success result")
    case True
    have "backlog (granted t result s1, P_Placed t result, w) < backlog (s, p, w)"
      unfolding P_Waiting using same by (intro backlog_producer) (simp_all add: registered_def load_def)
    then show ?thesis unfolding P_Waiting using sys_step.place [OF run True] same by fastforce
  next
    case failed: False
    let ?give_up = "(db (Db_saveAllocationFailure (task_id (tasks s1 t)) (reason result)) (refused s1), P_Idle, w)"
    show ?thesis
    proof (cases "n = 0 \<or> edge_nodes s1 = []")
      case True
      have "backlog ?give_up < backlog (s, p, w)"
        unfolding P_Waiting using same by (intro backlog_producer) (simp_all add: registered_def load_def)
      then show ?thesis unfolding P_Waiting using sys_step.give_up [OF run failed True] same by fastforce
    next
      case False
      then obtain m where m: "n = Suc m" "edge_nodes s1 \<noteq> []" by (cases n) auto
      have "backlog (s1, P_Waiting t m, w) < backlog (s, p, w)"
        unfolding P_Waiting using same m(1) by (intro backlog_producer) (simp_all add: registered_def load_def)
      then show ?thesis unfolding P_Waiting m(1) using sys_step.retry [OF run failed m(2)] same by fastforce
    qed
  qed
next
  case (P_Placed t q)
  have ok: "base_ok s" "homes_ok (s, P_Placed t q, w)" using assms(1) by (simp_all add: sys_ok_def P_Placed)
  obtain r where r: "getEdgeNode (result_edge_id q) s = Inr (Some r)" "r \<in> registered s"
    using homes_placed [OF ok(2,1)] by blast
  show ?thesis
    unfolding P_Placed using sys_step.enqueue [OF r(1)] backlog_enqueue [OF r(2)]
    by (metis (no_types, lifting) fst_conv next_task_schedule store_simps(10))
qed (use assms(3) in simp)

lemma quiescent_or_step:
  assumes "sys_ok \<sigma>" "manned (fst \<sigma>)" "next_task (fst \<sigma>) < 2 ^ 63" "\<not> quiescent \<sigma>"
    and "\<And>r. r \<notin> registered (fst \<sigma>) \<Longrightarrow> task_queue (nodes (fst \<sigma>) r) = []"
  shows "\<exists>\<sigma>'. sys_step \<sigma> \<sigma>' \<and> backlog \<sigma>' < backlog \<sigma> \<and> next_task (fst \<sigma>') = next_task (fst \<sigma>)"
proof -
  obtain s p w where \<sigma>: "\<sigma> = (s, p, w)" by (cases \<sigma>)
  obtain t l where held: "held (s, p, w) t l" using assms(4) by (auto simp: quiescent_def \<sigma>)
  have run: ?thesis if "w r \<noteq> W_Idle" for r
    using that step_finish [of s p w r] assms(1) unfolding \<sigma> by (cases "w r") auto
  show ?thesis
  proof (cases l)
    case L_Producer
    then have "p \<noteq> P_Idle" using held by auto
    then show ?thesis using step_producer assms(1,3) unfolding \<sigma> by simp
  next
    case (L_Queue r)
    then have q: "task_queue (nodes s r) \<noteq> []" using held by auto
    then have "r \<in> registered s" using assms(5) [of r] by (auto simp: \<sigma>)
    then show ?thesis using q run step_take [of r s w p] assms(2) unfolding \<sigma> by auto
  next
    case (L_Worker r)
    then have "w r \<noteq> W_Idle" using held by auto
    then show ?thesis by (rule run)
  qed
qed

lemma reachable_drain:
  assumes "reachable s0 \<sigma>" "begin_ok s0" "\<And>r. task_queue (nodes s0 r) = []" "next_task (fst \<sigma>) < 2 ^ 63"
  shows "\<exists>\<sigma>'. reachable s0 \<sigma>' \<and> sys_step\<^sup>*\<^sup>* \<sigma> \<sigma>' \<and> quiescent \<sigma>' \<and> next_task (fst \<sigma>') = next_task (fst \<sigma>)"
  using assms(1,4)
proof (induction "backlog \<sigma>" arbitrary: \<sigma> rule: less_induct)
  case less
  show ?case
  proof (cases "quiescent \<sigma>")
    case False
    note inv = begin_ok_reachable [OF assms(2) less.prems(1)]
    obtain \<sigma>1 where 1: "sys_step \<sigma> \<sigma>1" "backlog \<sigma>1 < backlog \<sigma>" "next_task (fst \<sigma>1) = next_task (fst \<sigma>)"
      using quiescent_or_step [OF inv(1,4) less.prems(2) False] inv(5,6) assms(3) by metis
    moreover have "reachable s0 \<sigma>1" using reachable.step [OF less.prems(1) 1(1) less.prems(2)] .
    ultimately obtain \<sigma>2 where "reachable s0 \<sigma>2" "sys_step\<^sup>*\<^sup>* \<sigma>1 \<sigma>2" "quiescent \<sigma>2" "next_task (fst \<sigma>2) = next_task (fst \<sigma>1)"
      using less.hyps [of \<sigma>1] less.prems(2) by auto
    then show ?thesis using 1(1,3) converse_rtranclp_into_rtranclp [of sys_step \<sigma> \<sigma>1 \<sigma>2] by (intro exI [of _ \<sigma>2]) auto
  qed (use less.prems in blast)
qed

section \<open>Properties of every run\<close>

lemma quiescent_bw:
  assumes "bw_ok (s, p, w)" "quiescent (s, p, w)" "r \<in> registered s"
  shows "used_bandwidth_mbps (current_usage (nodes s r)) = 0"
proof -
  have h: "\<not> held (s, p, w) t l" for t l using assms(2) by (simp add: quiescent_def)
  have "task_queue (nodes s r) = []" using h [of "hd (task_queue (nodes s r))" "L_Queue r"] by (cases "task_queue (nodes s r)") auto
  moreover have "w r = W_Idle" using h [of _ "L_Worker r"] by (cases "w r") auto
  moreover have "p = P_Idle" using h [of _ L_Producer] by (cases p) auto
  ultimately show ?thesis using assms(1,3) by (auto simp: bw_ok_def used_bw_def double_iffs rat_of_ops)
qed

text \<open>C12: in every state an experiment can reach, a task is in at most one place, with the producer, in the
  queue of one node or with one worker, and once; a queued task has been placed on the node whose
  queue holds it and says so, and so does a task that a worker runs.\<close>

theorem task_in_one_place:
  assumes "can_begin s" "draws_ok draws g n" "setup_experiment draws g n st scheduling s = Inr (edges, g', s0)"
    and "reachable s0 (s', p, w)"
  shows "(held (s', p, w) t l \<and> held (s', p, w) t l' \<longrightarrow> l = l') \<and> distinct (task_queue (nodes s' r)) \<and>
    (t \<in> set (task_queue (nodes s' r)) \<longrightarrow>
       r \<in> registered s' \<and> status (tasks s' t) = QUEUED \<and> assigned_edge_id (tasks s' t) = edge_id (nodes s' r)) \<and>
    (worker_task (w r) = Some t \<longrightarrow>
       r \<in> registered s' \<and> status (tasks s' t) = RUNNING \<and> assigned_edge_id (tasks s' t) = edge_id (nodes s' r))"
proof -
  have ok: "owned (s', p, w)" "homes_ok (s', p, w)" using reachable_ok(1) [OF assms(4,1-3)] by (simp_all add: sys_ok_def)
  have "r \<in> registered s' \<and> status (tasks s' t) = RUNNING \<and> assigned_edge_id (tasks s' t) = edge_id (nodes s' r)"
    if "worker_task (w r) = Some t"
    using that homes_worker [OF ok(2), of r t] by (cases "w r") auto
  moreover have "l = l'" if "held (s', p, w) t l" "held (s', p, w) t l'" using owned_same [OF ok(1) that] .
  moreover have "r \<in> registered s'" if "t \<in> set (task_queue (nodes s' r))"
    using reachable_ok(5) [OF assms(4,1-3), of r] that by (cases "r \<in> registered s'") auto
  ultimately show ?thesis using owned_queue [OF ok(1)] homes_queue [OF ok(2)] by blast
qed

text \<open>C1: in every state an experiment can reach, the bandwidth a node has reserved is exactly the sum of
  what the tasks need that are in its queue, with its worker, or placed on it and on the way to its
  queue; so a node with no task has given back everything. Nothing is lost to rounding, because
  the profiles' bandwidths are multiples of a half.\<close>

theorem bandwidth_conserved:
  assumes "can_begin s" "draws_ok draws g n" "setup_experiment draws g n st scheduling s = Inr (edges, g', s0)"
    and "reachable s0 (s', p, w)" "r \<in> registered s'"
  shows "rat_of (used_bandwidth_mbps (current_usage (nodes s' r))) =
      sum_list (map (\<lambda>t. rat_of (bandwidth_mbps (reqs (tasks s' t)))) (task_queue (nodes s' r))) +
      (case w r of W_Idle \<Rightarrow> 0 | W_Running t e \<Rightarrow> rat_of (bandwidth_mbps (reqs (tasks s' t)))) +
      (case p of P_Placed t q \<Rightarrow> if edge_id (nodes s' r) = result_edge_id q then rat_of (bandwidth_mbps (reqs (tasks s' t))) else 0
       | _ \<Rightarrow> 0) \<and>
    (quiescent (s', p, w) \<longrightarrow> used_bandwidth_mbps (current_usage (nodes s' r)) = 0)"
proof -
  have "used_bw s' r = held_bw (s', p, w) r" using reachable_ok(2) [OF assms(4,1-3)] assms(5) by (simp add: bw_ok_def)
  then have eq: "rat_of (used_bandwidth_mbps (current_usage (nodes s' r))) =
      sum_list (map (\<lambda>t. rat_of (bandwidth_mbps (reqs (tasks s' t)))) (task_queue (nodes s' r))) +
      (case w r of W_Idle \<Rightarrow> 0 | W_Running t e \<Rightarrow> rat_of (bandwidth_mbps (reqs (tasks s' t)))) +
      (case p of P_Placed t q \<Rightarrow> if edge_id (nodes s' r) = result_edge_id q then rat_of (bandwidth_mbps (reqs (tasks s' t))) else 0
       | _ \<Rightarrow> 0)"
    by (cases "w r"; cases p) (simp_all add: used_bw_def bw_def [abs_def])
  then show ?thesis using quiescent_bw reachable_ok(2) [OF assms(4,1-3)] assms(5) by blast
qed

text \<open>C2: no task is lost: in every state an experiment can reach, each task it has created is still with
  the producer, in a queue or with a worker, or it has run to an end, or its refusal is in the
  database; once nothing is under way, all of them have been dealt with.\<close>

theorem no_task_lost:
  assumes "can_begin s" "draws_ok draws g n" "setup_experiment draws g n st scheduling s = Inr (edges, g', s0)"
    and "reachable s0 (s', p, w)" "next_task s \<le> t" "t < next_task s'"
  shows "((\<exists>l. held (s', p, w) t l) \<or> settled s' t) \<and> (quiescent (s', p, w) \<longrightarrow> settled s' t)"
  using reachable_ok(3) [OF assms(4,1-3)] assms(5,6) by (auto simp: accounted_def quiescent_def)

text \<open>C3: the simulation never gets stuck: from every state an experiment can reach, the producer and the
  workers have a run, in which no further task is created, to a state with nothing under way; there
  every task has been dealt with and every node has its whole bandwidth back.\<close>

theorem can_always_drain:
  assumes "can_begin s" "draws_ok draws g n" "setup_experiment draws g n st scheduling s = Inr (edges, g', s0)"
    and "reachable s0 (s', p, w)" "next_task s' < 2 ^ 63"
  shows "\<exists>s'' p' w'. sys_step\<^sup>*\<^sup>* (s', p, w) (s'', p', w') \<and> quiescent (s'', p', w') \<and> next_task s'' = next_task s' \<and>
    (\<forall>t. next_task s \<le> t \<and> t < next_task s' \<longrightarrow> settled s'' t) \<and>
    (\<forall>r\<in>registered s''. used_bandwidth_mbps (current_usage (nodes s'' r)) = 0)"
proof -
  obtain s'' p' w' where last: "reachable s0 (s'', p', w')" "sys_step\<^sup>*\<^sup>* (s', p, w) (s'', p', w')" "quiescent (s'', p', w')"
    "next_task s'' = next_task s'"
    using reachable_drain [OF assms(4) setup_begin_ok(1,3) [OF assms(1-3)]] assms(5) by auto
  have ok: "bw_ok (s'', p', w')" "accounted (next_task s) (s'', p', w')" using reachable_ok(2,3) [OF last(1) assms(1-3)] by auto
  have "\<forall>r\<in>registered s''. used_bandwidth_mbps (current_usage (nodes s'' r)) = 0" using quiescent_bw [OF ok(1) last(3)] by blast
  moreover have "\<forall>t. next_task s \<le> t \<and> t < next_task s' \<longrightarrow> settled s'' t"
    using ok(2) last(3,4) by (auto simp: accounted_def quiescent_def)
  ultimately show ?thesis using last by blast
qed

section \<open>A concrete run\<close>

definition demo_begin :: "unit executor" where
  "demo_begin = (new_components ROUND_ROBIN FIFO demo_exec)\<lparr>next_task := 0, next_node := 0, nodes := \<lambda>_. new_edge_node [] (demo_cap 1)\<rparr>"

lemma demo_begin_simps [simp]:
  "next_task demo_begin = 0" "next_node demo_begin = 0" "nodes demo_begin = (\<lambda>_. new_edge_node [] (demo_cap 1))"
  "profile_map demo_begin = initializeDefaultProfiles []"
  by (simp_all add: demo_begin_def new_components_def component_defs demo_exec_def demo_manager_def task_manager.defs scheduler.defs)

lemma demo_can_begin: "can_begin demo_begin"
proof -
  have "half (rat_of (bandwidth_mbps (getRequirements (initializeDefaultProfiles []) sensor)))" for sensor
  proof -
    have "half x" if "x \<in> {1 / 2, 20, 1}" for x
      using that by (auto simp: half_def intro: exI [of _ 1] exI [of _ 40] exI [of _ 2])
    moreover have "fl (1 / 2) = 1 / 2" "fl 20 = 20" "fl 1 = 1" by code_simp+
    ultimately show ?thesis
      by (auto simp: getRequirements_def initializeDefaultProfiles_def fallback_requirements_def mk_req_def split: option.split)
  qed
  moreover have "profiles_ok (profile_map demo_begin)" by (simp, rule profiles_ok_defaults) (simp add: profiles_ok_def)
  ultimately show ?thesis
    by (simp add: can_begin_def nodes_ok_def tasks_ok_def new_edge_node_def)
qed

lemma demo_draws_good: "n \<le> 100 \<Longrightarrow> draws_ok demo_draws 0 n"
  by (simp add: draws_ok_def demo_draws_ok)

text \<open>The run in which the producer creates one camera task.\<close>

lemma demo_created:
  obtains edges g' s0 s1 where "setup_experiment demo_draws 0 2 ROUND_ROBIN ''edf'' demo_begin = Inr (edges, g', s0)"
    "reachable s0 (s1, P_Created 0, \<lambda>_. W_Idle)" "next_task s1 = 1" "0 \<in> registered s1" "nodes s1 = nodes s0"
    "tasks s1 0 = new_task 5 ''T000001'' ''DEV0003'' ''camera'' (mk_req 60 1024 20 50 CRITICAL) ()"
proof -
  obtain s0 where s0: "setup_experiment demo_draws 0 2 ROUND_ROBIN ''edf'' demo_begin = Inr ([0..<2], 2, s0)"
    "ready 0 2 demo_draws s0" "next_task s0 = 0" "profile_map s0 = initializeDefaultProfiles []"
    using setup_ready [of demo_draws 0 2 ROUND_ROBIN "''edf''" demo_begin] unfolding demo_begin_simps add_0 by blast
  obtain s1 where s1: "createTaskFromSensorData 5 None ''DEV0003'' ''camera'' () s0 = Inr (0, s1)" "next_task s1 = 1"
    "nodes s1 = nodes s0" "edge_nodes s1 = edge_nodes s0"
    "tasks s1 0 = new_task 5 (task_id_of (unat (task_counter s0 + 1))) ''DEV0003'' ''camera'' (getRequirements (profile_map s0) ''camera'') ()"
    by (simp add: create_no_callback s0(3))
  have "unat (task_counter s0 + 1) = 1" using s0(2) by (simp add: ready_def)
  moreover have "task_id_of 1 = ''T000001''" by (simp add: task_id_of_def pad_dec_def dec.simps eval numeral_eq_Suc)
  moreover have "getRequirements (profile_map s0) ''camera'' = mk_req 60 1024 20 50 CRITICAL"
    by (simp add: s0(4) getRequirements_def initializeDefaultProfiles_def)
  ultimately have t: "tasks s1 0 = new_task 5 ''T000001'' ''DEV0003'' ''camera'' (mk_req 60 1024 20 50 CRITICAL) ()"
    using s1(5) by simp
  let ?s = "db (saved_task (tasks s1 0)) s1"
  have "sys_step (s0, P_Idle, \<lambda>_. W_Idle) (?s, P_Created 0, \<lambda>_. W_Idle)" by (rule sys_step.produce [OF s1(1)])
  then have "reachable s0 (?s, P_Created 0, \<lambda>_. W_Idle)" by (rule reachable.step [OF reachable.start]) (simp add: s0(3))
  moreover have "registered s0 = {0..<0 + 2}" using s0(2) unfolding ready_def by blast
  then have "0 \<in> registered ?s" using s1(4) by (simp add: registered_def)
  ultimately show ?thesis using s0(1) s1(2,3) t that by simp
qed

theorem task_in_one_place_witness:
  "\<exists>s0 s1. reachable s0 (s1, P_Created 0, \<lambda>_. W_Idle) \<and> held (s1, P_Created 0, \<lambda>_. W_Idle) 0 L_Producer \<and>
     (0 :: tref) \<notin> set (task_queue (nodes (s1 :: unit executor) 0))"
proof -
  obtain edges g' s0 s1 where run: "setup_experiment demo_draws 0 2 ROUND_ROBIN ''edf'' demo_begin = Inr (edges, g', s0)"
    "reachable s0 (s1, P_Created 0, \<lambda>_. W_Idle)" by (rule demo_created)
  from task_in_one_place [OF demo_can_begin demo_draws_good run, of 0 L_Producer "L_Queue 0"]
  have "(0 :: tref) \<notin> set (task_queue (nodes s1 0))" by auto
  with run(2) show ?thesis by auto
qed

theorem bandwidth_conserved_witness:
  "\<exists>s0 s1. reachable s0 (s1, P_Created 0, \<lambda>_. W_Idle) \<and>
     rat_of (used_bandwidth_mbps (current_usage (nodes (s1 :: unit executor) 0))) =
       sum_list (map (\<lambda>t. rat_of (bandwidth_mbps (reqs (tasks s1 t)))) (task_queue (nodes s1 0)))"
proof -
  obtain edges g' s0 s1 where run: "setup_experiment demo_draws 0 2 ROUND_ROBIN ''edf'' demo_begin = Inr (edges, g', s0)"
    "reachable s0 (s1, P_Created 0, \<lambda>_. W_Idle)" "0 \<in> registered s1" by (rule demo_created)
  from bandwidth_conserved [OF demo_can_begin demo_draws_good run] run(2) show ?thesis by auto
qed

theorem no_task_lost_witness:
  "\<exists>s0 s1. reachable s0 (s1, P_Created 0, \<lambda>_. W_Idle) \<and>
     ((\<exists>l. held (s1 :: unit executor, P_Created 0, \<lambda>_. W_Idle) 0 l) \<or> settled s1 0)"
proof -
  obtain edges g' s0 s1 where run: "setup_experiment demo_draws 0 2 ROUND_ROBIN ''edf'' demo_begin = Inr (edges, g', s0)"
    "reachable s0 (s1, P_Created 0, \<lambda>_. W_Idle)" "next_task s1 = 1" by (rule demo_created)
  have "next_task demo_begin \<le> 0" "0 < next_task s1" using run(3) by simp_all
  from no_task_lost [OF demo_can_begin demo_draws_good run(1,2) this] run(2) show ?thesis by auto
qed

theorem can_always_drain_witness:
  "\<exists>s0 s1 \<sigma>. reachable s0 (s1 :: unit executor, P_Created 0, \<lambda>_. W_Idle) \<and>
     sys_step\<^sup>*\<^sup>* (s1, P_Created 0, \<lambda>_. W_Idle) \<sigma> \<and> quiescent \<sigma> \<and> settled (fst \<sigma>) 0"
proof -
  obtain edges g' s0 s1 where run: "setup_experiment demo_draws 0 2 ROUND_ROBIN ''edf'' demo_begin = Inr (edges, g', s0)"
    "reachable s0 (s1, P_Created 0, \<lambda>_. W_Idle)" "next_task s1 = 1" by (rule demo_created)
  have "next_task s1 < 2 ^ 63" "next_task demo_begin = 0" using run(3) by simp_all
  with can_always_drain [OF demo_can_begin demo_draws_good run(1,2)] run(2,3) show ?thesis by fastforce
qed

end
