(* ===== verification/Devices.thy ===== *)
theory Devices
  imports Startup Json
begin

text \<open>
  The IoT devices: \<^verbatim>\<open>iot_device.h\<close>, \<^verbatim>\<open>iot_device.cpp\<close>, the five sensors of \<^verbatim>\<open>sensor_simulator.h\<close> and
  \<^verbatim>\<open>sensor_simulator.cpp\<close>, and the device fleets of \<^verbatim>\<open>main.cpp\<close> and \<^verbatim>\<open>live_runtime.cpp\<close>. A device of a
  sensor class is a record with the class as its type: the sensor's current value is \<open>reading\<close>, the
  camera's counter \<open>frame_count\<close>. A draw from a uniform distribution is the argument \<open>rnd\<close>, which maps the
  bounds to the value drawn; the formatted time of day is the argument \<open>tm\<close>.
\<close>

section \<open>Devices\<close>

text \<open>The time of day in a reading: the number of characters \<^verbatim>\<open>strftime\<close> wrote, and the text.\<close>

definition currentTimeString :: "nat \<times> string \<Rightarrow> string" where
  "currentTimeString stamp = (if fst stamp = 0 then ''00:00:00'' else snd stamp)"

datatype device_type = ULTRASONIC | TEMPERATURE | CAMERA | HUMIDITY | PRESSURE

record device_config =
  cfg_device_id :: string
  cfg_type :: device_type
  data_generation_interval_ms :: double
  data_variance :: double

record iot_device =
  dev_config :: device_config
  last_data_generation :: int
  is_active :: bool
  reading :: double
  frame_count :: u64

fun type_string :: "device_type \<Rightarrow> string" where
  "type_string ULTRASONIC = ''ultrasonic''"
| "type_string TEMPERATURE = ''temperature''"
| "type_string CAMERA = ''camera''"
| "type_string HUMIDITY = ''humidity''"
| "type_string PRESSURE = ''pressure''"

definition getTypeString :: "iot_device \<Rightarrow> string" where
  "getTypeString d = type_string (cfg_type (dev_config d))"

definition shouldGenerateData :: "int \<Rightarrow> iot_device \<Rightarrow> bool" where
  "shouldGenerateData now d =
     (if \<not> is_active d then False
      else data_generation_interval_ms (dev_config d) \<le> dbl_of_int (to_millis (now - last_data_generation d)))"

definition updateLastGenerationTime :: "int \<Rightarrow> iot_device \<Rightarrow> iot_device" where
  "updateLastGenerationTime now d = d\<lparr>last_data_generation := now\<rparr>"

definition setActive :: "bool \<Rightarrow> iot_device \<Rightarrow> iot_device" where
  "setActive a d = d\<lparr>is_active := a\<rparr>"

definition addVariance :: "(double \<Rightarrow> double \<Rightarrow> double) \<Rightarrow> double \<Rightarrow> iot_device \<Rightarrow> double" where
  "addVariance rnd base d =
     (let variance_range = base * data_variance (dev_config d);
          offset = rnd (- variance_range) variance_range
      in base + offset)"

section \<open>Sensors\<close>

definition limit :: "double \<Rightarrow> double \<Rightarrow> double \<Rightarrow> double" where
  "limit lo hi v = (let v1 = (if v < lo then lo else v) in if hi < v1 then hi else v1)"

definition payload :: "iot_device \<Rightarrow> string \<Rightarrow> (string \<times> json) list \<Rightarrow> string \<Rightarrow> json" where
  "payload d sensor kvs tm = build
     ([(''device_id'', J_Str (cfg_device_id (dev_config d))), (''sensor_type'', J_Str sensor)] @ kvs @ [(''timestamp'', J_Str tm)])"

text \<open>The constant members of the sensor classes.\<close>

definition min_distance_cm :: double where "min_distance_cm = dbl 5"
definition max_distance_cm :: double where "max_distance_cm = dbl 500"
definition min_temp_celsius :: double where "min_temp_celsius = dbl (- 50)"
definition max_temp_celsius :: double where "max_temp_celsius = dbl 100"
definition resolution_width :: int where "resolution_width = 1920"
definition resolution_height :: int where "resolution_height = 1080"
definition min_humidity :: double where "min_humidity = 0"
definition max_humidity :: double where "max_humidity = dbl 100"
definition min_pressure_hpa :: double where "min_pressure_hpa = dbl 950"
definition max_pressure_hpa :: double where "max_pressure_hpa = dbl 1050"

lemmas member_defs = min_distance_cm_def max_distance_cm_def min_temp_celsius_def max_temp_celsius_def
  resolution_width_def resolution_height_def min_humidity_def max_humidity_def min_pressure_hpa_def max_pressure_hpa_def

definition ultrasonic_data :: "(double \<Rightarrow> double \<Rightarrow> double) \<Rightarrow> string \<Rightarrow> iot_device \<Rightarrow> json \<times> iot_device" where
  "ultrasonic_data rnd tm d =
     (let v = limit min_distance_cm max_distance_cm (addVariance rnd (reading d) d)
      in (payload d ''ultrasonic'' [(''distance_cm'', J_Num v)] tm, d\<lparr>reading := v\<rparr>))"

definition temperature_data :: "(double \<Rightarrow> double \<Rightarrow> double) \<Rightarrow> string \<Rightarrow> iot_device \<Rightarrow> json \<times> iot_device" where
  "temperature_data rnd tm d =
     (let v = limit min_temp_celsius max_temp_celsius (addVariance rnd (reading d) d)
      in (payload d ''temperature'' [(''temperature_celsius'', J_Num v)] tm, d\<lparr>reading := v\<rparr>))"

definition camera_data :: "string \<Rightarrow> iot_device \<Rightarrow> json \<times> iot_device" where
  "camera_data tm d =
     (let f = frame_count d + 1
      in (payload d ''camera'' [(''frame_number'', J_Int (uint f)), (''resolution_width'', J_Int resolution_width),
            (''resolution_height'', J_Int resolution_height)] tm,
          d\<lparr>frame_count := f\<rparr>))"

definition humidity_data :: "(double \<Rightarrow> double \<Rightarrow> double) \<Rightarrow> string \<Rightarrow> iot_device \<Rightarrow> json \<times> iot_device" where
  "humidity_data rnd tm d =
     (let v = limit min_humidity max_humidity (addVariance rnd (reading d) d)
      in (payload d ''humidity'' [(''humidity_percent'', J_Num v)] tm, d\<lparr>reading := v\<rparr>))"

definition pressure_data :: "(double \<Rightarrow> double \<Rightarrow> double) \<Rightarrow> string \<Rightarrow> iot_device \<Rightarrow> json \<times> iot_device" where
  "pressure_data rnd tm d =
     (let v = limit min_pressure_hpa max_pressure_hpa (addVariance rnd (reading d) d)
      in (payload d ''pressure'' [(''pressure_hpa'', J_Num v)] tm, d\<lparr>reading := v\<rparr>))"

lemmas sensor_defs = ultrasonic_data_def temperature_data_def camera_data_def humidity_data_def pressure_data_def

text \<open>The virtual call.\<close>

definition generateSensorData :: "(double \<Rightarrow> double \<Rightarrow> double) \<Rightarrow> string \<Rightarrow> iot_device \<Rightarrow> json \<times> iot_device" where
  "generateSensorData rnd tm d =
     (case cfg_type (dev_config d) of
        ULTRASONIC \<Rightarrow> ultrasonic_data rnd tm d
      | TEMPERATURE \<Rightarrow> temperature_data rnd tm d
      | CAMERA \<Rightarrow> camera_data tm d
      | HUMIDITY \<Rightarrow> humidity_data rnd tm d
      | PRESSURE \<Rightarrow> pressure_data rnd tm d)"

text \<open>The constructor of the base class, then those of the sensors; the members a class does not have are zero.\<close>

definition base_device :: "int \<Rightarrow> device_config \<Rightarrow> iot_device" where
  "base_device now cfg = \<lparr>dev_config = cfg, last_data_generation = now, is_active = True, reading = 0, frame_count = 0\<rparr>"

definition new_ultrasonic :: "int \<Rightarrow> device_config \<Rightarrow> iot_device" where
  "new_ultrasonic now cfg = (base_device now cfg)\<lparr>reading := (min_distance_cm + max_distance_cm) / dbl 2\<rparr>"

definition new_temperature :: "int \<Rightarrow> device_config \<Rightarrow> iot_device" where
  "new_temperature now cfg = (base_device now cfg)\<lparr>reading := dbl 22\<rparr>"

definition new_camera :: "int \<Rightarrow> device_config \<Rightarrow> iot_device" where
  "new_camera now cfg = (base_device now cfg)\<lparr>frame_count := 0\<rparr>"

definition new_humidity :: "int \<Rightarrow> device_config \<Rightarrow> iot_device" where
  "new_humidity now cfg = (base_device now cfg)\<lparr>reading := dbl 50\<rparr>"

definition new_pressure :: "int \<Rightarrow> device_config \<Rightarrow> iot_device" where
  "new_pressure now cfg = (base_device now cfg)\<lparr>reading := (min_pressure_hpa + max_pressure_hpa) / dbl 2\<rparr>"

text \<open>The choice of the class by the type of the device.\<close>

definition new_device :: "int \<Rightarrow> device_config \<Rightarrow> iot_device" where
  "new_device now cfg =
     (case cfg_type cfg of
        ULTRASONIC \<Rightarrow> new_ultrasonic now cfg
      | TEMPERATURE \<Rightarrow> new_temperature now cfg
      | CAMERA \<Rightarrow> new_camera now cfg
      | HUMIDITY \<Rightarrow> new_humidity now cfg
      | PRESSURE \<Rightarrow> new_pressure now cfg)"

lemmas constructor_defs = base_device_def new_ultrasonic_def new_temperature_def new_camera_def new_humidity_def new_pressure_def

lemma new_device_config [simp]: "dev_config (new_device now cfg) = cfg"
  by (simp add: new_device_def constructor_defs split: device_type.split)

section \<open>The fleet of devices\<close>

definition device_types :: "device_type list" where
  "device_types = [ULTRASONIC, TEMPERATURE, CAMERA, HUMIDITY, PRESSURE]"

definition device_name :: "nat \<Rightarrow> string" where
  "device_name i = ''DEV'' @ pad_dec 4 (i + 1)"

definition device_cfg :: "nat \<Rightarrow> device_config" where
  "device_cfg i =
     \<lparr>cfg_device_id = device_name i, cfg_type = device_types ! (i mod length device_types),
      data_generation_interval_ms = dbl 200, data_variance = dbl (5 / 100)\<rparr>"

text \<open>The loop from \<open>i\<close> with \<open>k\<close> devices to go; the \<open>i\<close>th constructor reads the clock as \<open>clk i\<close>.\<close>

fun create_devices :: "(nat \<Rightarrow> int) \<Rightarrow> nat \<Rightarrow> nat \<Rightarrow> ('j, 'm) store_scheme \<Rightarrow> iot_device list \<times> ('j, 'm) store_scheme" where
  "create_devices clk i 0 s = ([], s)"
| "create_devices clk i (Suc k) s =
     (let d = new_device (clk i) (device_cfg i);
          (ds, s') = create_devices clk (Suc i) k (db (Db_saveDevice (device_name i) (getTypeString d)) s)
      in (d # ds, s'))"

definition createDevices :: "(nat \<Rightarrow> int) \<Rightarrow> nat \<Rightarrow> ('j, 'm) store_scheme \<Rightarrow> iot_device list \<times> ('j, 'm) store_scheme" where
  "createDevices clk n s = create_devices clk 0 n s"

section \<open>Properties\<close>

lemma limit_bounds: "lo \<le> hi \<Longrightarrow> lo \<le> limit lo hi v \<and> limit lo hi v \<le> hi"
  by (auto simp: limit_def Let_def)

lemma limit_nonneg: "0 \<le> v \<Longrightarrow> 0 \<le> hi \<Longrightarrow> 0 \<le> limit lo hi v"
  by (auto simp: limit_def Let_def)

text \<open>What a uniform distribution promises of a draw, when its bounds are in order.\<close>

definition uniform :: "(double \<Rightarrow> double \<Rightarrow> double) \<Rightarrow> bool" where
  "uniform rnd \<longleftrightarrow> (\<forall>a b. a \<le> b \<longrightarrow> a \<le> rnd a b \<and> rnd a b \<le> b)"

text \<open>The range of a sensor as its class declares it.\<close>

fun sensor_range :: "device_type \<Rightarrow> double \<times> double" where
  "sensor_range ULTRASONIC = (min_distance_cm, max_distance_cm)"
| "sensor_range TEMPERATURE = (min_temp_celsius, max_temp_celsius)"
| "sensor_range CAMERA = (0, 0)"
| "sensor_range HUMIDITY = (min_humidity, max_humidity)"
| "sensor_range PRESSURE = (min_pressure_hpa, max_pressure_hpa)"

definition device_ok :: "iot_device \<Rightarrow> bool" where
  "device_ok d \<longleftrightarrow> 0 \<le> data_variance (dev_config d) \<and> data_variance (dev_config d) \<le> 1 \<and> 0 \<le> reading d \<and>
     fst (sensor_range (cfg_type (dev_config d))) \<le> reading d \<and> reading d \<le> snd (sensor_range (cfg_type (dev_config d)))"

lemma double_minus_le: "0 \<le> (v :: double) \<Longrightarrow> v \<le> b \<Longrightarrow> 0 \<le> b + - v"
proof -
  assume "0 \<le> v" "v \<le> b"
  then have "b + - b \<le> b + - v" by (intro double_add_mono) (auto simp: double_iffs rat_of_ops)
  moreover have "b + - b = 0" by (simp add: double_iffs rat_of_ops)
  ultimately show ?thesis by simp
qed

lemma addVariance_nonneg:
  assumes "uniform rnd" "device_ok d"
  shows "0 \<le> addVariance rnd (reading d) d" "- (reading d * data_variance (dev_config d)) \<le> reading d * data_variance (dev_config d)"
proof -
  let ?v = "reading d * data_variance (dev_config d)"
  have ok: "0 \<le> reading d" "0 \<le> data_variance (dev_config d)" "data_variance (dev_config d) \<le> 1" using assms(2) by (simp_all add: device_ok_def)
  have v: "0 \<le> ?v" using ok by (intro double_mult_nonneg)
  have "?v \<le> reading d * 1" using ok by (intro double_mult_mono) auto
  then have "?v \<le> reading d" by simp
  with v have "0 \<le> reading d + - ?v" by (rule double_minus_le)
  moreover show o: "- ?v \<le> ?v" using v by (simp add: double_iffs rat_of_ops)
  then have "reading d + - ?v \<le> reading d + rnd (- ?v) ?v" using assms(1) by (intro double_add_mono) (auto simp: uniform_def)
  ultimately show "0 \<le> addVariance rnd (reading d) d" by (simp add: addVariance_def Let_def)
qed

lemma generate_ok:
  assumes "uniform rnd" "device_ok d"
  shows "device_ok (snd (generateSensorData rnd tm d))" "dev_config (snd (generateSensorData rnd tm d)) = dev_config d"
proof -
  note v = addVariance_nonneg(1) [OF assms]
  have "dbl 5 \<le> dbl 500" "dbl (- 50) \<le> dbl 100" "0 \<le> dbl 100" "dbl 950 \<le> dbl 1050" "0 \<le> dbl 500" "0 \<le> dbl 1050"
    by (simp_all add: dbl_le dbl_nonneg)
  note b = limit_bounds [OF this(1)] limit_bounds [OF this(2)] limit_bounds [OF this(3)] limit_bounds [OF this(4)]
    limit_nonneg [OF v this(5)] limit_nonneg [OF v this(3)] limit_nonneg [OF v this(6)]
  show "device_ok (snd (generateSensorData rnd tm d))"
    using assms(2) b
    by (cases "cfg_type (dev_config d)")
      (auto simp: generateSensorData_def device_ok_def sensor_defs member_defs Let_def)
  show "dev_config (snd (generateSensorData rnd tm d)) = dev_config d"
    by (simp add: generateSensorData_def sensor_defs Let_def split: device_type.split)
qed

text \<open>The device after \<open>n\<close> calls of \<open>generateSensorData\<close>, the \<open>k\<close>th with its own draw and time of day.\<close>

fun after_generations :: "(nat \<Rightarrow> double \<Rightarrow> double \<Rightarrow> double) \<Rightarrow> (nat \<Rightarrow> string) \<Rightarrow> nat \<Rightarrow> iot_device \<Rightarrow> iot_device" where
  "after_generations rnd tm 0 d = d"
| "after_generations rnd tm (Suc n) d = snd (generateSensorData (rnd n) (tm n) (after_generations rnd tm n d))"

lemma after_ok:
  assumes "\<And>k. uniform (rnd k)" "device_ok d"
  shows "device_ok (after_generations rnd tm n d) \<and> dev_config (after_generations rnd tm n d) = dev_config d"
proof (induction n)
  case (Suc n)
  then show ?case using generate_ok [OF assms(1) conjunct1 [OF Suc]] by simp
qed (use assms(2) in simp)

lemma new_device_ok: "device_ok (new_device now (device_cfg i))"
proof -
  have f: "fl (fl (5 + 500) / 2) = 505 / 2" "fl (fl (950 + 1050) / 2) = 1000" "fl 22 = 22" "fl 50 = 50" "fl (505 / 2) = 505 / 2" by code_simp+
  have "fl (5 / 100) \<le> fl 1" "0 \<le> fl (5 / 100)" by (rule fl_mono; simp) (rule fl_nonneg; simp)
  then have "0 \<le> dbl (5 / 100)" "dbl (5 / 100) \<le> 1" by (simp_all add: dbl_nonneg one_dbl dbl_le_iff)
  then show ?thesis
    by (cases "device_types ! (i mod length device_types)")
      (simp_all add: device_ok_def new_device_def constructor_defs member_defs device_cfg_def dbl_plus dbl_divide dbl_le_iff zero_dbl f)
qed

text \<open>whatever is drawn and however often data is generated, the reading of every sensor of the fleet
  stays in the range its class declares, and the bounds handed to the random distribution are always
  in order, as it requires. No reading ever becomes negative either: the lower limit of the
  temperature sensor, -50 degrees, is never reached from its start at 22.\<close>

theorem sensor_readings_in_range:
  assumes "\<And>k. uniform (rnd k)" "d = after_generations rnd tm n (new_device now (device_cfg i))"
  shows "fst (sensor_range (cfg_type (device_cfg i))) \<le> reading d \<and> reading d \<le> snd (sensor_range (cfg_type (device_cfg i))) \<and>
    0 \<le> reading d \<and> - (reading d * data_variance (dev_config d)) \<le> reading d * data_variance (dev_config d)"
proof -
  have d: "device_ok d" "dev_config d = device_cfg i"
    using after_ok [of rnd "new_device now (device_cfg i)" tm n, OF assms(1) new_device_ok]
    by (simp_all add: assms(2))
  then show ?thesis using addVariance_nonneg(2) [OF assms(1) d(1)] by (simp add: device_ok_def)
qed

lemma device_name_inject: "device_name i = device_name j \<longleftrightarrow> i = j"
  by (simp add: device_name_def pad_dec_inject)

lemma create_devices_spec:
  "create_devices clk i k s = (ds, s') \<Longrightarrow>
   ds = map (\<lambda>j. new_device (clk j) (device_cfg j)) [i..<i + k] \<and>
   s' = s\<lparr>db_calls := db_calls s @ map (\<lambda>j. Db_saveDevice (device_name j) (type_string (cfg_type (device_cfg j)))) [i..<i + k]\<rparr>"
proof (induction clk i k s arbitrary: ds s' rule: create_devices.induct)
  case (2 clk i k s)
  then show ?case
    by (auto simp: Let_def case_prod_beta upt_rec [of i] db_def getTypeString_def prod_eq_iff)
qed simp

text \<open>the device fleet has the size asked for, distinct names \<open>DEV0001\<close>, \<open>DEV0002\<close>, ... and the five
  sensor types in turn; each device is stored in the database under its name, and each sensor type is
  one that has a built-in task profile, also under the name the sensor puts into its data.\<close>

theorem device_fleet:
  assumes "createDevices clk n s = (ds, s')" "i < n"
  shows "length ds = n \<and> cfg_device_id (dev_config (ds ! i)) = device_name i \<and> inj device_name \<and>
    cfg_type (dev_config (ds ! i)) = device_types ! (i mod 5) \<and>
    length (db_calls s') = length (db_calls s) + n \<and>
    db_calls s' ! (length (db_calls s) + i) = Db_saveDevice (device_name i) (getTypeString (ds ! i)) \<and>
    getTypeString (ds ! i) \<in> set default_sensors \<and>
    at_key ''sensor_type'' (fst (generateSensorData rnd tm (ds ! i))) = Inr (J_Str (getTypeString (ds ! i)))"
proof -
  have *: "ds = map (\<lambda>j. new_device (clk j) (device_cfg j)) [0..<0 + n]"
    "s' = s\<lparr>db_calls := db_calls s @ map (\<lambda>j. Db_saveDevice (device_name j) (type_string (cfg_type (device_cfg j)))) [0..<0 + n]\<rparr>"
    using create_devices_spec assms(1) unfolding createDevices_def by blast+
  then have d: "dev_config (ds ! i) = device_cfg i" using assms(2) by simp
  have "type_string ty \<in> set default_sensors" for ty by (cases ty) (simp_all add: default_sensors_def)
  moreover have "at_key ''sensor_type'' (payload e sensor kvs tm) = Inr (J_Str sensor)"
    if "''sensor_type'' \<notin> fst ` set kvs" for e sensor kvs
  proof -
    have "map_of (rev kvs) ''sensor_type'' = None" using that by (simp add: map_of_eq_None_iff)
    then show ?thesis by (simp add: payload_def at_build map_add_def)
  qed
  then have "at_key ''sensor_type'' (fst (generateSensorData rnd tm e)) = Inr (J_Str (getTypeString e))" for e
    by (simp add: generateSensorData_def sensor_defs getTypeString_def Let_def split: device_type.split)
  ultimately show ?thesis
    using d * assms(2)
    by (simp add: inj_def device_name_inject device_cfg_def getTypeString_def device_types_def nth_append)
qed

theorem sensor_readings_in_range_witness:
  "reading (after_generations (\<lambda>_ a b. b) (\<lambda>_. ''12:00:00'') 50 (new_device 0 (device_cfg 1))) \<le> dbl 100"
proof -
  have "uniform (\<lambda>a b. b)" by (simp add: uniform_def)
  from sensor_readings_in_range [of "\<lambda>_ a b. b" _ "\<lambda>_. ''12:00:00''" 50 0 1, OF this refl]
  show ?thesis by (simp add: device_cfg_def device_types_def max_temp_celsius_def)
qed

theorem device_fleet_witness:
  "cfg_device_id (dev_config (fst (createDevices (\<lambda>_. 0) 8 demo_exec) ! 6)) = ''DEV0007'' \<and>
   getTypeString (fst (createDevices (\<lambda>_. 0) 8 demo_exec) ! 6) = ''temperature''"
proof -
  let ?r = "createDevices (\<lambda>_. 0) 8 demo_exec"
  have "device_name 6 = ''DEV0007''" by code_simp
  then show ?thesis
    using device_fleet [of "\<lambda>_. 0" 8 demo_exec "fst ?r" "snd ?r" 6]
    by (simp add: device_types_def getTypeString_def)
qed

end
