(* ===== verification/Config.thy ===== *)
theory Config
  imports Constants Prelude
begin

text \<open>
  \<^verbatim>\<open>simulation_config.h\<close> and \<^verbatim>\<open>simulation_config.cpp\<close>: the parameters of a run and their command line.
  The arguments are those after the program's name. Printing and \<open>std::exit\<close> end the program: the
  result says how. \<open>std::stoul\<close> is written out: it skips white space, takes a sign and the longest
  run of digits, ignores what follows, negates in unsigned arithmetic, and throws when there is no
  digit or the number needs more than 64 bits.
\<close>

section \<open>Numbers\<close>

datatype number_error = Invalid_Argument | Number_Out_Of_Range

definition is_space :: "char \<Rightarrow> bool" where
  "is_space c \<longleftrightarrow> c \<in> {CHR '' '', CHR 0x09, CHR 0x0A, CHR 0x0B, CHR 0x0C, CHR 0x0D}"

definition is_digit :: "char \<Rightarrow> bool" where
  "is_digit c \<longleftrightarrow> 48 \<le> (of_char c :: nat) \<and> (of_char c :: nat) \<le> 57"

fun take_sign :: "string \<Rightarrow> bool \<times> string" where
  "take_sign (c # s) = (if c = CHR ''-'' then (True, s) else if c = CHR ''+'' then (False, s) else (False, c # s))"
| "take_sign [] = (False, [])"

definition stoul :: "string \<Rightarrow> number_error + u64" where
  "stoul s =
     (let (neg, t) = take_sign (dropWhile is_space s);
          ds = takeWhile is_digit t
      in if ds = [] then Inl Invalid_Argument
         else if 2 ^ 64 \<le> undec ds then Inl Number_Out_Of_Range
         else Inr (if neg then - of_nat (undec ds) else of_nat (undec ds)))"

section \<open>The configuration\<close>

record simulation_config =
  device_count :: u64
  edge_node_count :: u64
  task_count :: u64
  cfg_strategy :: string
  cfg_scheduling :: string
  db_path :: string
  log_path :: string
  use_mqtt :: bool
  mqtt_broker :: string
  run_comparison :: bool
  verbose :: bool
  web_mode :: bool
  web_port :: "16 word"
  automatic_mode :: bool

definition default_config :: simulation_config where
  "default_config =
     \<lparr>device_count = 100, edge_node_count = 10, task_count = 10000,
      cfg_strategy = ''multi_constraint'', cfg_scheduling = ''priority_based'',
      db_path = ''data/simulation.db'', log_path = ''logs/simulation.log'',
      use_mqtt = False, mqtt_broker = ''tcp://localhost:1883'', run_comparison = False, verbose = False,
      web_mode = False, web_port = 8080, automatic_mode = False\<rparr>"

lemma default_scale:
  "device_count default_config = kDefaultDeviceCount" "edge_node_count default_config = kDefaultEdgeNodeCount"
  "task_count default_config = kDefaultTaskCount"
  by (simp_all add: default_config_def kDefaultDeviceCount_def kDefaultEdgeNodeCount_def kDefaultTaskCount_def)

definition matchesFlag :: "string \<Rightarrow> string \<Rightarrow> string \<Rightarrow> bool" where
  "matchesFlag arg short_flag long_flag \<longleftrightarrow> arg = short_flag \<or> arg = long_flag"

text \<open>How parsing ends: with a configuration, with exit code 0 after the usage, with exit code 1 after an
  unknown argument and the usage, or with the exception of a bad number, which nothing catches.\<close>

datatype parse_result = Parsed simulation_config | Usage_Exit | Unknown_Exit string | Uncaught number_error

fun with_number :: "string \<Rightarrow> (u64 \<Rightarrow> parse_result) \<Rightarrow> parse_result" where
  "with_number s f = (case stoul s of Inl e \<Rightarrow> Uncaught e | Inr n \<Rightarrow> f n)"

lemma with_number_cong [fundef_cong]:
  "s = s' \<Longrightarrow> (\<And>n. f n = f' n) \<Longrightarrow> with_number s f = with_number s' f'"
  by (simp split: sum.split)

function parse_loop :: "string list \<Rightarrow> simulation_config \<Rightarrow> parse_result" where
  "parse_loop [] c = Parsed c"
| "parse_loop (arg # rest) c =
     (let has_next = rest \<noteq> []; nxt = hd rest; after = tl rest in
      if matchesFlag arg ''-d'' ''--devices'' \<and> has_next then with_number nxt (\<lambda>n. parse_loop after (c\<lparr>device_count := n\<rparr>))
      else if matchesFlag arg ''-e'' ''--edges'' \<and> has_next then with_number nxt (\<lambda>n. parse_loop after (c\<lparr>edge_node_count := n\<rparr>))
      else if matchesFlag arg ''-t'' ''--tasks'' \<and> has_next then with_number nxt (\<lambda>n. parse_loop after (c\<lparr>task_count := n\<rparr>))
      else if matchesFlag arg ''-s'' ''--strategy'' \<and> has_next then parse_loop after (c\<lparr>cfg_strategy := nxt\<rparr>)
      else if arg = ''--scheduling'' \<and> has_next then parse_loop after (c\<lparr>cfg_scheduling := nxt\<rparr>)
      else if matchesFlag arg ''-c'' ''--compare'' then parse_loop rest (c\<lparr>run_comparison := True\<rparr>)
      else if arg = ''--mqtt'' then parse_loop rest (c\<lparr>use_mqtt := True\<rparr>)
      else if arg = ''--broker'' \<and> has_next then parse_loop after (c\<lparr>mqtt_broker := nxt\<rparr>)
      else if arg = ''--db'' \<and> has_next then parse_loop after (c\<lparr>db_path := nxt\<rparr>)
      else if arg = ''--verbose'' then parse_loop rest (c\<lparr>verbose := True\<rparr>)
      else if arg = ''--web'' then parse_loop rest (c\<lparr>web_mode := True\<rparr>)
      else if arg = ''--web-port'' \<and> has_next then with_number nxt (\<lambda>n. parse_loop after (c\<lparr>web_port := ucast n\<rparr>))
      else if arg = ''--automatic'' then parse_loop rest (c\<lparr>automatic_mode := True\<rparr>)
      else if matchesFlag arg ''-h'' ''--help'' then Usage_Exit
      else Unknown_Exit arg)"
  by pat_completeness auto

termination by (relation "measure (\<lambda>(args, c). length args)") (auto simp: neq_Nil_conv)

definition parseArgs :: "string list \<Rightarrow> parse_result" where
  "parseArgs args = parse_loop args default_config"

section \<open>Properties\<close>

lemma digit_char_digit: "d < 10 \<Longrightarrow> is_digit (digit_char d)"
  by (simp add: is_digit_def of_digit_char)

lemma dec_digits: "\<forall>c\<in>set (dec n). is_digit c" "dec n \<noteq> []"
proof -
  show "\<forall>c\<in>set (dec n). is_digit c"
  proof (induction n rule: dec.induct)
    case (1 n)
    then show ?case by (subst dec.simps) (auto simp: digit_char_digit)
  qed
  show "dec n \<noteq> []" by (subst dec.simps) simp
qed

lemma digit_no_space: "is_digit c \<Longrightarrow> \<not> is_space c \<and> c \<noteq> CHR ''-'' \<and> c \<noteq> CHR ''+''"
  by (auto simp: is_digit_def is_space_def)

lemma takeWhile_dec [simp]: "takeWhile is_digit (dec n) = dec n"
  using dec_digits(1) [of n] by (simp only: takeWhile_eq_all_conv)

lemma stoul_dec: "stoul (dec n) = (if n < 2 ^ 64 then Inr (of_nat n) else Inl Number_Out_Of_Range)"
proof -
  obtain c ds where d: "dec n = c # ds" using dec_digits(2) [of n] by (cases "dec n") auto
  then have c: "is_digit c" using dec_digits(1) [of n] by simp
  have "take_sign (dropWhile is_space (dec n)) = (False, dec n)" using digit_no_space [OF c] by (simp add: d)
  then show ?thesis by (simp add: stoul_def Let_def dec_digits(2) del: dec.simps)
qed

lemma stoul_negative: "n < 2 ^ 64 \<Longrightarrow> stoul (CHR ''-'' # dec n) = Inr (- of_nat n)"
proof -
  have "\<not> is_space (CHR ''-'')" by (simp add: is_space_def)
  then show "n < 2 ^ 64 \<Longrightarrow> ?thesis" by (simp add: stoul_def Let_def dec_digits(2) del: dec.simps)
qed

lemma stoul_dec_unat [simp]: "stoul (dec (unat (w :: u64))) = Inr w"
  using unsigned_less [of w] by (simp add: stoul_dec del: dec.simps)

declare parse_loop.simps(2) [simp del] dec.simps [simp del]

text \<open>The command line that asks for a given configuration.\<close>

definition flag_if :: "bool \<Rightarrow> string \<Rightarrow> string list" where
  "flag_if b f = (if b then [f] else [])"

definition command_line :: "simulation_config \<Rightarrow> string list" where
  "command_line c =
     [''--devices'', dec (unat (device_count c)), ''--edges'', dec (unat (edge_node_count c)), ''--tasks'', dec (unat (task_count c)),
      ''--strategy'', cfg_strategy c, ''--scheduling'', cfg_scheduling c, ''--broker'', mqtt_broker c, ''--db'', db_path c,
      ''--web-port'', dec (unat (web_port c))] @
     flag_if (run_comparison c) ''--compare'' @ flag_if (use_mqtt c) ''--mqtt'' @ flag_if (verbose c) ''--verbose'' @
     flag_if (web_mode c) ''--web'' @ flag_if (automatic_mode c) ''--automatic''"

lemma parse_flags:
  "parse_loop (''--compare'' # rest) c = parse_loop rest (c\<lparr>run_comparison := True\<rparr>)"
  "parse_loop (''--mqtt'' # rest) c = parse_loop rest (c\<lparr>use_mqtt := True\<rparr>)"
  "parse_loop (''--verbose'' # rest) c = parse_loop rest (c\<lparr>verbose := True\<rparr>)"
  "parse_loop (''--web'' # rest) c = parse_loop rest (c\<lparr>web_mode := True\<rparr>)"
  "parse_loop (''--automatic'' # rest) c = parse_loop rest (c\<lparr>automatic_mode := True\<rparr>)"
  by (simp_all add: parse_loop.simps(2) Let_def matchesFlag_def)

lemma parse_flag_if:
  "parse_loop (flag_if b ''--compare'' @ rest) c = parse_loop rest (if b then c\<lparr>run_comparison := True\<rparr> else c)"
  "parse_loop (flag_if b ''--mqtt'' @ rest) c = parse_loop rest (if b then c\<lparr>use_mqtt := True\<rparr> else c)"
  "parse_loop (flag_if b ''--verbose'' @ rest) c = parse_loop rest (if b then c\<lparr>verbose := True\<rparr> else c)"
  "parse_loop (flag_if b ''--web'' @ rest) c = parse_loop rest (if b then c\<lparr>web_mode := True\<rparr> else c)"
  "parse_loop (flag_if b ''--automatic'' @ rest) c = parse_loop rest (if b then c\<lparr>automatic_mode := True\<rparr> else c)"
  by (cases b; simp add: flag_if_def parse_flags)+

lemma parse_help: "parse_loop (''-h'' # rest) c = Usage_Exit" "parse_loop (''--help'' # rest) c = Usage_Exit"
  by (simp_all add: parse_loop.simps(2) Let_def matchesFlag_def)

lemma parse_short:
  "parse_loop (''-d'' # v # rest) c = with_number v (\<lambda>n. parse_loop rest (c\<lparr>device_count := n\<rparr>))"
  "parse_loop (''-e'' # v # rest) c = with_number v (\<lambda>n. parse_loop rest (c\<lparr>edge_node_count := n\<rparr>))"
  "parse_loop (''-t'' # v # rest) c = with_number v (\<lambda>n. parse_loop rest (c\<lparr>task_count := n\<rparr>))"
  by (simp_all add: parse_loop.simps(2) Let_def matchesFlag_def del: with_number.simps)

lemma parse_no_value:
  "parse_loop [''-d''] c = Unknown_Exit ''-d''" "parse_loop [''--devices''] c = Unknown_Exit ''--devices''"
  "parse_loop [''-e''] c = Unknown_Exit ''-e''" "parse_loop [''--edges''] c = Unknown_Exit ''--edges''"
  "parse_loop [''-t''] c = Unknown_Exit ''-t''" "parse_loop [''--tasks''] c = Unknown_Exit ''--tasks''"
  "parse_loop [''-s''] c = Unknown_Exit ''-s''" "parse_loop [''--strategy''] c = Unknown_Exit ''--strategy''"
  "parse_loop [''--scheduling''] c = Unknown_Exit ''--scheduling''" "parse_loop [''--broker''] c = Unknown_Exit ''--broker''"
  "parse_loop [''--db''] c = Unknown_Exit ''--db''" "parse_loop [''--web-port''] c = Unknown_Exit ''--web-port''"
  by (simp_all add: parse_loop.simps(2) Let_def matchesFlag_def)

lemma parse_values:
  "parse_loop (''--devices'' # v # rest) c = with_number v (\<lambda>n. parse_loop rest (c\<lparr>device_count := n\<rparr>))"
  "parse_loop (''--edges'' # v # rest) c = with_number v (\<lambda>n. parse_loop rest (c\<lparr>edge_node_count := n\<rparr>))"
  "parse_loop (''--tasks'' # v # rest) c = with_number v (\<lambda>n. parse_loop rest (c\<lparr>task_count := n\<rparr>))"
  "parse_loop (''--strategy'' # v # rest) c = parse_loop rest (c\<lparr>cfg_strategy := v\<rparr>)"
  "parse_loop (''--scheduling'' # v # rest) c = parse_loop rest (c\<lparr>cfg_scheduling := v\<rparr>)"
  "parse_loop (''--broker'' # v # rest) c = parse_loop rest (c\<lparr>mqtt_broker := v\<rparr>)"
  "parse_loop (''--db'' # v # rest) c = parse_loop rest (c\<lparr>db_path := v\<rparr>)"
  "parse_loop (''--web-port'' # v # rest) c = with_number v (\<lambda>n. parse_loop rest (c\<lparr>web_port := ucast n\<rparr>))"
  by (simp_all add: parse_loop.simps(2) Let_def matchesFlag_def del: with_number.simps)

lemma stoul_port: "stoul (dec (unat (p :: 16 word))) = Inr (ucast p)"
proof -
  have "unat p < 2 ^ 16" using unsigned_less [of p, where 'a = nat] by simp
  then have "unat p < 2 ^ 64" by simp
  then show ?thesis by (simp add: stoul_dec unsigned_ucast_eq)
qed

lemma parse_command_line:
  "parse_loop (command_line c @ rest) default_config = parse_loop rest (c\<lparr>log_path := log_path default_config\<rparr>)"
proof -
  have "ucast (ucast (web_port c) :: u64) = web_port c" by (rule bit_word_eqI) (simp add: bit_simps)
  then show ?thesis
    by (simp add: command_line_def parse_values stoul_port parse_flag_if) (cases c; simp add: default_config_def)
qed

text \<open>C33: every configuration with the default log file can be asked for on the command line, and the
  parser gives exactly it back: all counts, the port and the strings keep their values.\<close>

theorem command_line_roundtrip:
  assumes "log_path c = ''logs/simulation.log''"
  shows "parseArgs (command_line c) = Parsed c"
proof -
  have "c\<lparr>log_path := log_path default_config\<rparr> = c" using assms by (cases c) (simp add: default_config_def)
  then show ?thesis using parse_command_line [of c "[]"] by (simp add: parseArgs_def)
qed

text \<open>after any good command line, the parser ends with exit code 0 at a request for help, with exit
  code 1 at an unknown argument or at a flag that lacks its value, and with an uncaught exception at
  a count or port that is no number or needs more than 64 bits.\<close>

theorem parse_errors:
  assumes "h \<in> {''-h'', ''--help''}" "count_flag \<in> {''-d'', ''--devices'', ''-e'', ''--edges'', ''-t'', ''--tasks'', ''--web-port''}"
    and "value_flag \<in> {''-s'', ''--strategy'', ''--scheduling'', ''--broker'', ''--db''} \<union>
           {''-d'', ''--devices'', ''-e'', ''--edges'', ''-t'', ''--tasks'', ''--web-port''}"
    and "stoul bad = Inl e"
    and "unknown \<notin> {''-d'', ''--devices'', ''-e'', ''--edges'', ''-t'', ''--tasks'', ''--web-port'', ''-s'', ''--strategy'', ''--scheduling'',
           ''--broker'', ''--db'', ''-c'', ''--compare'', ''--mqtt'', ''--verbose'', ''--web'', ''--automatic'', ''-h'', ''--help''}"
  shows "parseArgs (command_line c @ h # rest) = Usage_Exit \<and>
    parseArgs (command_line c @ unknown # rest) = Unknown_Exit unknown \<and>
    parseArgs (command_line c @ [value_flag]) = Unknown_Exit value_flag \<and>
    parseArgs (command_line c @ count_flag # bad # rest) = Uncaught e"
proof -
  let ?c = "c\<lparr>log_path := log_path default_config\<rparr>"
  have "parse_loop (h # rest) ?c = Usage_Exit"
    using assms(1) by (elim insertE emptyE) (simp_all add: parse_help)
  moreover have "parse_loop (unknown # rest) ?c = Unknown_Exit unknown"
    using assms(5) by (simp add: parse_loop.simps(2) Let_def matchesFlag_def)
  moreover have "parse_loop [value_flag] ?c = Unknown_Exit value_flag"
    using assms(3) by (elim insertE emptyE UnE) (simp_all add: parse_no_value)
  moreover have "parse_loop (count_flag # bad # rest) ?c = Uncaught e"
    using assms(2) by (elim insertE emptyE) (simp_all add: parse_values parse_short assms(4))
  ultimately show ?thesis by (simp add: parseArgs_def parse_command_line)
qed

text \<open>the numbers wrap silently: a port is reduced to its low 16 bits, so \<open>--web-port 65616\<close> listens on
  port 80, and a negative count becomes its difference from \<open>2\<^sup>6\<^sup>4\<close>, so \<open>--tasks -1\<close> asks for
  18446744073709551615 tasks.\<close>

theorem number_arguments_wrap:
  assumes "n < 2 ^ 64"
  shows "parseArgs [''--web-port'', dec n] = Parsed (default_config\<lparr>web_port := of_nat (n mod 65536)\<rparr>) \<and>
    parseArgs [''--tasks'', CHR ''-'' # dec n] = Parsed (default_config\<lparr>task_count := of_nat (2 ^ 64 - n)\<rparr>)"
proof -
  have "ucast (of_nat n :: u64) = (of_nat (n mod 65536) :: 16 word)"
    by (rule bit_word_eqI) (simp add: bit_simps bit_of_nat_iff_bit bit_take_bit_iff flip: take_bit_eq_mod [of 16 n, simplified])
  moreover have "(- of_nat n :: u64) = of_nat (2 ^ 64 - n)"
    using assms by (simp add: of_nat_diff)
  ultimately show ?thesis
    using assms by (simp add: parseArgs_def parse_values stoul_dec stoul_negative)
qed

theorem command_line_roundtrip_witness:
  "parseArgs (command_line (default_config\<lparr>task_count := 7, web_mode := True, cfg_scheduling := ''edf''\<rparr>)) =
     Parsed (default_config\<lparr>task_count := 7, web_mode := True, cfg_scheduling := ''edf''\<rparr>)"
  by (rule command_line_roundtrip) (simp add: default_config_def)

theorem parse_errors_witness:
  "parseArgs (command_line default_config @ [''--tasks'', ''many'']) = Uncaught Invalid_Argument \<and>
   parseArgs (command_line default_config @ [''--db'']) = Unknown_Exit ''--db''"
proof -
  have bad: "stoul ''many'' = Inl Invalid_Argument" by (simp add: stoul_def is_space_def is_digit_def)
  have p1: "''-h'' \<in> {''-h'', ''--help''}" by simp
  have p2: "''--tasks'' \<in> {''-d'', ''--devices'', ''-e'', ''--edges'', ''-t'', ''--tasks'', ''--web-port''}" by simp
  have p3: "''--db'' \<in> {''-s'', ''--strategy'', ''--scheduling'', ''--broker'', ''--db''} \<union>
      {''-d'', ''--devices'', ''-e'', ''--edges'', ''-t'', ''--tasks'', ''--web-port''}" by (rule UnI1) simp
  have p4: "''?'' \<notin> {''-d'', ''--devices'', ''-e'', ''--edges'', ''-t'', ''--tasks'', ''--web-port'', ''-s'', ''--strategy'', ''--scheduling'',
      ''--broker'', ''--db'', ''-c'', ''--compare'', ''--mqtt'', ''--verbose'', ''--web'', ''--automatic'', ''-h'', ''--help''}"
    by simp
  show ?thesis using parse_errors [OF p1 p2 p3 bad p4, of default_config "[]"] by (elim conjE) (rule conjI)
qed

theorem number_arguments_wrap_witness:
  "parseArgs [''--web-port'', ''65616''] = Parsed (default_config\<lparr>web_port := 80\<rparr>)"
proof -
  have "dec 65616 = ''65616''" by (simp add: dec.simps eval)
  with number_arguments_wrap [of 65616] show ?thesis by simp
qed

end
