(* ===== verification/Metrics.thy ===== *)
theory Metrics
  imports Task_Executor Json
begin

text \<open>
  \<^verbatim>\<open>metrics_collector.h\<close> and \<^verbatim>\<open>metrics_collector.cpp\<close>: the figures of an experiment, read from the
  allocator, the executor and the monitor. The collector has no state of its own. The square root and
  the printing of a number with two decimals are arguments.
\<close>

section \<open>Utilization\<close>

definition utilization :: "edge_node \<Rightarrow> double" where
  "utilization n = used_cpu_percent (current_usage n) / cap_cpu_percent (capacity n) * dbl 100"

fun utilization_sum :: "(nref \<Rightarrow> edge_node) \<Rightarrow> edge_map \<Rightarrow> double \<Rightarrow> u64 \<Rightarrow> double \<times> u64" where
  "utilization_sum ns [] sum_so_far counted = (sum_so_far, counted)"
| "utilization_sum ns ((eid, None) # es) sum_so_far counted = utilization_sum ns es sum_so_far counted"
| "utilization_sum ns ((eid, Some r) # es) sum_so_far counted =
     (if 0 < cap_cpu_percent (capacity (ns r)) then utilization_sum ns es (sum_so_far + utilization (ns r)) (counted + 1)
      else utilization_sum ns es sum_so_far counted)"

definition calculateAverageCpuUtilization :: "('j, 'm) monitor_scheme \<Rightarrow> double" where
  "calculateAverageCpuUtilization s =
     (if edge_nodes s = [] then 0
      else let (sum_so_far, counted) = utilization_sum (nodes s) (edge_nodes s) 0 0
           in if counted = 0 then 0 else sum_so_far / dbl_of_u64 counted)"

fun utilizations :: "(nref \<Rightarrow> edge_node) \<Rightarrow> edge_map \<Rightarrow> double list" where
  "utilizations ns [] = []"
| "utilizations ns ((eid, None) # es) = utilizations ns es"
| "utilizations ns ((eid, Some r) # es) =
     (if 0 < cap_cpu_percent (capacity (ns r)) then utilization (ns r) # utilizations ns es else utilizations ns es)"

definition calculateLoadImbalance :: "(double \<Rightarrow> double) \<Rightarrow> ('j, 'm) monitor_scheme \<Rightarrow> double" where
  "calculateLoadImbalance sqrt_of s =
     (if edge_nodes s = [] then 0
      else let us = utilizations (nodes s) (edge_nodes s) in
        if length us < 2 then 0
        else let n = dbl_of_int (int (length us));
                 mean = fold (\<lambda>v a. a + v) us 0 / n;
                 squared_diff_sum = fold (\<lambda>v a. let diff = v - mean in a + diff * diff) us 0;
                 variance = squared_diff_sum / n
             in sqrt_of variance)"

section \<open>The snapshot\<close>

record snapshot =
  average_latency_ms :: double
  average_waiting_time_ms :: double
  deadline_miss_rate_percent :: double
  average_cpu_utilization_percent :: double
  load_imbalance_stddev :: double
  throughput_tasks_per_second :: double
  task_success_rate_percent :: double

definition collect :: "(double \<Rightarrow> double) \<Rightarrow> double \<Rightarrow> ('j, 'm) executor_scheme \<Rightarrow> fault + snapshot" where
  "collect sqrt_of elapsed_seconds s =
     bind_sum (getAverageLatency s) (\<lambda>latency.
       let executed = total_tasks_executed s;
           failed = exec_tasks_failed s;
           completed_total = executed + failed
       in Inr
         \<lparr>average_latency_ms = latency,
          average_waiting_time_ms = getAverageExecutionTimeMs s,
          deadline_miss_rate_percent = (if 0 < completed_total then dbl_of_u64 failed / dbl_of_u64 completed_total * dbl 100 else 0),
          average_cpu_utilization_percent = calculateAverageCpuUtilization s,
          load_imbalance_stddev = calculateLoadImbalance sqrt_of s,
          throughput_tasks_per_second = (if 0 < elapsed_seconds then dbl_of_u64 executed / elapsed_seconds else 0),
          task_success_rate_percent = getSuccessRate s\<rparr>)"

definition snapshot_fields :: "snapshot \<Rightarrow> (string \<times> json) list" where
  "snapshot_fields p =
     [(''average_latency_ms'', J_Num (average_latency_ms p)),
      (''average_waiting_time_ms'', J_Num (average_waiting_time_ms p)),
      (''deadline_miss_rate_percent'', J_Num (deadline_miss_rate_percent p)),
      (''average_cpu_utilization_percent'', J_Num (average_cpu_utilization_percent p)),
      (''load_imbalance_stddev'', J_Num (load_imbalance_stddev p)),
      (''throughput_tasks_per_second'', J_Num (throughput_tasks_per_second p)),
      (''task_success_rate_percent'', J_Num (task_success_rate_percent p))]"

definition collectAsJson :: "(double \<Rightarrow> double) \<Rightarrow> double \<Rightarrow> ('j, 'm) executor_scheme \<Rightarrow> fault + json" where
  "collectAsJson sqrt_of elapsed_seconds s =
     bind_sum (collect sqrt_of elapsed_seconds s) (\<lambda>p. Inr (build (snapshot_fields p)))"

section \<open>The comparison table\<close>

text \<open>\<open>std::left << std::setw(w)\<close>: a longer text is not cut.\<close>

definition setw :: "nat \<Rightarrow> string \<Rightarrow> string" where
  "setw w s = s @ replicate (w - length s) (CHR '' '')"

definition table_header :: "string" where
  "table_header = setw 18 ''Algorithm'' @ setw 14 ''Latency(ms)'' @ setw 16 ''DeadlineMiss(%)'' @ setw 16 ''CPUUtil(%)'' @
     setw 16 ''LoadImbalance'' @ setw 14 ''Throughput'' @ setw 14 ''Success(%)''"

definition table_row :: "(double \<Rightarrow> string) \<Rightarrow> string \<times> snapshot \<Rightarrow> string" where
  "table_row fixed2 entry = (case entry of (name, p) \<Rightarrow>
     setw 18 name @ setw 14 (fixed2 (average_waiting_time_ms p)) @ setw 16 (fixed2 (deadline_miss_rate_percent p)) @
     setw 16 (fixed2 (average_cpu_utilization_percent p)) @ setw 16 (fixed2 (load_imbalance_stddev p)) @
     setw 14 (fixed2 (throughput_tasks_per_second p)) @ setw 14 (fixed2 (task_success_rate_percent p)))"

definition newline :: string where
  "newline = [CHR 0x0A]"

definition formatComparisonTable :: "(double \<Rightarrow> string) \<Rightarrow> (string \<times> snapshot) list \<Rightarrow> string" where
  "formatComparisonTable fixed2 results =
     table_header @ newline @ replicate 108 (CHR ''-'') @ newline @ concat (map (\<lambda>e. table_row fixed2 e @ newline) results)"

section \<open>Properties\<close>

lemma utilization_bounds:
  assumes "node_ok n" "even_sig (cap_cpu_percent (capacity n))" "0 < cap_cpu_percent (capacity n)"
  shows "0 \<le> utilization n \<and> utilization n \<le> dbl 100"
  unfolding utilization_def using assms fits_even by (intro rate_bounds) (auto simp: node_ok_def fits_def)

text \<open>A sum of \<open>n\<close> percentages is at most \<open>100 * n\<close> even in binary64, as that is a whole number.\<close>

lemma percent_add:
  assumes "x \<le> dbl_of_int (100 * k)" "v \<le> dbl 100" "0 \<le> k" "k < 2 ^ 40"
  shows "x + v \<le> dbl_of_int (100 * (k + 1))"
proof -
  have "x + v \<le> dbl_of_int (100 * k) + dbl 100" using assms(1,2) by (rule double_add_mono)
  also have "\<dots> = dbl_of_int (100 * (k + 1))"
  proof -
    have "\<bar>100 * k\<bar> \<le> 2 ^ 53" using assms(3,4) by simp
    then have "fl (of_int (100 * k)) = of_int (100 * k)" by (rule fl_of_int)
    then show ?thesis by (simp add: dbl_of_int_def dbl_plus ring_distribs)
  qed
  finally show ?thesis .
qed

lemma utilization_sum_bounds:
  assumes "\<forall>(eid, node)\<in>set es. \<forall>r. node = Some r \<longrightarrow> node_ok (ns r) \<and> even_sig (cap_cpu_percent (capacity (ns r)))"
    and "0 \<le> sum_so_far" "sum_so_far \<le> dbl_of_int (100 * uint counted)" "uint counted + int (length es) < 2 ^ 40"
    and "utilization_sum ns es sum_so_far counted = (sum_so_far', counted')"
  shows "0 \<le> sum_so_far' \<and> sum_so_far' \<le> dbl_of_int (100 * uint counted') \<and> uint counted' < 2 ^ 40"
  using assms
proof (induction ns es sum_so_far counted rule: utilization_sum.induct)
  case (3 ns eid r es sum_so_far counted)
  show ?case
  proof (cases "0 < cap_cpu_percent (capacity (ns r))")
    case True
    have n: "node_ok (ns r)" "even_sig (cap_cpu_percent (capacity (ns r)))" using "3.prems"(1) by auto
    have c: "uint (counted + 1) = uint counted + 1"
      using "3.prems"(4) by (simp add: uint_add_lem [THEN iffD1])
    have "sum_so_far + utilization (ns r) \<le> dbl_of_int (100 * (uint counted + 1))"
      using percent_add "3.prems"(3,4) utilization_bounds [OF n True] by auto
    moreover have "0 \<le> sum_so_far + utilization (ns r)"
      using "3.prems"(2) utilization_bounds [OF n True] by (intro double_add_nonneg) auto
    ultimately show ?thesis using 3 True c by auto
  qed (use 3 in auto)
qed auto

lemma average_percent:
  assumes "0 \<le> x" "x \<le> dbl_of_int (100 * k)" "0 < k" "k < 2 ^ 40"
  shows "0 \<le> x / dbl_of_int k \<and> x / dbl_of_int k \<le> dbl 100"
proof -
  have f: "fl (of_int k) = of_int k" "fl (of_int (100 * k)) = of_int (100 * k)"
    using assms(3,4) by (rule_tac fl_of_int, simp)+
  have pos: "0 < dbl_of_int k" using assms(3) f(1) by (simp add: double_iffs rat_of_ops dbl_of_int_def)
  have "x / dbl_of_int k \<le> dbl_of_int (100 * k) / dbl_of_int k" using assms(2) pos by (rule double_divide_mono)
  also have "\<dots> = dbl 100" using assms(3) f by (simp add: dbl_of_int_def dbl_divide)
  finally show ?thesis using assms(1) pos by (simp add: double_divide_nonneg)
qed

lemma square_sum_nonneg: "0 \<le> a \<Longrightarrow> 0 \<le> fold (\<lambda>v a. let diff = v - mean in a + diff * diff) us (a :: double)"
proof (induction us arbitrary: a)
  case (Cons v us)
  have "0 \<le> (v - mean) * (v - mean)" by (simp add: double_iffs rat_of_ops fl_nonneg)
  then have "0 \<le> a + (v - mean) * (v - mean)" using Cons.prems by (rule double_add_nonneg [rotated])
  then show ?case using Cons.IH by (simp add: Let_def)
qed simp

lemma imbalance_nonneg:
  assumes "\<And>x. 0 \<le> x \<Longrightarrow> 0 \<le> sqrt_of x"
  shows "0 \<le> calculateLoadImbalance sqrt_of s"
proof -
  have "0 \<le> fold (\<lambda>v a. let diff = v - mean in a + diff * diff) us 0 / dbl_of_int (int (length us))"
    if "\<not> length us < 2" for us and mean :: double
  proof -
    have "0 \<le> fold (\<lambda>v a. let diff = v - mean in a + diff * diff) us 0" by (rule square_sum_nonneg) simp
    moreover have "0 < dbl_of_int (int (length us))"
    proof -
      have "dbl_of_int 1 \<le> dbl_of_int (int (length us))" using that by (intro dbl_of_int_mono) auto
      moreover have "0 < dbl_of_int 1" by (simp add: dbl_of_int_def double_iffs rat_of_ops)
      ultimately show ?thesis by simp
    qed
    ultimately show ?thesis by (rule double_divide_nonneg)
  qed
  then show ?thesis using assms by (auto simp: calculateLoadImbalance_def Let_def)
qed

text \<open>The nodes have sound accounts and a CPU capacity whose significand is even, as 100 has.\<close>

definition fleet_ok :: "('j, 'm) monitor_scheme \<Rightarrow> bool" where
  "fleet_ok s \<longleftrightarrow> length (edge_nodes s) < 2 ^ 40 \<and>
     (\<forall>(eid, node)\<in>set (edge_nodes s). \<forall>r. node = Some r \<longrightarrow> node_ok (nodes s r) \<and> even_sig (cap_cpu_percent (capacity (nodes s r))))"

lemma average_cpu_bounds:
  assumes "fleet_ok s"
  shows "0 \<le> calculateAverageCpuUtilization s \<and> calculateAverageCpuUtilization s \<le> dbl 100"
proof -
  obtain sum_end counted where u: "utilization_sum (nodes s) (edge_nodes s) 0 0 = (sum_end, counted)"
    by (cases "utilization_sum (nodes s) (edge_nodes s) 0 0")
  have b: "0 \<le> sum_end \<and> sum_end \<le> dbl_of_int (100 * uint counted) \<and> uint counted < 2 ^ 40"
    using assms by (intro utilization_sum_bounds [OF _ _ _ _ u]) (auto simp: fleet_ok_def)
  have "0 < uint counted" if "counted \<noteq> 0" using that uint_ge_0 [of counted] by (metis le_less uint_0_iff)
  then show ?thesis
    using average_percent [of sum_end "uint counted"] b
    by (auto simp: calculateAverageCpuUtilization_def u dbl_of_u64_def dbl_nonneg)
qed

text \<open>every snapshot is sensible: the deadline miss rate, the average CPU utilization and the success
  rate are percentages between 0 and 100, the miss rate is 0 if nothing failed and 100 if nothing
  succeeded, and the load imbalance and the throughput are not negative; without any finished task,
  any time or any node the figures are 0 rather than a division by zero.\<close>

theorem snapshot_bounds:
  assumes "fleet_ok s" "uint (total_tasks_executed s) + uint (exec_tasks_failed s) < 2 ^ 64"
    and "successful_allocations s \<le> total_allocations s" "\<And>x. 0 \<le> x \<Longrightarrow> 0 \<le> sqrt_of x"
    and "collect sqrt_of elapsed s = Inr p"
  shows "0 \<le> deadline_miss_rate_percent p \<and> deadline_miss_rate_percent p \<le> dbl 100 \<and>
    (exec_tasks_failed s = 0 \<longrightarrow> deadline_miss_rate_percent p = 0) \<and>
    (total_tasks_executed s = 0 \<and> exec_tasks_failed s \<noteq> 0 \<longrightarrow> deadline_miss_rate_percent p = dbl 100) \<and>
    0 \<le> average_cpu_utilization_percent p \<and> average_cpu_utilization_percent p \<le> dbl 100 \<and>
    0 \<le> task_success_rate_percent p \<and> task_success_rate_percent p \<le> dbl 100 \<and>
    0 \<le> load_imbalance_stddev p \<and> 0 \<le> throughput_tasks_per_second p \<and>
    (edge_nodes s = [] \<longrightarrow> average_cpu_utilization_percent p = 0 \<and> load_imbalance_stddev p = 0) \<and>
    (elapsed \<le> 0 \<longrightarrow> throughput_tasks_per_second p = 0)"
proof -
  let ?e = "total_tasks_executed s" and ?f = "exec_tasks_failed s"
  have p: "deadline_miss_rate_percent p = (if 0 < ?e + ?f then dbl_of_u64 ?f / dbl_of_u64 (?e + ?f) * dbl 100 else 0)"
    "average_cpu_utilization_percent p = calculateAverageCpuUtilization s" "task_success_rate_percent p = getSuccessRate s"
    "load_imbalance_stddev p = calculateLoadImbalance sqrt_of s"
    "throughput_tasks_per_second p = (if 0 < elapsed then dbl_of_u64 ?e / elapsed else 0)"
    using assms(5) by (auto simp: collect_def bind_sum_Inr Let_def)
  have pos: "0 \<le> dbl_of_u64 w" for w by (simp add: dbl_of_u64_def dbl_of_int_mono [of 0, simplified])
  have sum_ef: "uint (?e + ?f) = uint ?e + uint ?f" using assms(2) by (simp add: uint_add_lem [THEN iffD1])
  then have "?f \<le> ?e + ?f" by (simp add: word_le_def)
  then have "0 \<le> dbl_of_u64 ?f / dbl_of_u64 (?e + ?f) * dbl 100 \<and> dbl_of_u64 ?f / dbl_of_u64 (?e + ?f) * dbl 100 \<le> dbl 100" if "0 < ?e + ?f"
    using that by (intro rate_bounds dbl_of_u64_mono dbl_of_u64_pos pos) auto
  then have miss: "0 \<le> deadline_miss_rate_percent p \<and> deadline_miss_rate_percent p \<le> dbl 100" by (simp add: p(1) dbl_nonneg)
  have "dbl_of_u64 ?f / dbl_of_u64 ?f * dbl 100 = dbl 100" if "?f \<noteq> 0"
    using dbl_of_u64_pos [OF that] by (simp add: double_divide_self)
  then have "deadline_miss_rate_percent p = dbl 100" if "?e = 0" "?f \<noteq> 0" using that by (simp add: p(1) word_gt_0)
  moreover have "deadline_miss_rate_percent p = 0" if "?f = 0" using that by (simp add: p(1) dbl_of_u64_def)
  moreover have "0 \<le> throughput_tasks_per_second p" using pos by (simp add: p(5) double_divide_nonneg)
  moreover have "0 \<le> load_imbalance_stddev p" unfolding p(4) by (rule imbalance_nonneg) (rule assms(4))
  moreover have "calculateAverageCpuUtilization s = 0 \<and> calculateLoadImbalance sqrt_of s = 0" if "edge_nodes s = []"
    using that by (simp add: calculateAverageCpuUtilization_def calculateLoadImbalance_def)
  ultimately show ?thesis
    using miss average_cpu_bounds [OF assms(1)] success_rate_bound [OF assms(3)] by (auto simp: p(2-5))
qed

text \<open>the comparison table is aligned: its header and the line below it are 108 characters wide, and so
  is every row whose name and printed figures fit their columns; a row shows its figures in the order
  of the header. The column headed \<open>Latency(ms)\<close> shows the average execution time, not the latency.\<close>

theorem comparison_table_layout:
  assumes "length name \<le> 18" "\<And>x. length (fixed2 x) \<le> 14"
  shows "length table_header = 108 \<and> length (table_row fixed2 (name, p)) = 108 \<and>
    take (length (fixed2 (average_waiting_time_ms p))) (drop 18 (table_row fixed2 (name, p))) = fixed2 (average_waiting_time_ms p) \<and>
    table_row fixed2 (name, p\<lparr>average_latency_ms := x\<rparr>) = table_row fixed2 (name, p) \<and>
    take (length ''Latency(ms)'') (drop 18 table_header) = ''Latency(ms)''"
proof -
  have w: "length (setw k t) = max k (length t)" for k t by (simp add: setw_def)
  have "length (fixed2 x) \<le> 16" for x using assms(2) [of x] by simp
  then have "length (table_row fixed2 (name, p)) = 108" using assms by (simp add: table_row_def w max_absorb1)
  have d: "drop 18 (setw 18 n @ t) = t" if "length n \<le> 18" for n t using that by (simp add: setw_def)
  have t: "take (length v) (setw 14 v @ rest) = v" for v rest by (simp add: setw_def)
  have "drop 18 (table_row fixed2 (name, p)) = setw 14 (fixed2 (average_waiting_time_ms p)) @ u" if
    "u = setw 16 (fixed2 (deadline_miss_rate_percent p)) @ setw 16 (fixed2 (average_cpu_utilization_percent p)) @
       setw 16 (fixed2 (load_imbalance_stddev p)) @ setw 14 (fixed2 (throughput_tasks_per_second p)) @
       setw 14 (fixed2 (task_success_rate_percent p))" for u
    unfolding table_row_def prod.case that by (rule d [OF assms(1)])
  then have row: "take (length (fixed2 (average_waiting_time_ms p))) (drop 18 (table_row fixed2 (name, p))) = fixed2 (average_waiting_time_ms p)"
    by (simp only: t)
  have "drop 18 table_header = setw 14 ''Latency(ms)'' @ u" if
    "u = setw 16 ''DeadlineMiss(%)'' @ setw 16 ''CPUUtil(%)'' @ setw 16 ''LoadImbalance'' @ setw 14 ''Throughput'' @ setw 14 ''Success(%)''" for u
    unfolding table_header_def that by (rule d) simp
  then have header: "take (length ''Latency(ms)'') (drop 18 table_header) = ''Latency(ms)''" using t by (simp only:)
  have "length table_header = 108" by (simp add: table_header_def w)
  moreover have "table_row fixed2 (name, p\<lparr>average_latency_ms := x\<rparr>) = table_row fixed2 (name, p)" by (simp add: table_row_def)
  ultimately show ?thesis using \<open>length (table_row fixed2 (name, p)) = 108\<close> row header by (intro conjI)
qed

section \<open>A concrete snapshot\<close>

theorem snapshot_bounds_witness:
  "\<exists>p. collect (\<lambda>x. x) (dbl 2) (demo_exec\<lparr>exec_nodes := [], exec_tasks_failed := 3\<rparr>) = Inr p \<and> deadline_miss_rate_percent p = dbl 100"
proof -
  let ?s = "demo_exec\<lparr>exec_nodes := [], exec_tasks_failed := 3\<rparr>"
  obtain p where p: "collect (\<lambda>x. x) (dbl 2) ?s = Inr p" by (simp add: collect_def getAverageLatency_def Let_def)
  have "fleet_ok ?s"
    using demo_nodes_ok even_sig_pow(1)
    by (auto simp: fleet_ok_def demo_exec_def demo_manager_def demo_sched_def upd_node_def demo_cap_def task_manager.defs scheduler.defs
        allocator.defs node_ok_def)
  moreover have "total_tasks_executed ?s = 0" "successful_allocations ?s = 0" by (simp_all add: demo_exec_def task_manager.defs demo_manager_def demo_sched_def scheduler.defs allocator.defs)
  ultimately show ?thesis using snapshot_bounds [of ?s "\<lambda>x. x" "dbl 2" p] p by simp
qed

theorem comparison_table_layout_witness:
  "length (table_row (\<lambda>_. ''12.50'') (''Round Robin'', \<lparr>average_latency_ms = 0, average_waiting_time_ms = 0, deadline_miss_rate_percent = 0,
     average_cpu_utilization_percent = 0, load_imbalance_stddev = 0, throughput_tasks_per_second = 0, task_success_rate_percent = 0\<rparr>)) = 108"
  using comparison_table_layout [of "''Round Robin''" "\<lambda>_. ''12.50''"] by simp

end
