(* ===== verification/Experiment.thy ===== *)
theory Experiment
  imports Conservation Devices Config Metrics Database_Manager
begin

text \<open>
  \<^verbatim>\<open>main.cpp\<close> from the set-up of the components on: the loop that produces the tasks, the wait for the
  queues, one experiment and the comparison of the strategies. What the code cannot know is an
  argument: a \<open>turn\<close> holds the random draws, the clock and what the workers do while the producer sleeps
  in one turn of the loop, and a \<open>world\<close> holds this for a whole experiment.
\<close>

section \<open>The producer\<close>

record 's turn =
  draw :: "double \<Rightarrow> double \<Rightarrow> double"
  time_text :: "nat \<times> string"
  clock :: int
  asleep :: "nat \<Rightarrow> 's \<Rightarrow> 's"
  load_draws :: "string \<Rightarrow> double \<times> double"

text \<open>Allocating with back-pressure, then queueing or recording the refusal; \<open>label\<close> is the name of the
  strategy that is stored.\<close>

definition place_task :: "(nat \<Rightarrow> ('j, 'm) scheduler_scheme \<Rightarrow> ('j, 'm) scheduler_scheme) \<Rightarrow> (('j, 'm) scheduler_scheme \<Rightarrow> string) \<Rightarrow> tref \<Rightarrow>
    ('j, 'm) scheduler_scheme \<Rightarrow> fault + ('j, 'm) scheduler_scheme" where
  "place_task sleep label t s =
     bind_sum (allocateTaskWithRetry sleep max_retries t s) (\<lambda>(result, s1).
       if success result
       then bind_sum (getEdgeNode (result_edge_id result) s1) (\<lambda>edge.
              let s2 = scheduleTask edge (Some t) s1
              in Inr (db (Db_saveAllocation (task_id (tasks s2 t)) (result_edge_id result) (score result) (label s2)) s2))
       else Inr (db (Db_saveAllocationFailure (task_id (tasks s1 t)) (reason result)) s1))"

text \<open>A reading of the \<open>i\<close>th device, cyclically, and the task made of it.\<close>

definition produce_task :: "'s turn \<Rightarrow> nat \<Rightarrow> iot_device list \<Rightarrow> (json, 'm) task_manager_scheme \<Rightarrow>
    fault + tref \<times> iot_device list \<times> (json, 'm) task_manager_scheme" where
  "produce_task e i devices s =
     (if devices = [] then Inl DivByZero
      else let k = i mod length devices;
               (data, d) = generateSensorData (draw e) (currentTimeString (time_text e)) (devices ! k)
           in bind_sum (createTaskFromSensorData (clock e) None (cfg_device_id (dev_config d)) (getTypeString d) data s) (\<lambda>(t, s1).
                Inr (t, devices[k := d], db (saved_task (tasks s1 t)) s1)))"

definition produce_turn :: "simulation_config \<Rightarrow> json executor turn \<Rightarrow> nat \<Rightarrow> iot_device list \<Rightarrow> json executor \<Rightarrow> fault + iot_device list \<times> json executor" where
  "produce_turn cfg e i devices s =
     bind_sum (produce_task e i devices s) (\<lambda>(t, devices', s1).
     bind_sum (place_task (asleep e) (\<lambda>_. cfg_strategy cfg) t s1) (\<lambda>s2.
     bind_sum (if i mod 100 = 0 then updateResourceMetrics (load_draws e) s2 else Inr s2) (\<lambda>s3.
       Inr (devices', s3))))"

text \<open>The loop from \<open>i\<close> with \<open>k\<close> tasks to go.\<close>

fun produce_loop :: "simulation_config \<Rightarrow> (nat \<Rightarrow> json executor turn) \<Rightarrow> nat \<Rightarrow> nat \<Rightarrow> iot_device list \<Rightarrow> json executor \<Rightarrow>
    fault + iot_device list \<times> json executor" where
  "produce_loop cfg es i 0 devices s = Inr (devices, s)"
| "produce_loop cfg es i (Suc k) devices s =
     bind_sum (produce_turn cfg (es i) i devices s) (\<lambda>(devices', s'). produce_loop cfg es (Suc i) k devices' s')"

text \<open>The wait for the queues: \<open>k\<close> polls are left before the deadline, and \<open>others j\<close> is what the workers do
  in the sleep after the \<open>j\<close>th poll.\<close>

definition any_queued :: "nref list \<Rightarrow> ('j, 'm) store_scheme \<Rightarrow> bool" where
  "any_queued edges s \<longleftrightarrow> list_ex (\<lambda>r. hasTasksInQueue (nodes s r)) edges"

fun drain_loop :: "(nat \<Rightarrow> 'j executor \<Rightarrow> 'j executor) \<Rightarrow> nat \<Rightarrow> nat \<Rightarrow> nref list \<Rightarrow> 'j executor \<Rightarrow> 'j executor" where
  "drain_loop others j 0 edges s = s"
| "drain_loop others j (Suc k) edges s =
     (if any_queued edges s then drain_loop others (Suc j) k edges (others j s) else others j s)"

section \<open>Experiments\<close>

record world =
  turns :: "nat \<Rightarrow> json executor turn"
  in_polls :: "nat \<Rightarrow> json executor \<Rightarrow> json executor"
  polls :: nat
  joining :: "json executor \<Rightarrow> json executor"
  elapsed :: double

text \<open>\<open>g\<close> is the position of the fleet's generator. Stopping the executor waits for the workers, which
  finish what they run.\<close>

definition runExperiment :: "(double \<Rightarrow> double) \<Rightarrow> (nat \<Rightarrow> node_draw) \<Rightarrow> simulation_config \<Rightarrow> world \<Rightarrow> allocation_strategy \<Rightarrow> nat \<Rightarrow>
    iot_device list \<Rightarrow> json executor \<Rightarrow> fault + snapshot \<times> nat \<times> iot_device list \<times> json executor" where
  "runExperiment sqrt_of draws cfg wd st g devices s =
     bind_sum (setup_experiment draws g (unat (edge_node_count cfg)) st (cfg_scheduling cfg) s) (\<lambda>(edges, g', s1).
     bind_sum (produce_loop cfg (turns wd) 0 (unat (task_count cfg)) devices s1) (\<lambda>(devices', s2).
       let s3 = drain_loop (in_polls wd) 0 (polls wd) edges s2;
           s4 = exec_stop (joining wd s3)
       in bind_sum (collect sqrt_of (elapsed wd) s4) (\<lambda>p. Inr (p, g', devices', s4))))"

fun run_all :: "(double \<Rightarrow> double) \<Rightarrow> (nat \<Rightarrow> node_draw) \<Rightarrow> simulation_config \<Rightarrow> (nat \<Rightarrow> world) \<Rightarrow> nat \<Rightarrow> allocation_strategy list \<Rightarrow> nat \<Rightarrow>
    iot_device list \<Rightarrow> json executor \<Rightarrow> fault + (string \<times> snapshot) list \<times> json executor" where
  "run_all sqrt_of draws cfg wds j [] g devices s = Inr ([], s)"
| "run_all sqrt_of draws cfg wds j (st # sts) g devices s =
     bind_sum (runExperiment sqrt_of draws cfg (wds j) st g devices s) (\<lambda>(p, g', devices', s1).
     bind_sum (run_all sqrt_of draws cfg wds (Suc j) sts g' devices' s1) (\<lambda>(results, s2).
       Inr ((strategyToLabel st, p) # results, s2)))"

definition all_strategies :: "allocation_strategy list" where
  "all_strategies = [ROUND_ROBIN, LEAST_LOAD, PRIORITY_BASED, MULTI_CONSTRAINT]"

text \<open>The profiles are stored one by one.\<close>

definition save_profiles :: "('j, 'm) task_manager_scheme \<Rightarrow> ('j, 'm) task_manager_scheme" where
  "save_profiles s = fold (\<lambda>(sensor, req). db (Db_saveTaskProfile sensor req)) (profile_map s) s"

text \<open>\<open>main\<close> without the web server, from the opening of the database on: the exit code, the results and
  the final state. \<open>src\<close> is what reading the stored profiles gives, \<open>clk\<close> the clock at the construction
  of each device. The calls the components make to the database are in the log of the state; nothing
  reads the database meanwhile, so they are carried out before it is closed.\<close>

definition batch_main :: "'d sqlite \<Rightarrow> (double \<Rightarrow> double) \<Rightarrow> (nat \<Rightarrow> node_draw) \<Rightarrow> (nat \<Rightarrow> int) \<Rightarrow> profile_source \<Rightarrow> (nat \<Rightarrow> world) \<Rightarrow>
    simulation_config \<Rightarrow> json executor \<Rightarrow> 'd database \<Rightarrow> fault + int \<times> (string \<times> snapshot) list \<times> json executor \<times> 'd database" where
  "batch_main L sqrt_of draws clk src wds cfg s D =
     (case db_initialize L (db_path cfg) D of
        (False, D1) \<Rightarrow> Inr (1, [], s, D1)
      | (True, D1) \<Rightarrow>
          (case resetSimulationData L D1 of
             (False, D2) \<Rightarrow> Inr (1, [], s, db_close L D2)
           | (True, D2) \<Rightarrow>
               (let s1 = save_profiles (s\<lparr>profile_map := loadProfiles src (profile_map s)\<rparr>);
                    (devices, s2) = createDevices clk (unat (device_count cfg)) s1;
                    sts = (if run_comparison cfg then all_strategies else [strategyFromString (cfg_strategy cfg)])
                in bind_sum (run_all sqrt_of draws cfg wds 0 sts 0 devices s2) (\<lambda>(results, s3).
                     Inr (0, results, s3, db_close L (perform_all L (drop (length (db_calls s)) (db_calls s3)) D2))))))"

section \<open>The code's producer is a run of the simulation\<close>

text \<open>Steps of the other threads while the producer is at \<open>p\<close>.\<close>

definition aside :: "producer \<Rightarrow> ('j, 'm) executor_scheme \<times> (nref \<Rightarrow> worker) \<Rightarrow> ('j, 'm) executor_scheme \<times> (nref \<Rightarrow> worker) \<Rightarrow> bool" where
  "aside p x y \<longleftrightarrow> sys_step (fst x, p, snd x) (fst y, p, snd y)"

lemma aside_run: "(aside p)\<^sup>*\<^sup>* x y \<Longrightarrow> sys_step\<^sup>*\<^sup>* (fst x, p, snd x) (fst y, p, snd y)"
  by (induction rule: rtranclp_induct) (auto simp: aside_def intro: rtranclp.rtrancl_into_rtrancl)

lemma aside_next_task: "(aside p)\<^sup>*\<^sup>* x y \<Longrightarrow> next_task (fst y) = next_task (fst x)"
  by (induction rule: rtranclp_induct) (auto simp: aside_def dest!: step_next_task split: producer.splits)

text \<open>What the other threads do in the sleeps of the retry loop, as runs of the steps: \<open>a\<close> is the number of
  the attempt and \<open>l\<close> the number of retries left; the workers are at \<open>w\<close> when it begins and at \<open>w1\<close> when
  it ends.\<close>

definition fails_for_now :: "tref \<Rightarrow> ('j, 'm) allocator_scheme \<Rightarrow> bool" where
  "fails_for_now t s \<longleftrightarrow> (case run_strategy t s of Inl f \<Rightarrow> False | Inr (q, s1) \<Rightarrow> \<not> success q \<and> edge_nodes s1 \<noteq> [])"

fun sleeps_to :: "(nat \<Rightarrow> ('j, 'm) executor_scheme \<Rightarrow> ('j, 'm) executor_scheme) \<Rightarrow> nat \<Rightarrow> nat \<Rightarrow> tref \<Rightarrow> ('j, 'm) executor_scheme \<Rightarrow>
    (nref \<Rightarrow> worker) \<Rightarrow> (nref \<Rightarrow> worker) \<Rightarrow> bool" where
  "sleeps_to sleep a 0 t s w w1 \<longleftrightarrow> w1 = w"
| "sleeps_to sleep a (Suc l) t s w w1 \<longleftrightarrow>
     (if fails_for_now t s
      then \<exists>w'. (aside (P_Waiting t l))\<^sup>*\<^sup>* (s, w) (sleep a s, w') \<and> sleeps_to sleep (Suc a) l t (sleep a s) w' w1
      else w1 = w)"

lemma run_strategy_failed: "run_strategy t s = Inr (q, s1) \<Longrightarrow> \<not> success q \<Longrightarrow> s1 = s \<and> reason q = no_viable"
  by (auto simp: run_strategy_def allocateRoundRobin_def allocateLeastLoad_def allocatePriorityBased_def
      allocateMultiConstraint_def Let_def case_prod_beta no_result_def split: if_splits option.splits allocation_strategy.splits)

text \<open>Where an attempt leaves the producer.\<close>

definition after_attempts :: "tref \<Rightarrow> allocation_result \<Rightarrow> ('j, 'm) executor_scheme \<Rightarrow> (nref \<Rightarrow> worker) \<Rightarrow> ('j, 'm) system" where
  "after_attempts t q s w =
     (if success q then (s, P_Placed t q, w) else (db (Db_saveAllocationFailure (task_id (tasks s t)) (reason q)) s, P_Idle, w))"

lemma retry_runs:
  assumes "retry_loop sleep a l t s = Inr (q, s')" "sleeps_to sleep a l t s w w1"
  shows "sys_step\<^sup>*\<^sup>* (s, P_Waiting t l, w) (after_attempts t q s' w1) \<and> next_task s' = next_task s"
  using assms
proof (induction l arbitrary: a s w)
  case 0
  obtain q' s1 where r: "run_strategy t s = Inr (q', s1)" using "0.prems"(1) by (subst (asm) retry_loop.simps) (auto simp: bind_sum_Inr)
  show ?case
  proof (cases "success q'")
    case True
    then have "q = q'" "s' = granted t q' s1" using "0.prems"(1) r by (subst (asm) retry_loop.simps, simp)+
    then show ?thesis using sys_step.place [OF r True, of 0 w] True "0.prems"(2) run_strategy_db [OF r]
      by (auto simp: after_attempts_def granted_def Let_def)
  next
    case False
    then have "q = q'" "s' = refused s1" using "0.prems"(1) r by (subst (asm) retry_loop.simps, simp split: if_splits)+
    then show ?thesis using sys_step.give_up [OF r False, of 0 w] False "0.prems"(2) run_strategy_db [OF r]
      by (auto simp: after_attempts_def refused_def)
  qed
next
  case (Suc l)
  obtain q' s1 where r: "run_strategy t s = Inr (q', s1)" using Suc.prems(1) by (subst (asm) retry_loop.simps) (auto simp: bind_sum_Inr)
  show ?case
  proof (cases "success q'")
    case True
    then have "q = q'" "s' = granted t q' s1" using Suc.prems(1) r by (subst (asm) retry_loop.simps, simp)+
    then show ?thesis using sys_step.place [OF r True, of "Suc l" w] True Suc.prems(2) r run_strategy_db [OF r]
      by (auto simp: after_attempts_def granted_def Let_def fails_for_now_def)
  next
    case False
    note f = run_strategy_failed [OF r False]
    show ?thesis
    proof (cases "edge_nodes s1 = []")
      case True
      then have "q = q'" "s' = refused s1" using Suc.prems(1) r False by (subst (asm) retry_loop.simps, simp)+
      then show ?thesis using sys_step.give_up [OF r False, of "Suc l" w] True False Suc.prems(2) r run_strategy_db [OF r]
        by (auto simp: after_attempts_def refused_def fails_for_now_def)
    next
      case nodes: False
      have "fails_for_now t s" using r False nodes by (simp add: fails_for_now_def)
      then obtain w' where w': "(aside (P_Waiting t l))\<^sup>*\<^sup>* (s, w) (sleep a s, w')" "sleeps_to sleep (Suc a) l t (sleep a s) w' w1"
        using Suc.prems(2) by auto
      have "retry_loop sleep (Suc a) l t (sleep a s) = Inr (q, s')"
        using Suc.prems(1) r False nodes f by (subst (asm) retry_loop.simps) (simp add: no_viable_def)
      note rest = Suc.IH [OF this w'(2)]
      have "sys_step (s, P_Waiting t (Suc l), w) (s, P_Waiting t l, w)" using sys_step.retry [OF r False nodes] f by simp
      then have "sys_step\<^sup>*\<^sup>* (s, P_Waiting t (Suc l), w) (sleep a s, P_Waiting t l, w')"
        using aside_run [OF w'(1)] by (simp add: converse_rtranclp_into_rtranclp)
      then show ?thesis using rest aside_next_task [OF w'(1)] by (auto intro: rtranclp_trans)
    qed
  qed
qed

lemma place_task_runs:
  assumes "place_task sleep label t s = Inr s'" "sleeps_to sleep 0 max_retries t (s\<lparr>total_allocations := total_allocations s + 1\<rparr>) w w1"
  shows "sys_step\<^sup>*\<^sup>* (s, P_Created t, w) (s', P_Idle, w1) \<and> next_task s' = next_task s"
proof -
  let ?s = "s\<lparr>total_allocations := total_allocations s + 1\<rparr>"
  obtain q s1 where q: "retry_loop sleep 0 max_retries t ?s = Inr (q, s1)"
    using assms(1) by (auto simp: place_task_def allocateTaskWithRetry_def bind_sum_Inr)
  note tries = retry_runs [OF q assms(2)]
  have start: "sys_step (s, P_Created t, w) (?s, P_Waiting t max_retries, w)" by (rule sys_step.request)
  show ?thesis
  proof (cases "success q")
    case True
    obtain edge where e: "getEdgeNode (result_edge_id q) s1 = Inr edge"
      and s': "s' = db (Db_saveAllocation (task_id (tasks (scheduleTask edge (Some t) s1) t)) (result_edge_id q) (score q)
        (label (scheduleTask edge (Some t) s1))) (scheduleTask edge (Some t) s1)"
      using assms(1) q True by (auto simp: place_task_def allocateTaskWithRetry_def bind_sum_Inr Let_def)
    have "task_id (tasks (scheduleTask edge (Some t) s1) t) = task_id (tasks s1 t)" by (auto simp: scheduleTask_def Let_def split: option.splits)
    then have "sys_step (s1, P_Placed t q, w1) (s', P_Idle, w1)" using sys_step.enqueue [OF e] s' by simp
    moreover have "sys_step\<^sup>*\<^sup>* (s, P_Created t, w) (s1, P_Placed t q, w1)"
      using start tries True by (auto simp: after_attempts_def intro: converse_rtranclp_into_rtranclp)
    ultimately show ?thesis using tries s' by (auto intro: rtranclp.rtrancl_into_rtrancl)
  next
    case False
    then have "s' = db (Db_saveAllocationFailure (task_id (tasks s1 t)) (reason q)) s1"
      using assms(1) q by (auto simp: place_task_def allocateTaskWithRetry_def)
    then show ?thesis using start tries False by (auto simp: after_attempts_def intro: converse_rtranclp_into_rtranclp)
  qed
qed

lemma produce_task_step:
  assumes "produce_task e i devices s = Inr (t, devices', s1)"
  shows "sys_step (s, P_Idle, w) (s1, P_Created t, w)"
proof -
  obtain data d s0 where "createTaskFromSensorData (clock e) None (cfg_device_id (dev_config d)) (getTypeString d) data s = Inr (t, s0)"
    and s1: "s1 = db (saved_task (tasks s0 t)) s0"
    using assms by (auto simp: produce_task_def Let_def case_prod_beta bind_sum_Inr split: if_splits)
  then show ?thesis unfolding s1 by (intro sys_step.produce)
qed

lemma produce_task_next:
  fixes s :: "(json, 'm) executor_scheme"
  assumes "produce_task e i devices s = Inr (t, devices', s1)"
  shows "next_task s1 = Suc (next_task s)"
  using step_next_task [OF produce_task_step [OF assms, of "\<lambda>_. W_Idle"]] by simp

text \<open>The sleeps of a turn take the workers from \<open>w\<close> to \<open>w1\<close>.\<close>

definition turn_to :: "(json, 'm) executor_scheme turn \<Rightarrow> nat \<Rightarrow> iot_device list \<Rightarrow> (json, 'm) executor_scheme \<Rightarrow> (nref \<Rightarrow> worker) \<Rightarrow>
    (nref \<Rightarrow> worker) \<Rightarrow> bool" where
  "turn_to e i devices s w w1 \<longleftrightarrow>
     (case produce_task e i devices s of
        Inl f \<Rightarrow> w1 = w
      | Inr (t, ds, s1) \<Rightarrow> sleeps_to (asleep e) 0 max_retries t (s1\<lparr>total_allocations := total_allocations s1 + 1\<rparr>) w w1)"

lemma produce_turn_runs:
  assumes "produce_turn cfg e i devices s = Inr (devices', s')" "turn_to e i devices s w w1"
  shows "sys_step\<^sup>*\<^sup>* (s, P_Idle, w) (s', P_Idle, w1)" "next_task s' = Suc (next_task s)"
proof -
  obtain t s1 s2 where turn: "produce_task e i devices s = Inr (t, devices', s1)" "place_task (asleep e) (\<lambda>_. cfg_strategy cfg) t s1 = Inr s2"
    and last: "(if i mod 100 = 0 then updateResourceMetrics (load_draws e) s2 else Inr s2) = Inr s'"
    using assms(1) by (auto simp: produce_turn_def bind_sum_Inr)
  have place: "sys_step\<^sup>*\<^sup>* (s1, P_Created t, w) (s2, P_Idle, w1)" "next_task s2 = next_task s1"
    using place_task_runs [OF turn(2)] assms(2) turn(1) by (auto simp: turn_to_def)
  have "sys_step\<^sup>*\<^sup>* (s2, P_Idle, w1) (s', P_Idle, w1)" using last sys_step.fluctuate [of "load_draws e" s2 s'] by (auto split: if_splits)
  then show "sys_step\<^sup>*\<^sup>* (s, P_Idle, w) (s', P_Idle, w1)"
    using produce_task_step [OF turn(1)] place(1) by (meson converse_rtranclp_into_rtranclp rtranclp_trans)
  have "next_task s' = next_task s2" using last by (auto simp: updateResourceMetrics_def split: if_splits)
  then show "next_task s' = Suc (next_task s)" using place(2) produce_task_next [OF turn(1)] by simp
qed

text \<open>C11: one turn of the producer's loop, as the code runs it (reading a device, creating and storing the
  task, trying to place it up to 201 times with sleeps in between, queueing it or recording the refusal,
  and changing the load of the nodes every hundredth time), is a run of the steps of the simulation that
  begins and ends with an idle producer and creates one task, provided that what happens in the sleeps is
  done by the workers. So what holds in every reachable state of the simulation holds between the turns
  of the code's loop.\<close>

theorem producer_turn_refines:
  assumes "produce_turn cfg e i devices s = Inr (devices', s')" "turn_to e i devices s w w1"
  shows "sys_step\<^sup>*\<^sup>* (s, P_Idle, w) (s', P_Idle, w1) \<and> next_task s' = Suc (next_task s) \<and>
    (reachable s0 (s, P_Idle, w) \<and> next_task s' < 2 ^ 63 \<longrightarrow> reachable s0 (s', P_Idle, w1))"
  using produce_turn_runs [OF assms] reachable_run [of "(s, P_Idle, w)" "(s', P_Idle, w1)" s0] by simp

section \<open>No devices\<close>

lemma latency_no_division: "latency_loop s es a \<noteq> Inl DivByZero"
  by (induction s es a rule: latency_loop.induct) (auto split: option.splits)

lemma collect_no_division: "collect sqrt_of el s \<noteq> Inl DivByZero"
  using latency_no_division [of s "exec_nodes s" 0]
  by (cases "latency_loop s (exec_nodes s) 0") (auto simp: collect_def getAverageLatency_def Let_def)

text \<open>an experiment without devices does not end with an error message: as soon as there is a task to
  produce, the index of the device is computed modulo zero. Only an experiment that produces no task
  gets by.\<close>

theorem no_devices_fault:
  "runExperiment sqrt_of draws cfg wd st g [] s = Inl DivByZero \<longleftrightarrow> task_count cfg \<noteq> 0"
proof -
  obtain edges g' s1 where start: "setup_experiment draws g (unat (edge_node_count cfg)) st (cfg_scheduling cfg) s = Inr (edges, g', s1)"
    using setup_ready by blast
  show ?thesis
  proof (cases "unat (task_count cfg)")
    case 0
    then have "task_count cfg = 0" by (simp add: unat_eq_zero)
    moreover have "bind_sum (collect sqrt_of el s4) (\<lambda>p. Inr (p, g', [], s4)) \<noteq> Inl DivByZero" for el s4
      using collect_no_division [of sqrt_of el s4] by (cases "collect sqrt_of el s4") auto
    ultimately show ?thesis by (simp add: runExperiment_def start Let_def)
  next
    case (Suc k)
    then have "task_count cfg \<noteq> 0" by auto
    then show ?thesis by (simp add: runExperiment_def start Suc produce_turn_def produce_task_def)
  qed
qed

section \<open>The stored strategy\<close>

text \<open>what is stored with a placement is the strategy of the command line, not the one that placed the
  task: each turn ends by storing a refusal or a placement under \<open>cfg_strategy\<close>, whatever the strategy of
  the allocator is. In a comparison every placement of the four experiments is stored under the same
  name, \<open>multi_constraint\<close> by default.\<close>

theorem stored_strategy:
  assumes "produce_turn cfg e i devices s = Inr (devices', s')" "strategy s = st"
  shows "(\<exists>tid eid sc. last (db_calls s') = Db_saveAllocation tid eid sc (cfg_strategy cfg)) \<or>
    (\<exists>tid why. last (db_calls s') = Db_saveAllocationFailure tid why)"
proof -
  obtain t s1 s2 where place: "place_task (asleep e) (\<lambda>_. cfg_strategy cfg) t s1 = Inr s2"
    and last: "(if i mod 100 = 0 then updateResourceMetrics (load_draws e) s2 else Inr s2) = Inr s'"
    using assms(1) by (auto simp: produce_turn_def bind_sum_Inr)
  have "db_calls s' = db_calls s2" using last by (auto simp: updateResourceMetrics_def split: if_splits)
  then show ?thesis using place by (auto simp: place_task_def bind_sum_Inr Let_def split: if_splits)
qed

section \<open>A concrete turn\<close>

definition demo_json :: "json executor" where
  "demo_json = \<lparr>tasks = \<lambda>_. new_task 0 [] [] [] fallback_requirements J_Null, next_task = 0,
     nodes = \<lambda>_. new_edge_node [] (demo_cap 1), next_node = 0, db_calls = [],
     edge_nodes = [], nodes_mutex = False, total_node_failures = 0, total_node_recoveries = 0,
     strategy = ROUND_ROBIN, weights = default_weights, total_allocations = 0, successful_allocations = 0,
     failed_allocations = 0, round_robin_index = 0, sched_strategy = FIFO, total_tasks_scheduled = 0,
     profile_map = initializeDefaultProfiles [], manager_queue = [], total_tasks_created = 0, manager_tasks_processed = 0, task_counter = 0,
     exec_nodes = [], is_running = False, workers = [], total_tasks_executed = 0, exec_tasks_failed = 0,
     total_execution_time_ms = 0, active_tasks = []\<rparr>"

definition demo_turn :: "json executor turn" where
  "demo_turn = \<lparr>draw = \<lambda>lo hi. lo, time_text = (8, ''12:00:00''), clock = 5, asleep = \<lambda>_ s. s, load_draws = \<lambda>_. (0, 0)\<rparr>"

abbreviation demo_camera :: iot_device where
  "demo_camera \<equiv> new_device 0 (device_cfg 2)"

lemma demo_turn_runs:
  obtains ds s' where "produce_turn default_config demo_turn 1 [demo_camera] demo_json = Inr (ds, s')"
proof -
  obtain t ds s1 where p: "produce_task demo_turn 1 [demo_camera] demo_json = Inr (t, ds, s1)" and e: "edge_nodes s1 = []"
    by (auto simp: produce_task_def Let_def case_prod_beta create_no_callback demo_json_def)
  let ?s = "s1\<lparr>total_allocations := total_allocations s1 + 1\<rparr>"
  have "edge_nodes ?s = []" using e by simp
  then have "getViableEdges t ?s = []" by (simp add: getViableEdges_def)
  then have "place_task (asleep demo_turn) (\<lambda>_. cfg_strategy default_config) t s1 =
      Inr (db (Db_saveAllocationFailure (task_id (tasks (refused ?s) t)) no_viable) (refused ?s))"
    using \<open>edge_nodes ?s = []\<close> by (simp add: place_task_def allocateTaskWithRetry_def retry_no_nodes no_result_def)
  then show ?thesis using p that by (simp add: produce_turn_def)
qed

lemma same_sleeps: "sleeps_to (\<lambda>a s. s) a l t s w w"
  by (induction l arbitrary: a) auto

lemma demo_turn_sleeps: "turn_to demo_turn i devices s w w"
  using same_sleeps by (auto simp: turn_to_def demo_turn_def split: sum.split)

theorem producer_turn_refines_witness:
  "\<exists>ds s'. produce_turn default_config demo_turn 1 [demo_camera] demo_json = Inr (ds, s') \<and>
     sys_step\<^sup>*\<^sup>* (demo_json, P_Idle, \<lambda>_. W_Idle) (s', P_Idle, \<lambda>_. W_Idle)"
proof -
  obtain ds s' where "produce_turn default_config demo_turn 1 [demo_camera] demo_json = Inr (ds, s')" by (rule demo_turn_runs)
  from this producer_turn_refines [OF this demo_turn_sleeps, of "\<lambda>_. W_Idle"] show ?thesis by blast
qed

theorem stored_strategy_witness:
  "\<exists>ds s'. produce_turn default_config demo_turn 1 [demo_camera] demo_json = Inr (ds, s') \<and>
     ((\<exists>tid eid sc. last (db_calls s') = Db_saveAllocation tid eid sc ''multi_constraint'') \<or>
      (\<exists>tid why. last (db_calls s') = Db_saveAllocationFailure tid why))"
proof -
  obtain ds s' where t: "produce_turn default_config demo_turn 1 [demo_camera] demo_json = Inr (ds, s')" by (rule demo_turn_runs)
  have "cfg_strategy default_config = ''multi_constraint''" by (simp add: default_config_def)
  with t stored_strategy [OF t refl] show ?thesis by auto
qed

end
