(* ===== verification/Live_Runtime.thy ===== *)
theory Live_Runtime
  imports Experiment
begin

text \<open>
  \<^verbatim>\<open>live_runtime.h\<close> and \<^verbatim>\<open>live_runtime.cpp\<close>: the simulation behind the web interface. The runtime owns the
  components; its state extends theirs. The pointers to the allocator, the scheduler and the executor are
  set together, so one flag says whether they are null, and another says it of the monitor; the program
  initializes a runtime once, so the components always share the one monitor of the state. A thread
  object that has been started and not joined is joinable, also when its function has returned.
\<close>

section \<open>Names of strategies\<close>

text \<open>The second result is the flag \<open>valid\<close>.\<close>

definition allocationFromString :: "string \<Rightarrow> allocation_strategy \<times> bool" where
  "allocationFromString value =
     (if value = ''round_robin'' then (ROUND_ROBIN, True)
      else if value = ''least_load'' then (LEAST_LOAD, True)
      else if value = ''priority_based'' then (PRIORITY_BASED, True)
      else if value = ''multi_constraint'' then (MULTI_CONSTRAINT, True)
      else (MULTI_CONSTRAINT, False))"

definition rt_schedulingFromString :: "string \<Rightarrow> scheduling_strategy \<times> bool" where
  "rt_schedulingFromString value =
     (if value = ''fifo'' then (FIFO, True)
      else if value = ''priority_based'' then (SCHED_PRIORITY_BASED, True)
      else if value = ''edf'' then (EARLIEST_DEADLINE_FIRST, True)
      else if value = ''round_robin'' then (ROUND_ROBIN_TIME_SLICE, True)
      else (SCHED_PRIORITY_BASED, False))"

fun allocationToString :: "allocation_strategy \<Rightarrow> string" where
  "allocationToString ROUND_ROBIN = ''round_robin''"
| "allocationToString LEAST_LOAD = ''least_load''"
| "allocationToString PRIORITY_BASED = ''priority_based''"
| "allocationToString MULTI_CONSTRAINT = ''multi_constraint''"

fun allocationLabel :: "allocation_strategy \<Rightarrow> string" where
  "allocationLabel ROUND_ROBIN = ''Round Robin''"
| "allocationLabel LEAST_LOAD = ''Least Load''"
| "allocationLabel PRIORITY_BASED = ''Priority Based''"
| "allocationLabel MULTI_CONSTRAINT = ''Multi-Constraint''"

fun schedulingToString :: "scheduling_strategy \<Rightarrow> string" where
  "schedulingToString FIFO = ''fifo''"
| "schedulingToString SCHED_PRIORITY_BASED = ''priority_based''"
| "schedulingToString EARLIEST_DEADLINE_FIRST = ''edf''"
| "schedulingToString ROUND_ROBIN_TIME_SLICE = ''round_robin''"

fun schedulingLabel :: "scheduling_strategy \<Rightarrow> string" where
  "schedulingLabel FIFO = ''FIFO''"
| "schedulingLabel SCHED_PRIORITY_BASED = ''Priority Based''"
| "schedulingLabel EARLIEST_DEADLINE_FIRST = ''EDF (Earliest Deadline First)''"
| "schedulingLabel ROUND_ROBIN_TIME_SLICE = ''Round Robin''"

section \<open>State\<close>

record runtime = "json executor" +
  rt_config :: simulation_config
  monitor_set :: bool
  components_set :: bool
  rt_edges :: "nref list"
  rt_devices :: "iot_device list"
  rt_running :: bool
  stop_requested :: bool
  processing_complete :: bool
  generated_tasks :: u64
  thread_joinable :: bool
  start_time :: int

section \<open>Recommendation and configuration\<close>

definition average_cpu :: "nref list \<Rightarrow> ('j, 'm) store_scheme \<Rightarrow> double" where
  "average_cpu edges s =
     fold (\<lambda>r cpu_total. if 0 < cap_cpu_percent (capacity (nodes s r)) then cpu_total + utilization (nodes s r) else cpu_total) edges 0
       / dbl_of_int (int (length edges))"

definition recommended :: "double \<Rightarrow> allocation_strategy \<times> scheduling_strategy" where
  "recommended avg =
     (if dbl 70 \<le> avg then LEAST_LOAD else MULTI_CONSTRAINT,
      if dbl 60 \<le> avg then EARLIEST_DEADLINE_FIRST else SCHED_PRIORITY_BASED)"

definition chooseRecommendedConfiguration :: "runtime \<Rightarrow> runtime" where
  "chooseRecommendedConfiguration s =
     (if \<not> components_set s \<or> rt_edges s = [] then s
      else let (allocation, scheduling) = recommended (average_cpu (rt_edges s) s)
           in setSchedStrategy scheduling (setStrategy allocation s))"

text \<open>The result, the error text (empty when there is none) and the state.\<close>

definition applyConfiguration :: "bool \<Rightarrow> string \<Rightarrow> string \<Rightarrow> runtime \<Rightarrow> bool \<times> string \<times> runtime" where
  "applyConfiguration automatic allocation_strategy scheduling_algorithm s =
     (if \<not> components_set s then (False, ''Runtime is not initialized'', s)
      else if automatic then
        (True, '''', chooseRecommendedConfiguration (s\<lparr>rt_config := (rt_config s)\<lparr>automatic_mode := True\<rparr>\<rparr>))
      else case allocationFromString allocation_strategy of
        (allocation, False) \<Rightarrow> (False, ''Unsupported allocation strategy: '' @ allocation_strategy, s)
      | (allocation, True) \<Rightarrow>
          (case rt_schedulingFromString scheduling_algorithm of
             (scheduling, False) \<Rightarrow> (False, ''Unsupported scheduling algorithm: '' @ scheduling_algorithm, s)
           | (scheduling, True) \<Rightarrow>
               (let s1 = setSchedStrategy scheduling (setStrategy allocation s)
                in (True, '''', s1\<lparr>rt_config := (rt_config s1)\<lparr>automatic_mode := False, cfg_strategy := allocationToString allocation,
                                    cfg_scheduling := schedulingToString scheduling\<rparr>\<rparr>))))"

section \<open>Start and stop\<close>

text \<open>The constructor, and \<open>initialize\<close>: the results are the flag it returns, the position of the generator,
  the runtime and the database. The components that an earlier return leaves behind stay as they are.\<close>

definition makeEdges :: "(nat \<Rightarrow> node_draw) \<Rightarrow> nat \<Rightarrow> nat \<Rightarrow> ('j, 'm) monitor_scheme \<Rightarrow> fault + nref list \<times> nat \<times> ('j, 'm) monitor_scheme" where
  "makeEdges draws g n s = create_nodes draws g 0 n s"

definition makeDevices :: "(nat \<Rightarrow> int) \<Rightarrow> nat \<Rightarrow> ('j, 'm) store_scheme \<Rightarrow> iot_device list \<times> ('j, 'm) store_scheme" where
  "makeDevices clk n s = create_devices clk 0 n s"

definition rt_new_monitor :: "runtime \<Rightarrow> runtime" where
  "rt_new_monitor s = new_manager ((new_monitor s)\<lparr>monitor_set := True\<rparr>)"

definition rt_new_workers :: "allocation_strategy \<Rightarrow> scheduling_strategy \<Rightarrow> runtime \<Rightarrow> runtime" where
  "rt_new_workers st sst s = (new_executor (new_scheduler sst (new_allocator st s)))\<lparr>components_set := True\<rparr>"

lemmas rt_component_defs = rt_new_monitor_def rt_new_workers_def component_defs

definition rt_initialize :: "'d sqlite \<Rightarrow> (nat \<Rightarrow> node_draw) \<Rightarrow> (nat \<Rightarrow> int) \<Rightarrow> profile_source \<Rightarrow> nat \<Rightarrow> simulation_config \<Rightarrow>
    runtime \<Rightarrow> 'd database \<Rightarrow> fault + bool \<times> nat \<times> runtime \<times> 'd database" where
  "rt_initialize L draws clk src g cfg s D =
     (let s0 = s\<lparr>rt_config := cfg\<rparr>
      in if device_count cfg = 0 \<or> edge_node_count cfg = 0 then Inr (False, g, s0, D)
         else case db_initialize L (db_path cfg) D of
           (False, D1) \<Rightarrow> Inr (False, g, s0, D1)
         | (True, D1) \<Rightarrow>
             (case resetSimulationData L D1 of
                (False, D2) \<Rightarrow> Inr (False, g, s0, D2)
              | (True, D2) \<Rightarrow>
                  (let s1 = rt_new_monitor (save_profiles (s0\<lparr>profile_map := loadProfiles src (profile_map s0)\<rparr>));
                       (allocation, valid_allocation) = allocationFromString (cfg_strategy cfg);
                       (scheduling, valid_scheduling) = rt_schedulingFromString (cfg_scheduling cfg)
                   in if \<not> valid_allocation \<or> \<not> valid_scheduling then Inr (False, g, s1, D2)
                      else bind_sum (makeEdges draws g (unat (edge_node_count cfg)) (rt_new_workers allocation scheduling s1)) (\<lambda>(edges, g', s2).
                        let (devices, s3) = makeDevices clk (unat (device_count cfg)) (s2\<lparr>rt_edges := edges\<rparr>);
                            s4 = fold (\<lambda>r. exec_registerEdgeNode (Some r)) edges (s3\<lparr>rt_devices := devices\<rparr>);
                            s5 = s4\<lparr>generated_tasks := 0, processing_complete := False, stop_requested := False\<rparr>
                        in Inr (True, g', if automatic_mode cfg then chooseRecommendedConfiguration s5 else s5, D2)))))"

text \<open>Assigning to a joinable thread object ends the program; without components the call of
  \<open>executor_->start()\<close> goes through a null pointer.\<close>

definition rt_start :: "int \<Rightarrow> runtime \<Rightarrow> fault + bool \<times> runtime" where
  "rt_start now s =
     (if rt_running s then Inr (True, s)
      else if \<not> components_set s then Inl NullDeref
      else bind_sum (exec_start (s\<lparr>rt_running := True, stop_requested := False, processing_complete := False, start_time := now\<rparr>)) (\<lambda>s1.
             if thread_joinable s1 then Inl Terminate else Inr (True, s1\<lparr>thread_joinable := True\<rparr>)))"

text \<open>What the processing thread still does before it sees the request to stop, and the workers before
  they end, is \<open>ending\<close>.\<close>

definition rt_stop :: "(runtime \<Rightarrow> runtime) \<Rightarrow> runtime \<Rightarrow> runtime" where
  "rt_stop ending s =
     (let s1 = s\<lparr>stop_requested := True\<rparr>;
          s2 = (if thread_joinable s1 then (ending s1)\<lparr>thread_joinable := False\<rparr> else s1);
          s3 = (if components_set s2 then exec_stop s2 else s2)
      in s3\<lparr>rt_running := False\<rparr>)"

section \<open>The processing thread\<close>

definition recordResourceSnapshots :: "runtime \<Rightarrow> runtime" where
  "recordResourceSnapshots s =
     fold (\<lambda>r s. db (Db_saveResourceSnapshot (edge_id (nodes s r)) (current_usage (nodes s r)) (getQueueLength (nodes s r))) s) (rt_edges s) s"

text \<open>One turn of the loop; \<open>now\<close> is its reading of the steady clock in nanoseconds.\<close>

definition live_turn :: "runtime turn \<Rightarrow> int \<Rightarrow> nat \<Rightarrow> int \<Rightarrow> runtime \<Rightarrow> fault + int \<times> runtime" where
  "live_turn e now i last_snapshot s =
     (let s0 = (if automatic_mode (rt_config s) then chooseRecommendedConfiguration s else s)
      in bind_sum (produce_task e i (rt_devices s0) s0) (\<lambda>(t, devices, s1).
         bind_sum (place_task (asleep e) (\<lambda>s. allocationToString (strategy s)) t
                     (s1\<lparr>rt_devices := devices, generated_tasks := of_nat (i + 1)\<rparr>)) (\<lambda>s2.
           if 250 * 1000000 \<le> now - last_snapshot then Inr (now, recordResourceSnapshots s2) else Inr (last_snapshot, s2))))"

text \<open>The loop from \<open>i\<close> with at most \<open>k\<close> turns to go; \<open>before i\<close> is what the other threads have done between
  the turns when the condition of the \<open>i\<close>th is tested: the workers run tasks, the server configures the
  runtime and the main thread asks it to stop.\<close>

fun live_loop :: "(nat \<Rightarrow> runtime \<Rightarrow> runtime) \<Rightarrow> (nat \<Rightarrow> runtime turn \<times> int) \<Rightarrow> nat \<Rightarrow> nat \<Rightarrow> int \<Rightarrow> runtime \<Rightarrow> fault + runtime" where
  "live_loop before es i 0 last_snapshot s = Inr s"
| "live_loop before es i (Suc k) last_snapshot s =
     (if stop_requested (before i s) then Inr (before i s)
      else bind_sum (live_turn (fst (es i)) (snd (es i)) i last_snapshot (before i s)) (\<lambda>(last', s').
             live_loop before es (Suc i) k last' s'))"

text \<open>\<open>k\<close> turns of the wait are left before its deadline; \<open>others j\<close> is what the other threads do in the
  sleep of the \<open>j\<close>th.\<close>

fun live_drain :: "(nat \<Rightarrow> runtime \<Rightarrow> runtime) \<Rightarrow> nat \<Rightarrow> nat \<Rightarrow> runtime \<Rightarrow> runtime" where
  "live_drain others j 0 s = s"
| "live_drain others j (Suc k) s =
     (if stop_requested s then s
      else if \<not> any_queued (rt_edges s) s \<and> active_tasks s = [] then s
      else live_drain others (Suc j) k (others j (recordResourceSnapshots s)))"

definition processingLoop :: "(nat \<Rightarrow> runtime \<Rightarrow> runtime) \<Rightarrow> (nat \<Rightarrow> runtime turn \<times> int) \<Rightarrow> (nat \<Rightarrow> runtime \<Rightarrow> runtime) \<Rightarrow> nat \<Rightarrow> int \<Rightarrow> runtime \<Rightarrow>
    fault + runtime" where
  "processingLoop before es others k start s =
     bind_sum (live_loop before es 0 (unat (task_count (rt_config s))) start s) (\<lambda>s1.
       Inr ((live_drain others 0 k s1)\<lparr>processing_complete := True, rt_running := False\<rparr>))"

section \<open>Views\<close>

text \<open>The accessors through a null pointer fault. A ternary over strings is the name of the mode.\<close>

definition configuration :: "runtime \<Rightarrow> fault + json" where
  "configuration s =
     (if \<not> components_set s then Inl NullDeref
      else let cfg = rt_config s in Inr (build
        [(''automatic'', J_Bool (automatic_mode cfg)),
         (''requested_allocation_strategy'', J_Str (if automatic_mode cfg then ''auto'' else cfg_strategy cfg)),
         (''requested_scheduling_algorithm'', J_Str (if automatic_mode cfg then ''auto'' else cfg_scheduling cfg)),
         (''allocation_strategy'', J_Str (allocationToString (strategy s))),
         (''allocation_strategy_label'', J_Str (allocationLabel (strategy s))),
         (''scheduling_algorithm'', J_Str (schedulingToString (sched_strategy s))),
         (''scheduling_algorithm_label'', J_Str (schedulingLabel (sched_strategy s)))]))"

definition status_view :: "runtime \<Rightarrow> fault + json" where
  "status_view s =
     bind_sum (if monitor_set s then getAvailableNodeCount s else Inr 0) (\<lambda>available.
     bind_sum (configuration s) (\<lambda>cfg. Inr (build
       [(''backend_available'', J_Bool True), (''running'', J_Bool (rt_running s)), (''processing_complete'', J_Bool (processing_complete s)),
        (''devices'', J_Int (int (length (rt_devices s)))), (''edge_nodes'', J_Int (int (length (rt_edges s)))),
        (''tasks_configured'', J_Int (uint (task_count (rt_config s)))), (''tasks_generated'', J_Int (uint (generated_tasks s))),
        (''active_tasks'', J_Int (if components_set s then int (length (active_tasks s)) else 0)),
        (''available_edge_nodes'', J_Int (uint available)), (''configuration'', cfg)])))"

definition percent_used :: "double \<Rightarrow> double \<Rightarrow> double" where
  "percent_used used cap = (if 0 < cap then used / cap * dbl 100 else 0)"

text \<open>\<open>executing\<close> are the views of the running tasks; their node is read with a default.\<close>

definition executing_on :: "json_lib \<Rightarrow> string \<Rightarrow> json list \<Rightarrow> json_error + nat" where
  "executing_on lib eid executing =
     fold (\<lambda>j acc. bind_sum acc (\<lambda>n. bind_sum (value_or ''assigned_edge_id'' '''' (get_string lib) j) (\<lambda>e.
       Inr (if e = eid then Suc n else n)))) executing (Inr 0)"

definition edge_view :: "json_lib \<Rightarrow> json list \<Rightarrow> edge_node \<Rightarrow> json_error + json" where
  "edge_view lib executing n =
     (let cap = capacity n; usage = current_usage n;
          cpu = percent_used (used_cpu_percent usage) (cap_cpu_percent cap)
      in bind_sum (executing_on lib (edge_id n) executing) (\<lambda>executing_count. Inr (build
        [(''edge_id'', J_Str (edge_id n)), (''status'', J_Str (if is_available n then ''online'' else ''offline'')),
         (''cpu_capacity'', J_Num (cap_cpu_percent cap)), (''cpu_utilization'', J_Num (used_cpu_percent usage)),
         (''cpu_utilization_percent'', J_Num cpu),
         (''ram_capacity_mb'', J_Num (cap_ram_mb cap)), (''ram_utilization_mb'', J_Num (used_ram_mb usage)),
         (''ram_utilization_percent'', J_Num (percent_used (used_ram_mb usage) (cap_ram_mb cap))),
         (''bandwidth_capacity_mbps'', J_Num (cap_bandwidth_mbps cap)), (''bandwidth_utilization_mbps'', J_Num (used_bandwidth_mbps usage)),
         (''bandwidth_utilization_percent'', J_Num (percent_used (used_bandwidth_mbps usage) (cap_bandwidth_mbps cap))),
         (''latency_ms'', J_Int (latency_ms cap)), (''active_tasks'', J_Int (int executing_count)),
         (''queue_length'', J_Int (getQueueLength n)), (''load'', J_Num cpu)])))"

fun edge_views :: "json_lib \<Rightarrow> (nat \<Rightarrow> json list) \<Rightarrow> nat \<Rightarrow> (nref \<Rightarrow> edge_node) \<Rightarrow> edge_map \<Rightarrow> json_error + json list" where
  "edge_views lib executing j ns [] = Inr []"
| "edge_views lib executing j ns ((eid, None) # es) = edge_views lib executing j ns es"
| "edge_views lib executing j ns ((eid, Some r) # es) =
     bind_sum (edge_view lib (executing j) (ns r)) (\<lambda>v. bind_sum (edge_views lib executing (Suc j) ns es) (\<lambda>vs. Inr (v # vs)))"

text \<open>For the \<open>j\<close>th node the running tasks are listed with the clock readings \<open>clk j\<close>.\<close>

definition edge_nodes_view :: "json_lib \<Rightarrow> (nat \<Rightarrow> nat \<Rightarrow> int \<times> int) \<Rightarrow> runtime \<Rightarrow> json_error + json" where
  "edge_nodes_view lib clk s =
     (if \<not> monitor_set s then Inr (J_Arr [])
      else bind_sum (edge_views lib (\<lambda>j. if components_set s then getActiveTasks (clk j) (executor.truncate s) else []) 0 (nodes s) (edge_nodes s))
             (\<lambda>vs. Inr (J_Arr vs)))"

definition active_view :: "(nat \<Rightarrow> int \<times> int) \<Rightarrow> runtime \<Rightarrow> json" where
  "active_view clk s = (if components_set s then J_Arr (getActiveTasks clk (executor.truncate s)) else J_Arr [])"

text \<open>\<open>now\<close> is the reading of the steady clock; durations are in seconds.\<close>

definition metrics_view :: "(double \<Rightarrow> double) \<Rightarrow> (int \<Rightarrow> double) \<Rightarrow> int \<Rightarrow> runtime \<Rightarrow> fault + json" where
  "metrics_view sqrt_of seconds now s =
     (let el = max (dbl (1 / 1000)) (seconds (now - start_time s))
      in bind_sum (if components_set s \<and> monitor_set s then collectAsJson sqrt_of el s else Inr J_Null) (\<lambda>result.
           Inr (assign [(''tasks_generated'', J_Int (uint (generated_tasks s))),
                        (''tasks_completed'', J_Int (if components_set s then uint (total_tasks_executed s) else 0)),
                        (''tasks_failed'', J_Int (if components_set s then uint (exec_tasks_failed s) else 0))] result)))"

text \<open>The views that only ask the database.\<close>

definition devices_view :: "'d sqlite \<Rightarrow> 'd database \<Rightarrow> (fault + json list \<times> 'd database) option" where
  "devices_view L D = getDevicesJson L D"

definition tasks_view :: "'d sqlite \<Rightarrow> u64 \<Rightarrow> 'd database \<Rightarrow> (fault + json list \<times> 'd database) option" where
  "tasks_view L max_rows D = getTasksJson L max_rows D"

definition allocations_view :: "'d sqlite \<Rightarrow> 'd database \<Rightarrow> (fault + json list \<times> 'd database) option" where
  "allocations_view L D = getTaskAllocationHistory L D"

definition activities_view :: "'d sqlite \<Rightarrow> u64 \<Rightarrow> 'd database \<Rightarrow> (fault + json list \<times> 'd database) option" where
  "activities_view L max_rows D = getActivitiesJson L max_rows D"

definition alerts_view :: "'d sqlite \<Rightarrow> 'd database \<Rightarrow> (fault + json list \<times> 'd database) option" where
  "alerts_view L D = getAlertsJson L D"

definition resource_history_view :: "'d sqlite \<Rightarrow> u64 \<Rightarrow> 'd database \<Rightarrow> (fault + json list \<times> 'd database) option" where
  "resource_history_view L max_rows D = getResourceHistoryJson L max_rows D"

lemmas forwarding_defs = devices_view_def tasks_view_def allocations_view_def activities_view_def alerts_view_def resource_history_view_def

text \<open>The entries whose \<open>task_id\<close>, by default empty, is \<open>tid\<close>.\<close>

fun of_task :: "json_lib \<Rightarrow> string \<Rightarrow> json list \<Rightarrow> json_error + json list" where
  "of_task lib tid [] = Inr []"
| "of_task lib tid (j # js) =
     bind_sum (value_or ''task_id'' '''' (get_string lib) j) (\<lambda>i.
     bind_sum (of_task lib tid js) (\<lambda>rest. Inr (if i = tid then j # rest else rest)))"

text \<open>The life cycle of a task: \<open>None\<close> when the query of the allocations never ends; a fault, or an
  exception or the view with the database. A running task with the id replaces the earlier one under the
  key \<open>active\<close>.\<close>

definition lifecycle_view :: "'d sqlite \<Rightarrow> json_lib \<Rightarrow> int \<Rightarrow> (nat \<Rightarrow> int \<times> int) \<Rightarrow> string \<Rightarrow> runtime \<Rightarrow> 'd database \<Rightarrow>
    (fault + (json_error + json) \<times> 'd database) option" where
  "lifecycle_view L lib now clk tid s D =
     (case getTask L now tid D of
        Inl f \<Rightarrow> Some (Inl f)
      | Inr (None, D1) \<Rightarrow> Some (Inr (Inr (build [(''found'', J_Bool False)]), D1))
      | Inr (Some t, D1) \<Rightarrow>
          (case getTaskAllocationHistory L D1 of
             None \<Rightarrow> None
           | Some (Inl f) \<Rightarrow> Some (Inl f)
           | Some (Inr (history, D2)) \<Rightarrow> Some (Inr
               (bind_sum (of_task lib tid history) (\<lambda>allocations.
                bind_sum (of_task lib tid (if components_set s then getActiveTasks clk (executor.truncate s) else [])) (\<lambda>active.
                  Inr (build ([(''found'', J_Bool True), (''task'', toJson t), (''allocations'', J_Arr allocations)] @
                              map (\<lambda>j. (''active'', j)) active)))), D2))))"

section \<open>Properties\<close>

lemma names_inverse:
  "allocationFromString (allocationToString st) = (st, True)"
  "rt_schedulingFromString (schedulingToString sst) = (sst, True)"
  by (cases st; simp add: allocationFromString_def) (cases sst; simp add: rt_schedulingFromString_def)

lemma names_canonical:
  "allocationFromString v = (st, True) \<Longrightarrow> allocationToString st = v"
  "rt_schedulingFromString v = (sst, True) \<Longrightarrow> schedulingToString sst = v"
  by (auto simp: allocationFromString_def rt_schedulingFromString_def split: if_splits)

lemma average_cpu_cong: "nodes s' = nodes s \<Longrightarrow> average_cpu edges s' = average_cpu edges s"
  by (simp add: average_cpu_def cong: if_cong)

text \<open>a request to configure the runtime either fails and changes nothing, or takes effect as a whole: it
  fails exactly when the runtime has no components or, in manual mode, one of the two names is unknown;
  a manual request that succeeds installs both strategies, and the view of the configuration then names
  exactly what was requested. An automatic request leaves the chosen strategies as the recommendation for
  the present load.\<close>

theorem apply_configuration_atomic:
  assumes "applyConfiguration automatic alloc sched s = (ok, err, s')"
  shows "(\<not> ok \<longrightarrow> s' = s \<and> err \<noteq> '''') \<and>
    (ok \<longleftrightarrow> components_set s \<and> (automatic \<or> snd (allocationFromString alloc) \<and> snd (rt_schedulingFromString sched))) \<and>
    (ok \<and> \<not> automatic \<longrightarrow> err = '''' \<and> allocationToString (strategy s') = alloc \<and> schedulingToString (sched_strategy s') = sched \<and>
       cfg_strategy (rt_config s') = alloc \<and> cfg_scheduling (rt_config s') = sched \<and> \<not> automatic_mode (rt_config s') \<and>
       nodes s' = nodes s \<and> tasks s' = tasks s) \<and>
    (ok \<and> automatic \<and> rt_edges s \<noteq> [] \<longrightarrow> automatic_mode (rt_config s') \<and>
       (strategy s', sched_strategy s') = recommended (average_cpu (rt_edges s) s))"
proof -
  obtain a va b vb where n: "allocationFromString alloc = (a, va)" "rt_schedulingFromString sched = (b, vb)" by fastforce
  have c: "va \<Longrightarrow> allocationToString a = alloc" "vb \<Longrightarrow> schedulingToString b = sched" using names_canonical n by auto
  show ?thesis
    using assms n c
    by (auto simp: applyConfiguration_def chooseRecommendedConfiguration_def setStrategy_def setSchedStrategy_def Let_def
        average_cpu_cong [of "_\<lparr>rt_config := _\<rparr>" s] case_prod_beta split: if_splits bool.splits)
qed

text \<open>the recommendation, by the average load of the nodes: the two thresholds are independent, so between
  60 and 70 percent the earliest deadline goes first while tasks are still placed by the weighted score.\<close>

theorem recommendation_by_load:
  "recommended avg =
     (if avg < dbl 60 then (MULTI_CONSTRAINT, SCHED_PRIORITY_BASED)
      else if avg < dbl 70 then (MULTI_CONSTRAINT, EARLIEST_DEADLINE_FIRST)
      else (LEAST_LOAD, EARLIEST_DEADLINE_FIRST))"
proof -
  have "dbl 60 \<le> dbl 70" by (rule dbl_le) simp
  then show ?thesis by (auto simp: recommended_def not_less not_le)
qed

lemma more_components: "monitor.more s = monitor.more s' \<Longrightarrow> components_set s = components_set s'"
  by (cases s; cases s') simp

lemma more_rest:
  "monitor.more s = monitor.more s' \<Longrightarrow> rt_config s = rt_config s'"
  "monitor.more s = monitor.more s' \<Longrightarrow> monitor_set s = monitor_set s'"
  by (cases s; cases s'; simp)+

lemma register_fold: "\<exists>m. fold (\<lambda>r. exec_registerEdgeNode (Some r)) rs s = s\<lparr>exec_nodes := m\<rparr>"
proof (induction rs arbitrary: s)
  case Nil
  show ?case by (rule exI [of _ "exec_nodes s"]) simp
next
  case (Cons r rs)
  have r: "exec_registerEdgeNode (Some r) s = s\<lparr>exec_nodes := map_put (edge_id (nodes s r)) (Some r) (exec_nodes s)\<rparr>"
    by (simp add: exec_registerEdgeNode_def)
  obtain m where "fold (\<lambda>r. exec_registerEdgeNode (Some r)) rs (exec_registerEdgeNode (Some r) s) = (exec_registerEdgeNode (Some r) s)\<lparr>exec_nodes := m\<rparr>"
    using Cons by blast
  then have "fold (\<lambda>r. exec_registerEdgeNode (Some r)) (r # rs) s = s\<lparr>exec_nodes := m\<rparr>" by (simp add: r)
  then show ?case ..
qed

lemma initialize_outcome:
  assumes "db_initialize L (db_path cfg) D = (True, D1)" "resetSimulationData L D1 = (True, D2)"
  shows "\<exists>ok g' s' D'. rt_initialize L draws clk src g cfg s D = Inr (ok, g', s', D') \<and>
    (ok \<longleftrightarrow> device_count cfg \<noteq> 0 \<and> edge_node_count cfg \<noteq> 0 \<and> snd (allocationFromString (cfg_strategy cfg)) \<and>
      snd (rt_schedulingFromString (cfg_scheduling cfg))) \<and>
    (ok \<longrightarrow> components_set s' \<and> generated_tasks s' = 0 \<and> \<not> processing_complete s' \<and> \<not> stop_requested s' \<and>
       length (rt_devices s') = unat (device_count cfg) \<and> length (rt_edges s') = unat (edge_node_count cfg) \<and>
       (\<not> automatic_mode cfg \<longrightarrow> allocationToString (strategy s') = cfg_strategy cfg \<and>
          schedulingToString (sched_strategy s') = cfg_scheduling cfg))"
proof -
  obtain st va sst vb where n: "allocationFromString (cfg_strategy cfg) = (st, va)" "rt_schedulingFromString (cfg_scheduling cfg) = (sst, vb)"
    by fastforce
  let ?go = "device_count cfg \<noteq> 0 \<and> edge_node_count cfg \<noteq> 0 \<and> va \<and> vb"
  show ?thesis
  proof (cases ?go)
    case False
    then show ?thesis using assms n by (auto simp: rt_initialize_def Let_def)
  next
    case True
    define s1 where "s1 = rt_new_monitor (save_profiles (s\<lparr>rt_config := cfg, profile_map := loadProfiles src (profile_map s)\<rparr>))"
    define s2 where "s2 = rt_new_workers st sst s1"
    have "\<not> nodes_mutex s2" by (simp add: s2_def s1_def rt_component_defs)
    from create_nodes_spec [OF this, of draws g 0 "unat (edge_node_count cfg)"]
    obtain edges s3 where s3: "makeEdges draws g (unat (edge_node_count cfg)) s2 = Inr (edges, g + unat (edge_node_count cfg), s3)"
      "length edges = unat (edge_node_count cfg)" and more: "monitor.more s3 = monitor.more s2"
      unfolding makeEdges_def by fastforce
    obtain ds s4 where ds: "makeDevices clk (unat (device_count cfg)) (s3\<lparr>rt_edges := edges\<rparr>) = (ds, s4)" by fastforce
    note spec = create_devices_spec [OF ds [unfolded makeDevices_def]]
    obtain m where m: "fold (\<lambda>r. exec_registerEdgeNode (Some r)) edges (s4\<lparr>rt_devices := ds\<rparr>) = s4\<lparr>rt_devices := ds, exec_nodes := m\<rparr>"
      using register_fold by blast
    define s5 where "s5 = s4\<lparr>rt_devices := ds, exec_nodes := m, generated_tasks := 0, processing_complete := False, stop_requested := False\<rparr>"
    have keep: "components_set s3 = components_set s2" "strategy s3 = strategy s2" "sched_strategy s3 = sched_strategy s2"
      using more by (cases s3; cases s2; simp)+
    have e: "components_set s5" "strategy s5 = st" "sched_strategy s5 = sst" "length (rt_edges s5) = unat (edge_node_count cfg)"
      "length (rt_devices s5) = unat (device_count cfg)" "generated_tasks s5 = 0" "\<not> processing_complete s5" "\<not> stop_requested s5"
      using spec s3(2) keep by (simp_all add: s5_def s2_def rt_component_defs)
    have "rt_initialize L draws clk src g cfg s D =
        Inr (True, g + unat (edge_node_count cfg), if automatic_mode cfg then chooseRecommendedConfiguration s5 else s5, D2)"
      using True assms n s3(1) ds m by (simp add: rt_initialize_def Let_def s1_def [symmetric] s2_def [symmetric] s5_def)
    then show ?thesis using True n e names_canonical
      by (auto simp: chooseRecommendedConfiguration_def setSchedStrategy_def setStrategy_def Let_def case_prod_beta)
  qed
qed


text \<open>the runtime can be stopped and started again, but not started again without a stop: when its workload is
  complete it says that it is not running, yet its thread is still joinable, and \<open>start\<close> assigns to
  it, which ends the program.\<close>

theorem restart_needs_stop:
  assumes "components_set s" "is_running s" "\<not> rt_running s" "thread_joinable s" "map_ok (exec_nodes s)"
  shows "rt_start now s = Inl Terminate \<and> (\<exists>s'. rt_start now (rt_stop (\<lambda>s. s) s) = Inr (True, s') \<and> rt_running s')"
proof -
  let ?s = "rt_stop (\<lambda>s. s) s"
  let ?s1 = "?s\<lparr>rt_running := True, stop_requested := False, processing_complete := False, start_time := now, is_running := True\<rparr>"
  have s: "components_set ?s" "\<not> is_running ?s" "workers ?s = []" "\<not> rt_running ?s" "\<not> thread_joinable ?s" "exec_nodes ?s = exec_nodes s"
    using assms by (simp_all add: rt_stop_def exec_stop_def Let_def)
  have d: "distinct (map fst (exec_nodes s))" using assms(5) by (rule map_ok_distinct)
  obtain ws where ws: "spawn_loop (exec_nodes s) ?s1 = Inr (?s1\<lparr>workers := ws\<rparr>)"
    using spawn_loop_spec [OF _ d, of ?s1] s(3) by auto
  have "\<exists>s'. rt_start now ?s = Inr (True, s') \<and> rt_running s'"
    using s ws by (intro exI [of _ "?s1\<lparr>workers := ws, thread_joinable := True\<rparr>"]) (simp add: rt_start_def exec_start_def)
  moreover have "rt_start now s = Inl Terminate" using assms by (simp add: rt_start_def exec_start_def)
  ultimately show ?thesis by blast
qed


section \<open>Concrete runtimes\<close>

definition demo_runtime :: runtime where
  "demo_runtime = executor.extend (demo_json\<lparr>is_running := True\<rparr>)
     (runtime.fields default_config True True [0] [] False False True 0 True 0)"

lemma demo_runtime_simps:
  "components_set demo_runtime" "is_running demo_runtime" "\<not> rt_running demo_runtime" "thread_joinable demo_runtime" "exec_nodes demo_runtime = []"
  by (simp_all add: demo_runtime_def demo_json_def executor.defs runtime.defs)

text \<open>A library on which everything succeeds at once.\<close>

definition ok_lib :: "unit sqlite" where
  "ok_lib = \<lparr>sq_open = \<lambda>_ c. (SQLITE_OK, Some 0, c), sq_close = \<lambda>_ c. (SQLITE_OK, c), sq_exec = \<lambda>_ _ c. (SQLITE_OK, None, c),
     sq_prepare = \<lambda>_ _ c. (SQLITE_OK, Some 0, c), sq_bind = \<lambda>_ _ _ c. c, sq_step = \<lambda>_ c. (SQLITE_DONE, c), sq_column = \<lambda>_ _ _. SQL_Null,
     sq_finalize = \<lambda>_ c. c, column_double = \<lambda>_. 0, column_int64 = \<lambda>_. 0, column_int = \<lambda>_. 0, column_text = \<lambda>_. None\<rparr>"

lemma ok_execute_all: "fst (execute_all ok_lib sqls D)"
  by (induction sqls arbitrary: D) (auto simp: executeSql_def ok_lib_def)

lemma ok_open: "fst (db_initialize ok_lib path D)" "fst (resetSimulationData ok_lib D)"
proof -
  have "fst (createSchemas ok_lib D)" for D
  proof -
    obtain D1 where "execute_all ok_lib schemas D = (True, D1)" using ok_execute_all [of schemas D] by (metis prod.collapse)
    then show ?thesis by (simp add: createSchemas_def ok_lib_def)
  qed
  then show "fst (db_initialize ok_lib path D)" by (simp add: db_initialize_def ok_lib_def executeSql_def case_prod_beta Let_def)
  show "fst (resetSimulationData ok_lib D)" by (simp add: resetSimulationData_def executeSql_def ok_lib_def)
qed

theorem apply_configuration_atomic_witness:
  "\<exists>s'. applyConfiguration False ''least_load'' ''edf'' demo_runtime = (True, '''', s') \<and> strategy s' = LEAST_LOAD \<and>
     sched_strategy s' = EARLIEST_DEADLINE_FIRST"
proof -
  obtain s' where a: "applyConfiguration False ''least_load'' ''edf'' demo_runtime = (True, '''', s')"
    by (simp add: applyConfiguration_def demo_runtime_simps allocationFromString_def rt_schedulingFromString_def Let_def)
  from apply_configuration_atomic [OF a] have "allocationToString (strategy s') = ''least_load''" "schedulingToString (sched_strategy s') = ''edf''"
    by auto
  then show ?thesis using a by (cases "strategy s'"; cases "sched_strategy s'") auto
qed


theorem restart_needs_stop_witness: "rt_start 7 demo_runtime = Inl Terminate"
  using restart_needs_stop [of demo_runtime 7] by (simp add: demo_runtime_simps)

end
