(* ===== verification/Counters.thy ===== *)
theory Counters
  imports Conservation
begin

text \<open>
  What the counters of the components say. The allocator, the scheduler and the executor each count what
  they do, and the metrics are computed from these counters; here they are related to the tasks
  themselves, in every state a simulation can reach.
\<close>

section \<open>The tasks that have ended\<close>

definition ended :: "tref \<Rightarrow> ('j, 'm) executor_scheme \<Rightarrow> task_status \<Rightarrow> tref set" where
  "ended n0 s st = {t. n0 \<le> t \<and> t < next_task s \<and> status (tasks s t) = st}"

definition under_way :: "('j, 'm) executor_scheme \<Rightarrow> (nref \<Rightarrow> worker) \<Rightarrow> nref \<Rightarrow> nat" where
  "under_way s w r = length (task_queue (nodes s r)) + (case w r of W_Idle \<Rightarrow> 0 | W_Running t e \<Rightarrow> 1)"

definition in_hand :: "('j, 'm) executor_scheme \<Rightarrow> (nref \<Rightarrow> worker) \<Rightarrow> nat" where
  "in_hand s w = (\<Sum>r\<in>registered s. under_way s w r)"

lemma finite_ended [simp]: "finite (ended n0 s st)"
  by (rule finite_subset [of _ "{..<next_task s}"]) (auto simp: ended_def)

text \<open>\<open>final\<close> are the two statuses no task leaves.\<close>

abbreviation final :: "task_status \<Rightarrow> bool" where
  "final st \<equiv> st \<in> {COMPLETED, FAILED}"

lemma ended_cong:
  assumes "next_task s' = next_task s" "\<And>u. tasks s' u = tasks s u \<or> \<not> final (status (tasks s u)) \<and> \<not> final (status (tasks s' u))" "final st"
  shows "ended n0 s' st = ended n0 s st"
  using assms(2) assms(3) unfolding ended_def assms(1) by (metis (no_types, lifting))

lemma ended_end:
  assumes "next_task s' = next_task s" "n0 \<le> t" "t < next_task s" "\<not> final (status (tasks s t))" "final st"
    and "\<And>u. u \<noteq> t \<Longrightarrow> tasks s' u = tasks s u"
  shows "card (ended n0 s' st) = card (ended n0 s st) + (if status (tasks s' t) = st then 1 else 0)"
proof (cases "status (tasks s' t) = st")
  case True
  have "ended n0 s' st = insert t (ended n0 s st)" using assms True unfolding ended_def by (auto; metis)
  moreover have "t \<notin> ended n0 s st" using assms(4,5) by (auto simp: ended_def)
  ultimately show ?thesis using True by simp
next
  case False
  have "ended n0 s' st = ended n0 s st" using assms False unfolding ended_def by (auto; metis)
  then show ?thesis using False by simp
qed

lemma in_hand_cong:
  assumes "edge_nodes s' = edge_nodes s" "\<And>r. under_way s' w' r = under_way s w r"
  shows "in_hand s' w' = in_hand s w"
  by (simp add: in_hand_def registered_def assms)

lemma in_hand_change:
  assumes "edge_nodes s' = edge_nodes s" "r \<in> registered s" "\<And>k. k \<noteq> r \<Longrightarrow> under_way s' w' k = under_way s w k"
  shows "in_hand s' w' + under_way s w r = in_hand s w + under_way s' w' r"
proof -
  have "registered s' = registered s" by (simp add: registered_def assms(1))
  moreover have "(\<Sum>k\<in>registered s - {r}. under_way s' w' k) = (\<Sum>k\<in>registered s - {r}. under_way s w k)"
    using assms(3) by (intro sum.cong) auto
  ultimately show ?thesis using assms(2) by (simp add: in_hand_def sum.remove [of "registered s" r])
qed

section \<open>The tasks under way\<close>

text \<open>An experiment began with the \<open>n0\<close>th task. A task that is under way, with the producer, a worker or in
  the queue of a node that has a worker, is one of its own and has not ended.\<close>

definition at_work :: "('j, 'm) executor_scheme \<Rightarrow> place \<Rightarrow> bool" where
  "at_work s l \<longleftrightarrow> (\<forall>r. l = L_Queue r \<longrightarrow> r \<in> registered s)"

lemma at_work_simps [simp]: "at_work s L_Producer" "at_work s (L_Worker r)" "at_work s (L_Queue r) \<longleftrightarrow> r \<in> registered s"
  by (simp_all add: at_work_def)

definition own :: "tref \<Rightarrow> ('j, 'm) system \<Rightarrow> bool" where
  "own n0 \<sigma> \<longleftrightarrow> n0 \<le> next_task (fst \<sigma>) \<and>
     (\<forall>t l. held \<sigma> t l \<longrightarrow> at_work (fst \<sigma>) l \<longrightarrow> n0 \<le> t \<and> \<not> final (status (tasks (fst \<sigma>) t)))"

lemma ownD: "own n0 \<sigma> \<Longrightarrow> held \<sigma> t l \<Longrightarrow> at_work (fst \<sigma>) l \<Longrightarrow> n0 \<le> t \<and> \<not> final (status (tasks (fst \<sigma>) t))"
  unfolding own_def by blast

lemma own_step:
  assumes "own n0 \<sigma>" "next_task (fst \<sigma>) \<le> next_task (fst \<sigma>')" "edge_nodes (fst \<sigma>') = edge_nodes (fst \<sigma>)"
    and "\<And>u l. held \<sigma>' u l \<Longrightarrow> held \<sigma> u l \<and> tasks (fst \<sigma>') u = tasks (fst \<sigma>) u \<or> n0 \<le> u \<and> \<not> final (status (tasks (fst \<sigma>') u))"
  shows "own n0 \<sigma>'"
  unfolding own_def
proof (intro conjI allI impI)
  show "n0 \<le> next_task (fst \<sigma>')" using assms(1,2) by (simp add: own_def)
  fix u l
  assume h: "held \<sigma>' u l" "at_work (fst \<sigma>') l"
  then have "at_work (fst \<sigma>) l" using assms(3) by (simp add: at_work_def registered_def)
  then show "n0 \<le> u" "\<not> final (status (tasks (fst \<sigma>') u))" using assms(4) [OF h(1)] ownD [OF assms(1)] by metis+
qed

lemma own_cong:
  assumes "own n0 (s, p, w)" "tasks s' = tasks s" "next_task s' = next_task s" "\<And>r. task_queue (nodes s' r) = task_queue (nodes s r)"
    and "producer_task p' = producer_task p" "edge_nodes s' = edge_nodes s"
  shows "own n0 (s', p', w)"
proof (rule own_step [OF assms(1)])
  show "held (s, p, w) u l \<and> tasks (fst (s', p', w)) u = tasks (fst (s, p, w)) u \<or> n0 \<le> u \<and> \<not> final (status (tasks (fst (s', p', w)) u))"
    if "held (s', p', w) u l" for u l
    using held_same [OF that] assms(2,4,5) by auto
qed (simp_all add: assms(3,6))

lemma own_sys_step:
  assumes "sys_step \<sigma> \<sigma>'" "sys_ok \<sigma>" "own n0 \<sigma>" "next_task (fst \<sigma>) < 2 ^ 63"
  shows "own n0 \<sigma>'"
  using assms
proof (induction rule: sys_step.induct)
  case (produce now dev sensor data s t s1 w)
  have ok: "base_ok s" "owned (s, P_Idle, w)" using produce.prems(1) by (simp_all add: sys_ok_def)
  note new = base_ok_produce [OF ok(1) produce.hyps]
  let ?\<sigma> = "(db (saved_task (tasks s1 t)) s1, P_Created t, w)"
  have st: "\<not> final (status (tasks s1 t))" using produce.hyps by (auto simp: create_no_callback new_task_def)
  show ?case
  proof (rule own_step [OF produce.prems(2)])
    fix u l
    assume h: "held ?\<sigma> u l"
    show "held (s, P_Idle, w) u l \<and> tasks (fst ?\<sigma>) u = tasks (fst (s, P_Idle, w)) u \<or> n0 \<le> u \<and> \<not> final (status (tasks (fst ?\<sigma>) u))"
    proof (cases "u = t")
      case True
      then show ?thesis using st new(2) produce.prems(2) by (simp add: own_def)
    next
      case False
      then have "held (s, P_Idle, w) u l" using h new(4) by (cases l) auto
      then show ?thesis using new(5) [OF False] by auto
    qed
  qed (simp_all add: new(3,7))
next
  case (request s t w)
  show ?case by (rule own_cong [OF request.prems(2)]) simp_all
next
  case (place t s result s1 left w)
  note same = run_strategy_db [OF place.hyps(1)] run_strategy_queues [OF place.hyps(1)] run_strategy_executor [OF place.hyps(1)]
  have "n0 \<le> t" using ownD [OF place.prems(2), of t L_Producer] by simp
  show ?case
  proof (rule own_step [OF place.prems(2)])
    fix u l
    assume "held (granted t result s1, P_Placed t result, w) u l"
    then have "held (s, P_Waiting t left, w) u l" by (cases l) (auto simp: same)
    then show "held (s, P_Waiting t left, w) u l \<and> tasks (fst (granted t result s1, P_Placed t result, w)) u =
        tasks (fst (s, P_Waiting t left, w)) u \<or> n0 \<le> u \<and> \<not> final (status (tasks (fst (granted t result s1, P_Placed t result, w)) u))"
      using \<open>n0 \<le> t\<close> by (cases "u = t") (auto simp: same)
  qed (simp_all add: same)
next
  case (retry t s result s1 left w)
  note same = run_strategy_db [OF retry.hyps(1)] run_strategy_queues [OF retry.hyps(1)] run_strategy_executor [OF retry.hyps(1)]
  show ?case by (rule own_cong [OF retry.prems(2)]) (simp_all add: same)
next
  case (give_up t s result s1 left w)
  note same = run_strategy_db [OF give_up.hyps(1)] run_strategy_queues [OF give_up.hyps(1)] run_strategy_executor [OF give_up.hyps(1)]
  let ?\<sigma> = "(db (Db_saveAllocationFailure (task_id (tasks s1 t)) (reason result)) (refused s1), P_Idle, w)"
  have "held (s, P_Waiting t left, w) u l" if "held ?\<sigma> u l" for u l using that by (cases l) (auto simp: same)
  then show ?case by (intro own_step [OF give_up.prems(2)]) (auto simp: same)
next
  case (enqueue result s edge t w label)
  then have ok: "base_ok s" "homes_ok (s, P_Placed t result, w)" by (simp_all add: sys_ok_def)
  obtain r where r: "edge = Some r" using homes_placed [OF ok(2,1)] enqueue.hyps by auto
  let ?s = "db (Db_saveAllocation (task_id (tasks s t)) (result_edge_id result) (score result) label) (scheduleTask edge (Some t) s)"
  have t: "n0 \<le> t" using ownD [OF enqueue.prems(2), of t L_Producer] by simp
  show ?case
  proof (rule own_step [OF enqueue.prems(2)])
    fix u l
    assume "held (?s, P_Idle, w) u l"
    then have "u = t \<or> u \<noteq> t \<and> held (s, P_Placed t result, w) u l"
      by (cases l) (auto simp: r scheduleTask_def Let_def enqueueTask_def split: if_splits)
    then show "held (s, P_Placed t result, w) u l \<and> tasks (fst (?s, P_Idle, w)) u = tasks (fst (s, P_Placed t result, w)) u \<or>
        n0 \<le> u \<and> \<not> final (status (tasks (fst (?s, P_Idle, w)) u))"
      using t by (auto simp: r scheduleTask_def Let_def setStatus_def)
  qed (simp_all add: r scheduleTask_def Let_def)
next
  case (take eid r s w clk t s1 p jitter)
  obtain i where i: "i < length (task_queue (nodes s r))" "t = task_queue (nodes s r) ! i"
    "s1 = upd_node r (\<lambda>n. n\<lparr>task_queue := remove_at i (task_queue (nodes s r))\<rparr>) s"
    using getNextTask_Some [OF take.hyps(4)] by blast
  have ok: "base_ok s" "owned (s, p, w)" using take.prems(1) by (simp_all add: sys_ok_def)
  then have "r \<in> registered s" using take.hyps(1) by (auto simp: base_ok_def)
  then have t: "n0 \<le> t" using ownD [OF take.prems(2), of t "L_Queue r"] i(1,2) by simp
  note q = remove_at_split [OF i(1) owned_queue [OF ok(2)]]
  let ?\<sigma> = "(beginExecution t s1, p, w(r := W_Running t (estimateExecutionTime jitter (reqs (tasks s1 t)))))"
  show ?case
  proof (rule own_step [OF take.prems(2)])
    fix u l
    assume "held ?\<sigma> u l"
    then have "u = t \<or> u \<noteq> t \<and> held (s, p, w) u l" using q by (cases l) (auto simp: i(3) split: if_splits)
    then show "held (s, p, w) u l \<and> tasks (fst ?\<sigma>) u = tasks (fst (s, p, w)) u \<or> n0 \<le> u \<and> \<not> final (status (tasks (fst ?\<sigma>) u))"
      using t by (auto simp: i(3) setStatus_def)
  qed (simp_all add: i(3))
next
  case (finish w r t e s p now now')
  then have ok: "owned (s, p, w)" by (simp add: sys_ok_def)
  have t: "held (s, p, w) t (L_Worker r)" using finish.hyps by simp
  show ?case
  proof (rule own_step [OF finish.prems(2)])
    fix u l
    assume "held (finishExecution now now' e r t s, p, w(r := W_Idle)) u l"
    then have h: "held (s, p, w) u l" "l \<noteq> L_Worker r" by (cases l; auto split: if_splits)+
    then have "u \<noteq> t" using owned_same [OF ok t] by auto
    with h(1) show "held (s, p, w) u l \<and> tasks (fst (finishExecution now now' e r t s, p, w(r := W_Idle))) u = tasks (fst (s, p, w)) u \<or>
        n0 \<le> u \<and> \<not> final (status (tasks (fst (finishExecution now now' e r t s, p, w(r := W_Idle))) u))"
      by auto
  qed simp_all
next
  case (fluctuate draws s s1 w)
  have s1: "s1 = fluctuate_loop draws (edge_nodes s) s"
    using fluctuate.hyps by (simp add: updateResourceMetrics_def split: if_splits)
  show ?case by (rule own_cong [OF fluctuate.prems(2)]) (simp_all add: s1)
next
  case (configure p s w sst st)
  show ?case by (rule own_cong [OF configure.prems(2)]) (simp_all add: setSchedStrategy_def setStrategy_def)
next
  case (snapshot s w r)
  show ?case by (rule own_cong [OF snapshot.prems(2)]) simp_all
next
  case (outside s' s p w)
  show ?case by (rule own_cong [OF outside.prems(2)]) (simp_all add: same_components [OF outside.hyps])
qed

section \<open>The counters\<close>

text \<open>All counters began at zero: the allocator has counted each task it was asked to place, and how that
  went; the scheduler those that were placed and handed to it; and the executor those that ended.\<close>

definition tallied :: "tref \<Rightarrow> ('j, 'm) system \<Rightarrow> bool" where
  "tallied n0 \<sigma> \<longleftrightarrow> (case \<sigma> of (s, p, w) \<Rightarrow>
     total_allocations s + (case p of P_Created t \<Rightarrow> 1 | _ \<Rightarrow> 0) = of_nat (next_task s) - of_nat n0 \<and>
     successful_allocations s + failed_allocations s + (case p of P_Waiting t l \<Rightarrow> 1 | _ \<Rightarrow> 0) = total_allocations s \<and>
     total_tasks_scheduled s + (case p of P_Placed t q \<Rightarrow> 1 | _ \<Rightarrow> 0) = successful_allocations s \<and>
     total_tasks_executed s = of_nat (card (ended n0 s COMPLETED)) \<and> exec_tasks_failed s = of_nat (card (ended n0 s FAILED)) \<and>
     of_nat (card (ended n0 s COMPLETED)) + of_nat (card (ended n0 s FAILED)) + of_nat (in_hand s w) = total_tasks_scheduled s)"

text \<open>Nothing is counted and no task moves or changes.\<close>

lemma tallied_cong:
  assumes "tallied n0 (s, p, w)" "tasks s' = tasks s" "next_task s' = next_task s" "\<And>r. task_queue (nodes s' r) = task_queue (nodes s r)"
    and "total_allocations s' = total_allocations s" "successful_allocations s' = successful_allocations s"
    and "failed_allocations s' = failed_allocations s" "total_tasks_scheduled s' = total_tasks_scheduled s"
    and "total_tasks_executed s' = total_tasks_executed s" "exec_tasks_failed s' = exec_tasks_failed s" "edge_nodes s' = edge_nodes s"
  shows "tallied n0 (s', p, w)"
proof -
  have "ended n0 s' st = ended n0 s st" "in_hand s' w = in_hand s w" for st
    by (simp add: ended_def assms(2,3)) (rule in_hand_cong; simp add: under_way_def assms(4,11))
  then show ?thesis using assms(1) by (simp add: tallied_def assms(3,5-10))
qed

lemma ended_others:
  assumes "next_task s' = next_task s" "\<And>u. u \<noteq> t \<Longrightarrow> tasks s' u = tasks s u" "\<not> final (status (tasks s t))" "\<not> final (status (tasks s' t))" "final st"
  shows "ended n0 s' st = ended n0 s st"
  using assms(2-4) by (intro ended_cong [OF assms(1) _ assms(5)]) metis

lemma run_strategy_counters:
  "run_strategy t s = Inr (result, s') \<Longrightarrow> total_allocations s' = total_allocations s \<and> successful_allocations s' = successful_allocations s \<and>
     failed_allocations s' = failed_allocations s \<and> total_tasks_scheduled s' = total_tasks_scheduled s \<and>
     total_tasks_executed s' = total_tasks_executed s \<and> exec_tasks_failed s' = exec_tasks_failed s"
  by (auto simp: run_strategy_def allocateRoundRobin_def allocateLeastLoad_def allocatePriorityBased_def
      allocateMultiConstraint_def Let_def case_prod_beta split: if_splits option.splits allocation_strategy.splits)

lemma executor_frame [simp]:
  "total_tasks_executed (upd_node r f s) = total_tasks_executed s" "exec_tasks_failed (upd_node r f s) = exec_tasks_failed s"
  "total_tasks_executed (upd_task t g s) = total_tasks_executed s" "exec_tasks_failed (upd_task t g s) = exec_tasks_failed s"
  "total_tasks_executed (db c s) = total_tasks_executed s" "exec_tasks_failed (db c s) = exec_tasks_failed s"
  by (simp_all add: upd_node_def upd_task_def db_def)

lemma fluctuate_loop_counters [simp]:
  "total_allocations (fluctuate_loop draws es s) = total_allocations s" "successful_allocations (fluctuate_loop draws es s) = successful_allocations s"
  "failed_allocations (fluctuate_loop draws es s) = failed_allocations s" "total_tasks_scheduled (fluctuate_loop draws es s) = total_tasks_scheduled s"
  "total_tasks_executed (fluctuate_loop draws es s) = total_tasks_executed s" "exec_tasks_failed (fluctuate_loop draws es s) = exec_tasks_failed s"
  by (induction draws es s rule: fluctuate_loop.induct) (auto split: option.splits)

lemma same_counters:
  assumes "executor.truncate s' = executor.truncate s"
  shows "total_allocations s' = total_allocations s" "successful_allocations s' = successful_allocations s"
    "failed_allocations s' = failed_allocations s" "total_tasks_scheduled s' = total_tasks_scheduled s"
    "total_tasks_executed s' = total_tasks_executed s" "exec_tasks_failed s' = exec_tasks_failed s"
  using assms by (simp_all add: executor.truncate_def)

lemma tallied_sys_step:
  assumes "sys_step \<sigma> \<sigma>'" "sys_ok \<sigma>" "own n0 \<sigma>" "tallied n0 \<sigma>" "next_task (fst \<sigma>) < 2 ^ 63"
  shows "tallied n0 \<sigma>'"
  using assms
proof (induction rule: sys_step.induct)
  case (produce now dev sensor data s t s1 w)
  have ok: "base_ok s" using produce.prems(1) by (simp add: sys_ok_def)
  note new = base_ok_produce [OF ok produce.hyps]
  let ?s = "db (saved_task (tasks s1 t)) s1"
  have st: "\<not> final (status (tasks s1 t))" and same: "total_allocations s1 = total_allocations s"
    "successful_allocations s1 = successful_allocations s" "failed_allocations s1 = failed_allocations s"
    "total_tasks_scheduled s1 = total_tasks_scheduled s" "total_tasks_executed s1 = total_tasks_executed s" "exec_tasks_failed s1 = exec_tasks_failed s"
    using produce.hyps by (auto simp: create_no_callback new_task_def)
  have "ended n0 ?s x = ended n0 s x" if "final x" for x
    using st new(2,3,5) that unfolding ended_def by (auto simp: less_Suc_eq)
  moreover have "in_hand ?s w = in_hand s w" by (rule in_hand_cong) (simp_all add: new(4,7) under_way_def)
  ultimately show ?case using produce.prems(3) by (simp add: tallied_def new(3) same algebra_simps)
next
  case (request s t w)
  let ?s = "s\<lparr>total_allocations := total_allocations s + 1\<rparr>"
  have "ended n0 ?s st = ended n0 s st" "in_hand ?s w = in_hand s w" for st
    by (simp add: ended_def) (rule in_hand_cong; simp add: under_way_def)
  then show ?case using request.prems(3) by (simp add: tallied_def algebra_simps)
next
  case (place t s result s1 left w)
  note same = run_strategy_db [OF place.hyps(1)] run_strategy_queues [OF place.hyps(1)] run_strategy_executor [OF place.hyps(1)]
    run_strategy_counters [OF place.hyps(1)]
  let ?s = "granted t result s1"
  have nf: "\<not> final (status (tasks s t))" using ownD [OF place.prems(2), of t L_Producer] by simp
  have "ended n0 ?s x = ended n0 s x" if "final x" for x by (rule ended_others [where t = t]) (use that nf same in auto)
  moreover have "in_hand ?s w = in_hand s w" by (rule in_hand_cong) (simp_all add: same under_way_def)
  ultimately show ?case using place.prems(3) same by (simp add: tallied_def granted_def Let_def algebra_simps)
next
  case (retry t s result s1 left w)
  note same = run_strategy_db [OF retry.hyps(1)] run_strategy_queues [OF retry.hyps(1)] run_strategy_executor [OF retry.hyps(1)]
    run_strategy_counters [OF retry.hyps(1)]
  have "tallied n0 (s, P_Waiting t left, w)" using retry.prems(3) by (simp add: tallied_def)
  then show ?case by (rule tallied_cong) (simp_all add: same)
next
  case (give_up t s result s1 left w)
  note same = run_strategy_db [OF give_up.hyps(1)] run_strategy_queues [OF give_up.hyps(1)] run_strategy_executor [OF give_up.hyps(1)]
    run_strategy_counters [OF give_up.hyps(1)]
  let ?s = "db (Db_saveAllocationFailure (task_id (tasks s1 t)) (reason result)) (refused s1)"
  have "ended n0 ?s x = ended n0 s x" "in_hand ?s w = in_hand s w" for x
    by (simp add: ended_def same) (rule in_hand_cong; simp add: under_way_def same)
  then show ?case using give_up.prems(3) same by (simp add: tallied_def refused_def algebra_simps)
next
  case (enqueue result s edge t w label)
  then have ok: "base_ok s" "homes_ok (s, P_Placed t result, w)" by (simp_all add: sys_ok_def)
  obtain r where r: "edge = Some r" "r \<in> registered s" using homes_placed [OF ok(2,1)] enqueue.hyps by auto
  let ?s = "db (Db_saveAllocation (task_id (tasks s t)) (result_edge_id result) (score result) label) (scheduleTask edge (Some t) s)"
  have nf: "\<not> final (status (tasks s t))" using ownD [OF enqueue.prems(2), of t L_Producer] by simp
  have "ended n0 ?s x = ended n0 s x" if "final x" for x
    by (rule ended_others [where t = t]) (use that nf in \<open>auto simp: r scheduleTask_def Let_def setStatus_def\<close>)
  moreover have u: "under_way ?s w k = under_way s w k + (if k = r then 1 else 0)" for k
    by (simp add: r scheduleTask_def Let_def under_way_def enqueueTask_def)
  have "in_hand ?s w + under_way s w r = in_hand s w + under_way ?s w r"
    using r(2) by (intro in_hand_change) (simp_all add: u, simp add: r scheduleTask_def Let_def)
  then have "in_hand ?s w = in_hand s w + 1" by (simp add: u)
  ultimately show ?case using enqueue.prems(3) by (simp add: tallied_def r scheduleTask_def Let_def algebra_simps)
next
  case (take eid r s w clk t s1 p jitter)
  then have ok: "base_ok s" "homes_ok (s, p, w)" "owned (s, p, w)" by (simp_all add: sys_ok_def)
  obtain i where i: "i < length (task_queue (nodes s r))" "t = task_queue (nodes s r) ! i"
    "s1 = upd_node r (\<lambda>n. n\<lparr>task_queue := remove_at i (task_queue (nodes s r))\<rparr>) s"
    using getNextTask_Some [OF take.hyps(4)] by blast
  let ?s = "beginExecution t s1" and ?w = "w(r := W_Running t (estimateExecutionTime jitter (reqs (tasks s1 t))))"
  have "r \<in> registered s" using ok(1) take.hyps(1) by (auto simp: base_ok_def)
  then have nf: "\<not> final (status (tasks s t))" using ownD [OF take.prems(2), of t "L_Queue r"] i(1,2) by simp
  have "ended n0 ?s x = ended n0 s x" if "final x" for x
    by (rule ended_others [where t = t]) (use that nf in \<open>auto simp: i(3) setStatus_def\<close>)
  moreover have "in_hand ?s ?w = in_hand s w"
    using i(1) take.hyps(3) by (intro in_hand_cong) (auto simp: i(3) under_way_def length_remove_at)
  ultimately show ?case using take.prems(3) by (simp add: tallied_def i(3))
next
  case (finish w r t e s p now now')
  then have ok: "homes_ok (s, p, w)" "owned (s, p, w)" by (simp_all add: sys_ok_def)
  let ?s = "finishExecution now now' e r t s" and ?w = "w(r := W_Idle)"
  have r: "r \<in> registered s" using homes_worker [OF ok(1) finish.hyps] by blast
  have h: "held (s, p, w) t (L_Worker r)" using finish.hyps by simp
  have t: "n0 \<le> t" "t < next_task s" "\<not> final (status (tasks s t))"
    using ownD [OF finish.prems(2) h] owned_less [OF ok(2) h] by simp_all
  have c: "card (ended n0 ?s x) = card (ended n0 s x) + (if outcome now (tasks s t) = x then 1 else 0)" if "final x" for x
    using ended_end [of ?s s n0 t x] t that by (simp add: setStatus_def)
  have "in_hand ?s ?w + under_way s w r = in_hand s w + under_way ?s ?w r"
    using r by (intro in_hand_change) (auto simp: under_way_def)
  then have "in_hand s w = in_hand ?s ?w + 1" using finish.hyps by (simp add: under_way_def)
  then show ?case using finish.prems(3) c [of COMPLETED] c [of FAILED]
    by (simp add: tallied_def outcome_def algebra_simps split: if_splits)
next
  case (fluctuate draws s s1 w)
  have s1: "s1 = fluctuate_loop draws (edge_nodes s) s"
    using fluctuate.hyps by (simp add: updateResourceMetrics_def split: if_splits)
  show ?case by (rule tallied_cong [OF fluctuate.prems(3)]) (simp_all add: s1)
next
  case (configure p s w sst st)
  show ?case by (rule tallied_cong [OF configure.prems(3)]) (simp_all add: setSchedStrategy_def setStrategy_def)
next
  case (snapshot s w r)
  show ?case by (rule tallied_cong [OF snapshot.prems(3)]) simp_all
next
  case (outside s' s p w)
  show ?case by (rule tallied_cong [OF outside.prems(3)]) (simp_all add: same_components [OF outside.hyps] same_counters [OF outside.hyps])
qed

section \<open>In every reachable state\<close>

text \<open>A simulation that begins with all counters at zero.\<close>

definition counters_zero :: "('j, 'm) executor_scheme \<Rightarrow> bool" where
  "counters_zero s \<longleftrightarrow> total_allocations s = 0 \<and> successful_allocations s = 0 \<and> failed_allocations s = 0 \<and>
     total_tasks_scheduled s = 0 \<and> total_tasks_executed s = 0 \<and> exec_tasks_failed s = 0"

lemma begin_tallied:
  assumes "begin_ok s0" "counters_zero s0" "reachable s0 \<sigma>"
  shows "own (next_task s0) \<sigma>" "tallied (next_task s0) \<sigma>"
proof -
  have "own (next_task s0) \<sigma> \<and> tallied (next_task s0) \<sigma>"
    using assms(3)
  proof induction
    case start
    have queues: "task_queue (nodes s0 r) = []" if "r \<in> registered s0" for r using assms(1) that by (simp add: begin_ok_def)
    have "\<not> (held (s0, P_Idle, \<lambda>_. W_Idle) t l \<and> at_work s0 l)" for t l by (cases l) (auto simp: queues)
    moreover have "ended (next_task s0) s0 st = {}" for st by (auto simp: ended_def)
    moreover have "in_hand s0 (\<lambda>_. W_Idle) = 0" by (simp add: in_hand_def under_way_def queues)
    ultimately show ?case using assms(2) by (auto simp: own_def tallied_def counters_zero_def)
  next
    case (step \<sigma> \<sigma>')
    then show ?case using own_sys_step tallied_sys_step begin_ok_reachable(1) [OF assms(1)] by blast
  qed
  then show "own (next_task s0) \<sigma>" "tallied (next_task s0) \<sigma>" by auto
qed

lemma setup_counters_zero:
  assumes "setup_experiment draws g n st scheduling s = Inr (edges, g', s0)"
  shows "counters_zero s0"
  using setup_ready [of draws g n st scheduling s] assms by (auto simp: counters_zero_def ready_def)

text \<open>Once nothing is under way the three counters of the ends of a task add up, without overflow.\<close>

lemma card_ended_two:
  "card (ended n0 s COMPLETED) + card (ended n0 s FAILED) \<le> next_task s - n0"
proof -
  have "ended n0 s COMPLETED \<inter> ended n0 s FAILED = {}" by (auto simp: ended_def)
  then have "card (ended n0 s COMPLETED) + card (ended n0 s FAILED) = card (ended n0 s COMPLETED \<union> ended n0 s FAILED)"
    by (simp add: card_Un_disjoint)
  also have "\<dots> \<le> card {n0..<next_task s}" by (rule card_mono) (auto simp: ended_def)
  finally show ?thesis by simp
qed

lemma tallied_idle:
  assumes "tallied n0 (s, P_Idle, w)" "in_hand s w = 0" "n0 \<le> next_task s" "next_task s \<le> n0 + 2 ^ 63"
  shows "unat (total_tasks_executed s) + unat (exec_tasks_failed s) + unat (failed_allocations s) = next_task s - n0"
proof -
  let ?c = "card (ended n0 s COMPLETED)" and ?f = "card (ended n0 s FAILED)" and ?n = "next_task s - n0"
  have "total_allocations s = of_nat (next_task s) - of_nat n0" "successful_allocations s + failed_allocations s = total_allocations s"
    "successful_allocations s = of_nat ?c + of_nat ?f"
    "total_tasks_executed s = of_nat ?c" "exec_tasks_failed s = of_nat ?f"
    using assms(1,2) by (simp_all add: tallied_def)
  moreover have "of_nat (next_task s) - of_nat n0 = (of_nat ?n :: u64)" using assms(3) by simp
  ultimately have "failed_allocations s = of_nat ?n - (of_nat ?c + of_nat ?f)" by (metis add_diff_cancel_left')
  also have "\<dots> = of_nat (?n - (?c + ?f))" using of_nat_diff [where ?'a = "64 word", OF card_ended_two [of n0 s]] by simp
  finally have "unat (failed_allocations s) = ?n - (?c + ?f)" using assms(3,4) by (simp add: unat_of_nat take_bit_nat_eq_self)
  moreover have "unat (of_nat k :: u64) = k" if "k \<le> ?n" for k using that assms(3,4) by (simp add: unat_of_nat take_bit_nat_eq_self)
  ultimately show ?thesis using card_ended_two [of n0 s] \<open>total_tasks_executed s = _\<close> \<open>exec_tasks_failed s = _\<close> by simp
qed

lemma tallied_quiescent:
  assumes "tallied n0 (s, p, w)" "quiescent (s, p, w)" "n0 \<le> next_task s" "next_task s \<le> n0 + 2 ^ 63"
  shows "unat (total_tasks_executed s) + unat (exec_tasks_failed s) + unat (failed_allocations s) = next_task s - n0"
proof -
  have h: "\<not> held (s, p, w) t l" for t l using assms(2) by (simp add: quiescent_def)
  have "task_queue (nodes s r) = []" for r using h [of "hd (task_queue (nodes s r))" "L_Queue r"] by (cases "task_queue (nodes s r)") auto
  moreover have "w r = W_Idle" for r using h [of _ "L_Worker r"] by (cases "w r") auto
  ultimately have "in_hand s w = 0" by (simp add: in_hand_def under_way_def)
  moreover have "p = P_Idle" using h [of _ L_Producer] by (cases p) auto
  ultimately show ?thesis using tallied_idle [OF _ _ assms(3,4)] assms(1) by simp
qed

text \<open>The tasks a node has: those in its queue and the one its worker runs.\<close>

definition tasks_at :: "('j, 'm) executor_scheme \<Rightarrow> (nref \<Rightarrow> worker) \<Rightarrow> nref \<Rightarrow> tref set" where
  "tasks_at s w r = set (task_queue (nodes s r)) \<union> {t. worker_task (w r) = Some t}"

lemma tasks_at_held:
  assumes "t \<in> tasks_at s w r"
  obtains l where "l \<in> {L_Queue r, L_Worker r}" "held (s, p, w) t l"
proof -
  have "held (s, p, w) t (L_Queue r) \<or> held (s, p, w) t (L_Worker r)" using assms by (auto simp: tasks_at_def)
  then show thesis using that by blast
qed

lemma card_tasks_at:
  assumes "owned (s, p, w)"
  shows "finite (tasks_at s w r)" "card (tasks_at s w r) = under_way s w r"
proof -
  have q: "card (set (task_queue (nodes s r))) = length (task_queue (nodes s r))" using owned_queue [OF assms] by (rule distinct_card)
  have "finite (tasks_at s w r) \<and> card (tasks_at s w r) = under_way s w r"
  proof (cases "w r")
    case W_Idle
    then show ?thesis using q by (simp add: tasks_at_def under_way_def)
  next
    case (W_Running t e)
    have "t \<notin> set (task_queue (nodes s r))" using owned_same [OF assms, of t "L_Worker r" "L_Queue r"] W_Running by auto
    moreover have "tasks_at s w r = insert t (set (task_queue (nodes s r)))" using W_Running by (auto simp: tasks_at_def)
    ultimately show ?thesis using q W_Running by (simp add: under_way_def)
  qed
  then show "finite (tasks_at s w r)" "card (tasks_at s w r) = under_way s w r" by simp_all
qed

lemma tasks_in_hand:
  assumes "owned (s, p, w)"
  shows "card (\<Union>r\<in>registered s. tasks_at s w r) = in_hand s w"
proof -
  have "r = r'" if t: "t \<in> tasks_at s w r" "t \<in> tasks_at s w r'" for t r r'
  proof -
    obtain l l' where "l \<in> {L_Queue r, L_Worker r}" "l' \<in> {L_Queue r', L_Worker r'}" "held (s, p, w) t l" "held (s, p, w) t l'"
      using tasks_at_held [OF t(1), of p] tasks_at_held [OF t(2), of p] by metis
    then show ?thesis using owned_same [OF assms, of t l l'] by auto
  qed
  then have "tasks_at s w r \<inter> tasks_at s w r' = {}" if "r \<noteq> r'" for r r' using that by blast
  then show ?thesis
    using card_tasks_at [OF assms] by (simp add: card_UN_disjoint in_hand_def)
qed

lemma ended_and_in_hand:
  assumes "owned (s, p, w)" "own n (s, p, w)"
  shows "card (ended n s COMPLETED) + card (ended n s FAILED) + in_hand s w \<le> next_task s - n"
proof -
  let ?h = "\<Union>r\<in>registered s. tasks_at s w r"
  have h: "n \<le> t \<and> t < next_task s \<and> \<not> final (status (tasks s t))" if "t \<in> ?h" for t
  proof -
    obtain r where r: "r \<in> registered s" "t \<in> tasks_at s w r" using \<open>t \<in> ?h\<close> by blast
    obtain l where "l \<in> {L_Queue r, L_Worker r}" "held (s, p, w) t l" using tasks_at_held [OF r(2), of p] .
    then have "held (s, p, w) t l" "at_work s l" using r(1) by auto
    then show ?thesis using ownD [OF assms(2)] owned_less [OF assms(1)] by simp
  qed
  have disj: "ended n s COMPLETED \<inter> ended n s FAILED = {}" "(ended n s COMPLETED \<union> ended n s FAILED) \<inter> ?h = {}"
    using h by (auto simp: ended_def)
  have fin: "finite ?h" using h by (intro finite_subset [of ?h "{..<next_task s}"]) auto
  have "card (ended n s COMPLETED) + card (ended n s FAILED) + in_hand s w = card (ended n s COMPLETED \<union> ended n s FAILED) + card ?h"
    using disj(1) by (simp add: card_Un_disjoint tasks_in_hand [OF assms(1)])
  also have "\<dots> = card (ended n s COMPLETED \<union> ended n s FAILED \<union> ?h)" using disj(2) fin by (intro card_Un_disjoint [symmetric]) auto
  also have "\<dots> \<le> card {n..<next_task s}" using h by (intro card_mono) (auto simp: ended_def, blast+)
  finally show ?thesis by simp
qed

text \<open>C9: the counters the metrics are made of tell the truth: in every state an experiment can reach, the
  executor has counted as executed exactly the tasks that have completed and as failed exactly those that
  ended too late, the scheduler as many tasks as have ended, are in a queue or with a worker, and the
  allocator each of its answers once. Once nothing is under way, every task the experiment has created is
  counted once, as executed, failed or refused.\<close>

theorem counters_tell_the_truth:
  assumes "can_begin s" "draws_ok draws g n" "setup_experiment draws g n st scheduling s = Inr (edges, g', s0)"
    and "reachable s0 (s', p, w)"
  shows "total_tasks_executed s' = of_nat (card (ended (next_task s) s' COMPLETED)) \<and>
    exec_tasks_failed s' = of_nat (card (ended (next_task s) s' FAILED)) \<and>
    total_tasks_scheduled s' = total_tasks_executed s' + exec_tasks_failed s' + of_nat (in_hand s' w) \<and>
    total_allocations s' = successful_allocations s' + failed_allocations s' + (case p of P_Waiting t l \<Rightarrow> 1 | _ \<Rightarrow> 0) \<and>
    (quiescent (s', p, w) \<longrightarrow>
       unat (total_tasks_executed s') + unat (exec_tasks_failed s') + unat (failed_allocations s') = next_task s' - next_task s)"
proof -
  have zero: "counters_zero s0" using setup_counters_zero [OF assms(3)] .
  note start = setup_begin_ok [OF assms(1-3)]
  have tally: "tallied (next_task s) (s', p, w)" using begin_tallied(2) [OF start(1) zero assms(4)] start(2) by simp
  then show ?thesis using tallied_quiescent [OF tally] reachable_few [OF assms(4)] start(2) by (auto simp: tallied_def)
qed

theorem counters_tell_the_truth_witness:
  "\<exists>s0 s1 p w. reachable s0 (s1 :: unit executor, p, w) \<and> quiescent (s1, p, w) \<and>
     unat (total_tasks_executed s1) + unat (exec_tasks_failed s1) + unat (failed_allocations s1) = 1"
proof -
  obtain edges g' s0 s1 where run: "setup_experiment demo_draws 0 2 ROUND_ROBIN ''edf'' demo_begin = Inr (edges, g', s0)"
    "reachable s0 (s1, P_Created 0, \<lambda>_. W_Idle)" "next_task s1 = 1" by (rule demo_created)
  note ok = reachable_ok [OF _ demo_can_begin demo_draws_good run(1)]
  obtain s2 p w where last: "reachable s0 (s2, p, w)" "quiescent (s2, p, w)" "next_task s2 = 1"
    using reachable_drain [OF run(2) setup_begin_ok(1,3) [OF demo_can_begin demo_draws_good run(1)]] run(3) by auto
  from counters_tell_the_truth [OF demo_can_begin demo_draws_good run(1) last(1)] last show ?thesis by auto
qed

end
