(* ===== verification/Persistence.thy ===== *)
theory Persistence
  imports Conservation
begin

text \<open>
  What the simulation writes to the database, as a history: in the tables of \<^verbatim>\<open>database_manager.cpp\<close>
  allocations and executions refer to tasks by a foreign key, and a status update of a task that is
  not stored changes nothing. So every such call must come after the one that stores the task, however
  the producer and the workers interleave.
\<close>

section \<open>References\<close>

text \<open>The task a call refers to.\<close>

fun names_task :: "db_call \<Rightarrow> string option" where
  "names_task (Db_updateTaskStatus tid _) = Some tid"
| "names_task (Db_saveAllocation tid _ _ _) = Some tid"
| "names_task (Db_saveAllocationFailure tid _) = Some tid"
| "names_task (Db_saveTaskExecution tid _ _) = Some tid"
| "names_task _ = None"

fun stores_task :: "db_call \<Rightarrow> string option" where
  "stores_task (Db_saveTask tid _ _ _ _) = Some tid"
| "stores_task _ = None"

definition saved_in :: "db_call list \<Rightarrow> string \<Rightarrow> bool" where
  "saved_in calls tid \<longleftrightarrow> (\<exists>c\<in>set calls. stores_task c = Some tid)"

definition refs_ok :: "db_call list \<Rightarrow> bool" where
  "refs_ok calls \<longleftrightarrow> (\<forall>i<length calls. \<forall>tid. names_task (calls ! i) = Some tid \<longrightarrow> saved_in (take i calls) tid)"

lemma saved_in_append [simp]: "saved_in (a @ b) tid \<longleftrightarrow> saved_in a tid \<or> saved_in b tid"
  by (auto simp: saved_in_def)

lemma refs_ok_append:
  assumes "refs_ok calls" "\<And>c tid. c \<in> set new \<Longrightarrow> names_task c = Some tid \<Longrightarrow> saved_in calls tid"
  shows "refs_ok (calls @ new)"
  unfolding refs_ok_def
proof (intro allI impI)
  fix i tid
  assume i: "i < length (calls @ new)" "names_task ((calls @ new) ! i) = Some tid"
  show "saved_in (take i (calls @ new)) tid"
  proof (cases "i < length calls")
    case True
    then show ?thesis using assms(1) i by (simp add: refs_ok_def nth_append)
  next
    case False
    then have "new ! (i - length calls) \<in> set new" using i(1) by simp
    then show ?thesis using assms(2) [of "new ! (i - length calls)" tid] False i by (simp add: nth_append)
  qed
qed

section \<open>Every step keeps the references in order\<close>

definition log_ok :: "('j, 'm) system \<Rightarrow> bool" where
  "log_ok \<sigma> \<longleftrightarrow> refs_ok (db_calls (fst \<sigma>)) \<and>
     (\<forall>t l. held \<sigma> t l \<longrightarrow> saved_in (db_calls (fst \<sigma>)) (task_id (tasks (fst \<sigma>) t)))"

lemma log_okD: "log_ok (s, p, w) \<Longrightarrow> held (s, p, w) t l \<Longrightarrow> saved_in (db_calls s) (task_id (tasks s t))"
  by (auto simp: log_ok_def)

text \<open>A step that adds calls about a task that is held, moves tasks about and keeps their names.\<close>

lemma log_ok_step:
  assumes "log_ok (s, p, w)" "db_calls s' = db_calls s @ new"
    and "\<And>c tid. c \<in> set new \<Longrightarrow> names_task c = Some tid \<Longrightarrow> \<exists>t l. held (s, p, w) t l \<and> tid = task_id (tasks s t)"
    and "\<And>u l. held (s', p', w') u l \<Longrightarrow> \<exists>l'. held (s, p, w) u l'"
    and "\<And>u. task_id (tasks s' u) = task_id (tasks s u)"
  shows "log_ok (s', p', w')"
proof -
  have "saved_in (db_calls s) tid" if "c \<in> set new" "names_task c = Some tid" for c tid
    using assms(3) [OF that] log_okD [OF assms(1)] by auto
  then have "refs_ok (db_calls s')" using assms(1) refs_ok_append [of "db_calls s" new] by (simp add: log_ok_def assms(2))
  moreover have "saved_in (db_calls s') (task_id (tasks s' u))" if "held (s', p', w') u l" for u l
    using assms(4) [OF that] log_okD [OF assms(1)] by (auto simp: assms(2,5))
  ultimately show ?thesis by (simp add: log_ok_def)
qed

lemma held_transfer:
  assumes "held (s', p', w) u l" "\<And>r. set (task_queue (nodes s' r)) \<subseteq> set (task_queue (nodes s r))"
    "producer_task p' = Some u \<Longrightarrow> producer_task p = Some u"
  shows "\<exists>l'. held (s, p, w) u l'"
proof (rule exI [of _ l])
  show "held (s, p, w) u l" using assms by (cases l) auto
qed

lemma log_ok_sys_step:
  assumes "sys_step \<sigma> \<sigma>'" "sys_ok \<sigma>" "log_ok \<sigma>" "next_task (fst \<sigma>) < 2 ^ 63"
  shows "log_ok \<sigma>'"
  using assms
proof (induction rule: sys_step.induct)
  case (produce now dev sensor data s t s1 w)
  have ok: "base_ok s" "owned (s, P_Idle, w)" using produce.prems(1) by (simp_all add: sys_ok_def)
  note new = base_ok_produce [OF ok(1) produce.hyps]
  have calls: "db_calls s1 = db_calls s" using produce.hyps by (auto simp: create_no_callback)
  let ?s = "db (saved_task (tasks s1 t)) s1"
  have "refs_ok (db_calls ?s)" using produce.prems(2) by (auto simp: log_ok_def calls saved_task_def intro: refs_ok_append)
  moreover have "saved_in (db_calls ?s) (task_id (tasks ?s u))" if "held (?s, P_Created t, w) u l" for u l
  proof (cases "u = t")
    case True
    then show ?thesis by (simp add: saved_in_def saved_task_def)
  next
    case False
    have "held (s, P_Idle, w) u l" using that False new(4) by (cases l) auto
    then show ?thesis using log_okD [OF produce.prems(2)] new(5) [OF False] by (simp add: calls)
  qed
  ultimately show ?case by (simp add: log_ok_def)
next
  case (request s t w)
  show ?case
    by (rule log_ok_step [OF request.prems(2), where new = "[]"]) (auto elim: held_transfer)
next
  case (place t s result s1 left w)
  note same = run_strategy_db [OF place.hyps(1)] run_strategy_queues [OF place.hyps(1)]
  show ?case
  proof (rule log_ok_step [OF place.prems(2), where new = "[Db_updateTaskStatus (task_id (tasks s t)) QUEUED]"])
    show "\<exists>u l. held (s, P_Waiting t left, w) u l \<and> tid = task_id (tasks s u)"
      if "c \<in> set [Db_updateTaskStatus (task_id (tasks s t)) QUEUED]" "names_task c = Some tid" for c tid
      using that by (intro exI [of _ t] exI [of _ L_Producer]) auto
    show "\<exists>l'. held (s, P_Waiting t left, w) u l'" if "held (granted t result s1, P_Placed t result, w) u l" for u l
      using that by (rule held_transfer) (simp_all add: same(2))
  qed (use same(1) in auto)
next
  case (retry t s result s1 left w)
  then have ok: "base_ok s" "owned (s, P_Waiting t (Suc left), w)" "next_task s < 2 ^ 63" by (simp_all add: sys_ok_def)
  have "s1 = s" using unplaced_step [OF ok retry.hyps(1,2)] .
  then show ?case by (intro log_ok_step [OF retry.prems(2), where new = "[]"]) (auto elim: held_transfer)
next
  case (give_up t s result s1 left w)
  then have ok: "base_ok s" "owned (s, P_Waiting t left, w)" "next_task s < 2 ^ 63" by (simp_all add: sys_ok_def)
  have s1: "s1 = s" using unplaced_step [OF ok give_up.hyps(1,2)] .
  show ?case
  proof (rule log_ok_step [OF give_up.prems(2), where new = "[Db_saveAllocationFailure (task_id (tasks s t)) (reason result)]"])
    show "\<exists>u l. held (s, P_Waiting t left, w) u l \<and> tid = task_id (tasks s u)"
      if "c \<in> set [Db_saveAllocationFailure (task_id (tasks s t)) (reason result)]" "names_task c = Some tid" for c tid
      using that by (intro exI [of _ t] exI [of _ L_Producer]) auto
  qed (auto simp: s1 elim: held_transfer)
next
  case (enqueue result s edge t w label)
  then have ok: "base_ok s" "homes_ok (s, P_Placed t result, w)" by (simp_all add: sys_ok_def)
  obtain r where r: "edge = Some r" using homes_placed [OF ok(2,1)] enqueue.hyps by auto
  show ?case
  proof (rule log_ok_step [OF enqueue.prems(2), where new = "[Db_saveAllocation (task_id (tasks s t)) (result_edge_id result) (score result) label]"])
    show "\<exists>u l. held (s, P_Placed t result, w) u l \<and> tid = task_id (tasks s u)"
      if "c \<in> set [Db_saveAllocation (task_id (tasks s t)) (result_edge_id result) (score result) label]" "names_task c = Some tid" for c tid
      using that by (intro exI [of _ t] exI [of _ L_Producer]) auto
    show "\<exists>l'. held (s, P_Placed t result, w) u l'"
      if "held (db (Db_saveAllocation (task_id (tasks s t)) (result_edge_id result) (score result) label) (scheduleTask edge (Some t) s), P_Idle, w) u l"
      for u l
    proof (cases "u = t")
      case True
      then show ?thesis by (intro exI [of _ L_Producer]) simp
    next
      case False
      then show ?thesis using that
        by (intro exI [of _ l], cases l) (auto simp: r scheduleTask_def Let_def enqueueTask_def split: if_splits)
    qed
  qed (auto simp: r scheduleTask_def Let_def)
next
  case (take eid r s w clk t s1 p jitter)
  obtain i where i: "i < length (task_queue (nodes s r))" "t = task_queue (nodes s r) ! i"
    "s1 = upd_node r (\<lambda>n. n\<lparr>task_queue := remove_at i (task_queue (nodes s r))\<rparr>) s"
    using getNextTask_Some [OF take.hyps(4)] by blast
  have t: "held (s, p, w) t (L_Queue r)" using i(1,2) by simp
  show ?case
  proof (rule log_ok_step [OF take.prems(2), where new = "[Db_updateTaskStatus (task_id (tasks s t)) RUNNING]"])
    show "\<exists>u l. held (s, p, w) u l \<and> tid = task_id (tasks s u)"
      if "c \<in> set [Db_updateTaskStatus (task_id (tasks s t)) RUNNING]" "names_task c = Some tid" for c tid
      using that t by (intro exI [of _ t] exI [of _ "L_Queue r"]) auto
    show "\<exists>l'. held (s, p, w) u l'"
      if "held (beginExecution t s1, p, w(r := W_Running t (estimateExecutionTime jitter (reqs (tasks s1 t))))) u l" for u l
    proof (cases "u = t")
      case False
      have "owned (s, p, w)" using take.prems(1) by (simp add: sys_ok_def)
      note q = remove_at_split [OF i(1) owned_queue [OF this]]
      show ?thesis using that False q by (intro exI [of _ l], cases l) (auto simp: i(3) split: if_splits)
    qed (use t in blast)
  qed (auto simp: i(3))
next
  case (finish w r t e s p now now')
  have t: "held (s, p, w) t (L_Worker r)" using finish.hyps by simp
  show ?case
  proof (rule log_ok_step [OF finish.prems(2), where new = "[Db_updateTaskStatus (task_id (tasks s t)) (outcome now (tasks s t)),
      Db_saveTaskExecution (task_id (tasks s t)) e (\<not> isDeadlineExceeded now (tasks s t))]"])
    show "\<exists>u l. held (s, p, w) u l \<and> tid = task_id (tasks s u)"
      if "c \<in> set [Db_updateTaskStatus (task_id (tasks s t)) (outcome now (tasks s t)),
        Db_saveTaskExecution (task_id (tasks s t)) e (\<not> isDeadlineExceeded now (tasks s t))]" "names_task c = Some tid" for c tid
      using that t by (intro exI [of _ t] exI [of _ "L_Worker r"]) auto
    show "\<exists>l'. held (s, p, w) u l'" if "held (finishExecution now now' e r t s, p, w(r := W_Idle)) u l" for u l
      using that by (intro exI [of _ l], cases l) (auto split: if_splits)
  qed auto
next
  case (fluctuate draws s s1 w)
  have s1: "s1 = fluctuate_loop draws (edge_nodes s) s"
    using fluctuate.hyps by (simp add: updateResourceMetrics_def split: if_splits)
  show ?case by (rule log_ok_step [OF fluctuate.prems(2), where new = "[]"]) (auto simp: s1 elim: held_transfer)
next
  case (configure p s w sst st)
  show ?case
    by (rule log_ok_step [OF configure.prems(2), where new = "[]"])
      (auto simp: setSchedStrategy_def setStrategy_def elim: held_transfer)
next
  case (snapshot s w r)
  show ?case
    by (rule log_ok_step [OF snapshot.prems(2),
          where new = "[Db_saveResourceSnapshot (edge_id (nodes s r)) (current_usage (nodes s r)) (getQueueLength (nodes s r))]"])
      (auto elim: held_transfer)
next
  case (outside s' s p w)
  show ?case
    by (rule log_ok_step [OF outside.prems(2), where new = "[]"])
      (auto simp: same_components [OF outside.hyps] elim: held_transfer)
qed

section \<open>Reachable states\<close>

lemma register_calls: "registerEdgeNode r s = Inr s' \<Longrightarrow> db_calls s' = db_calls s"
  by (auto simp: registerEdgeNode_def split: if_splits option.splits)

lemma create_nodes_calls:
  "create_nodes draws g i k s = Inr (rs, g', s') \<Longrightarrow> \<exists>new. db_calls s' = db_calls s @ new \<and> (\<forall>c\<in>set new. names_task c = None)"
proof (induction k arbitrary: g i s rs g' s')
  case (Suc k)
  let ?cap = "drawn_capacity (draws g)"
  let ?m = "make_node (new_edge_node (node_name i) ?cap) s"
  obtain s2 rs' where s2: "registerEdgeNode (Some (fst ?m)) (snd ?m) = Inr s2"
    and rest: "create_nodes draws (Suc g) (Suc i) k (db (Db_saveEdgeNode (node_name i) ?cap) s2) = Inr (rs', g', s')"
    using Suc.prems by (auto simp: bind_sum_Inr Let_def case_prod_beta)
  obtain new where new: "db_calls s' = db_calls (db (Db_saveEdgeNode (node_name i) ?cap) s2) @ new" "\<forall>c\<in>set new. names_task c = None"
    using Suc.IH [OF rest] by blast
  moreover have "db_calls s2 = db_calls s" using register_calls [OF s2] by (simp add: make_node_def)
  ultimately show ?case by (intro exI [of _ "Db_saveEdgeNode (node_name i) ?cap # new"]) simp
qed simp

lemma register_all_calls: "db_calls (fold (\<lambda>r. exec_registerEdgeNode (Some r)) rs s) = db_calls s"
  by (induction rs arbitrary: s) (auto simp: exec_registerEdgeNode_def)

lemma spawn_calls: "spawn_loop es s = Inr s' \<Longrightarrow> db_calls s' = db_calls s"
  by (induction es s rule: spawn_loop.induct) (auto split: if_splits)

lemma setup_calls_new:
  assumes "setup_experiment draws g n st scheduling s = Inr (edges, g', s0)"
  obtains new where "db_calls s0 = db_calls s @ new" "\<forall>c\<in>set new. names_task c = None"
proof -
  obtain s1 where s1: "createEdgeNodes draws g n (new_components st (schedulingFromString scheduling) s) = Inr (edges, g', s1)"
    and s0: "exec_start (fold (\<lambda>r. exec_registerEdgeNode (Some r)) edges s1) = Inr s0"
    using assms(1) by (auto simp: setup_experiment_def bind_sum_Inr)
  have "db_calls s0 = db_calls s1"
    using s0 spawn_calls by (fastforce simp: exec_start_def register_all_calls split: if_splits)
  moreover obtain new where "db_calls s1 = db_calls s @ new" "\<forall>c\<in>set new. names_task c = None"
    using create_nodes_calls [OF s1 [unfolded createEdgeNodes_def]] by (auto simp: new_components_def component_defs)
  ultimately show thesis using that by simp
qed

lemma setup_calls:
  assumes "setup_experiment draws g n st scheduling s = Inr (edges, g', s0)" "refs_ok (db_calls s)"
  shows "refs_ok (db_calls s0)"
proof -
  obtain new where "db_calls s0 = db_calls s @ new" "\<forall>c\<in>set new. names_task c = None" using setup_calls_new [OF assms(1)] .
  then show ?thesis using assms(2) by (auto intro: refs_ok_append)
qed

lemma log_ok_empty:
  assumes "refs_ok (db_calls s)" "\<And>r. task_queue (nodes s r) = []"
  shows "log_ok (s, P_Idle, \<lambda>_. W_Idle)"
proof -
  have "\<not> held (s, P_Idle, \<lambda>_. W_Idle) t l" for t l by (cases l) (simp_all add: assms(2))
  then show ?thesis using assms(1) by (simp add: log_ok_def)
qed

lemma begin_log_ok:
  assumes "begin_ok s0" "log_ok (s0, P_Idle, \<lambda>_. W_Idle)" "reachable s0 \<sigma>"
  shows "log_ok \<sigma>"
  using assms(3)
proof induction
  case start
  show ?case by (rule assms(2))
next
  case (step \<sigma> \<sigma>')
  then show ?case using log_ok_sys_step begin_ok_reachable(1) [OF assms(1)] by blast
qed

lemma reachable_log_ok:
  assumes "reachable s0 \<sigma>" "can_begin s" "draws_ok draws g n" "setup_experiment draws g n st scheduling s = Inr (edges, g', s0)"
    and "refs_ok (db_calls s)"
  shows "log_ok \<sigma>"
  using begin_log_ok [OF setup_begin_ok(1) [OF assms(2-4)] log_ok_empty [OF setup_calls [OF assms(4,5)] setup_begin_ok(3) [OF assms(2-4)]] assms(1)] .

text \<open>C16: the calls the simulation makes reach the database in an order that respects the references: in every
  state an experiment can reach, however the producer and the workers have interleaved, each status
  update, allocation, refusal and execution of a task comes after the call that stores the task, and
  every task that is under way is stored. So no row is refused for a missing task and no status update
  is lost.\<close>

theorem references_in_order:
  assumes "can_begin s" "draws_ok draws g n" "setup_experiment draws g n st scheduling s = Inr (edges, g', s0)"
    and "refs_ok (db_calls s)" "reachable s0 (s', p, w)"
  shows "(\<forall>i<length (db_calls s'). \<forall>tid. names_task (db_calls s' ! i) = Some tid \<longrightarrow>
      (\<exists>j<i. stores_task (db_calls s' ! j) = Some tid)) \<and>
    (\<forall>t l. held (s', p, w) t l \<longrightarrow> (\<exists>c\<in>set (db_calls s'). stores_task c = Some (task_id (tasks s' t))))"
proof -
  have ok: "log_ok (s', p, w)" using reachable_log_ok [OF assms(5,1-4)] .
  have "\<exists>j<i. stores_task (db_calls s' ! j) = Some tid" if "i < length (db_calls s')" "names_task (db_calls s' ! i) = Some tid" for i tid
  proof -
    have "saved_in (take i (db_calls s')) tid" using ok that by (simp add: log_ok_def refs_ok_def)
    then show ?thesis using that(1) by (fastforce simp: saved_in_def in_set_conv_nth)
  qed
  moreover have "\<exists>c\<in>set (db_calls s'). stores_task c = Some (task_id (tasks s' t))" if "held (s', p, w) t l" for t l
    using log_okD [OF ok that] by (simp add: saved_in_def)
  ultimately show ?thesis by blast
qed

theorem references_in_order_witness:
  "\<exists>s0 s1. reachable s0 (s1 :: unit executor, P_Created 0, \<lambda>_. W_Idle) \<and>
     (\<exists>c\<in>set (db_calls s1). stores_task c = Some ''T000001'')"
proof -
  obtain edges g' s0 s1 where run: "setup_experiment demo_draws 0 2 ROUND_ROBIN ''edf'' demo_begin = Inr (edges, g', s0)"
    "reachable s0 (s1, P_Created 0, \<lambda>_. W_Idle)"
    "tasks s1 0 = new_task 5 ''T000001'' ''DEV0003'' ''camera'' (mk_req 60 1024 20 50 CRITICAL) ()" by (rule demo_created)
  have "refs_ok (db_calls demo_begin)"
    by (simp add: demo_begin_def new_components_def component_defs demo_exec_def demo_manager_def demo_sched_def task_manager.defs scheduler.defs allocator.defs refs_ok_def)
  moreover have "draws_ok demo_draws 0 2" by (simp add: demo_draws_good)
  moreover have "held (s1, P_Created 0, \<lambda>_. W_Idle) 0 L_Producer" by simp
  ultimately have "\<exists>c\<in>set (db_calls s1). stores_task c = Some (task_id (tasks s1 0))"
    using references_in_order [OF demo_can_begin _ run(1) _ run(2)] by blast
  with run(2,3) show ?thesis by (auto simp: new_task_def)
qed

end
