(* ===== verification/Whole_Experiment.thy ===== *)
theory Whole_Experiment
  imports Experiment Counters Persistence
begin

text \<open>
  A whole experiment, as \<^verbatim>\<open>main.cpp\<close> runs it, on the steps of the simulation: the loop that produces the
  tasks, the wait for the queues and the joining of the workers are one run of the steps, if what the
  other threads do meanwhile is done by the workers. So the experiment never faults, and at its end
  every task, every reservation and every counter is accounted for.
\<close>

section \<open>What the workers do meanwhile\<close>

fun turns_to :: "simulation_config \<Rightarrow> (nat \<Rightarrow> json executor turn) \<Rightarrow> nat \<Rightarrow> nat \<Rightarrow> iot_device list \<Rightarrow> json executor \<Rightarrow>
    (nref \<Rightarrow> worker) \<Rightarrow> (nref \<Rightarrow> worker) \<Rightarrow> bool" where
  "turns_to cfg es i 0 devices s w w1 \<longleftrightarrow> w1 = w"
| "turns_to cfg es i (Suc k) devices s w w1 \<longleftrightarrow>
     (\<exists>w'. turn_to (es i) i devices s w w' \<and>
       (case produce_turn cfg (es i) i devices s of
          Inl f \<Rightarrow> w1 = w'
        | Inr (devices', s') \<Rightarrow> turns_to cfg es (Suc i) k devices' s' w' w1))"

fun polls_to :: "(nat \<Rightarrow> 'j executor \<Rightarrow> 'j executor) \<Rightarrow> nat \<Rightarrow> nat \<Rightarrow> nref list \<Rightarrow> 'j executor \<Rightarrow> (nref \<Rightarrow> worker) \<Rightarrow> (nref \<Rightarrow> worker) \<Rightarrow> bool" where
  "polls_to others j 0 edges s w w1 \<longleftrightarrow> w1 = w"
| "polls_to others j (Suc k) edges s w w1 \<longleftrightarrow>
     (\<exists>w'. (aside P_Idle)\<^sup>*\<^sup>* (s, w) (others j s, w') \<and>
       (if any_queued edges s then polls_to others (Suc j) k edges (others j s) w' w1 else w1 = w'))"

text \<open>In every sleep of the experiment the workers make steps; the experiment joins them when they are idle.\<close>

definition run_by_workers :: "(nat \<Rightarrow> node_draw) \<Rightarrow> simulation_config \<Rightarrow> world \<Rightarrow> allocation_strategy \<Rightarrow> nat \<Rightarrow> iot_device list \<Rightarrow> json executor \<Rightarrow> bool" where
  "run_by_workers draws cfg wd st g devices s \<longleftrightarrow>
     (case setup_experiment draws g (unat (edge_node_count cfg)) st (cfg_scheduling cfg) s of
        Inl f \<Rightarrow> True
      | Inr (edges, g', s1) \<Rightarrow>
          (\<exists>w2. turns_to cfg (turns wd) 0 (unat (task_count cfg)) devices s1 (\<lambda>_. W_Idle) w2 \<and>
             (case produce_loop cfg (turns wd) 0 (unat (task_count cfg)) devices s1 of
                Inl f \<Rightarrow> True
              | Inr (devices', s2) \<Rightarrow>
                  (let s3 = drain_loop (in_polls wd) 0 (polls wd) edges s2
                   in \<exists>w3. polls_to (in_polls wd) 0 (polls wd) edges s2 w2 w3 \<and>
                        (aside P_Idle)\<^sup>*\<^sup>* (s3, w3) (joining wd s3, \<lambda>_. W_Idle)))))"

section \<open>The code's loops are runs and never fault\<close>

lemma sys_ok_run:
  assumes "sys_step\<^sup>*\<^sup>* \<sigma> \<sigma>'" "sys_ok \<sigma>" "next_task (fst \<sigma>') < 2 ^ 63"
  shows "sys_ok \<sigma>'"
  using assms
proof (induction rule: rtranclp_induct)
  case (step \<sigma>1 \<sigma>2)
  then have "next_task (fst \<sigma>1) < 2 ^ 63" using next_task_step [of \<sigma>1 \<sigma>2] by simp
  with step show ?case using sys_ok_step by blast
qed

lemma retry_returns:
  assumes "sys_ok (s, P_Waiting t l, w)" "next_task s < 2 ^ 63" "sleeps_to sleep a l t s w w1"
  shows "\<exists>q s'. retry_loop sleep a l t s = Inr (q, s')"
  using assms
proof (induction l arbitrary: a s w)
  case 0
  have ok: "base_ok s" "owned (s, P_Waiting t 0, w)" using "0.prems"(1) by (simp_all add: sys_ok_def)
  obtain q s1 where "run_strategy t s = Inr (q, s1)" using strat.never_faults [OF sys_alloc_ok [OF ok "0.prems"(2)]] by blast
  then show ?case by (subst retry_loop.simps) auto
next
  case (Suc l)
  have ok: "base_ok s" "owned (s, P_Waiting t (Suc l), w)" using Suc.prems(1) by (simp_all add: sys_ok_def)
  obtain q s1 where r: "run_strategy t s = Inr (q, s1)" using strat.never_faults [OF sys_alloc_ok [OF ok Suc.prems(2)]] by blast
  show ?case
  proof (cases "success q \<or> edge_nodes s1 = []")
    case True
    then show ?thesis using r by (subst retry_loop.simps) auto
  next
    case False
    then have f: "\<not> success q" "edge_nodes s1 \<noteq> []" by auto
    note same = run_strategy_failed [OF r f(1)]
    obtain w' where w': "(aside (P_Waiting t l))\<^sup>*\<^sup>* (s, w) (sleep a s, w')" "sleeps_to sleep (Suc a) l t (sleep a s) w' w1"
      using Suc.prems(3) r f by (auto simp: fails_for_now_def)
    have n: "next_task (sleep a s) < 2 ^ 63" using aside_next_task [OF w'(1)] Suc.prems(2) by simp
    have "sys_ok (s, P_Waiting t l, w)" using sys_ok_step [OF sys_step.retry [OF r f] Suc.prems(1)] same Suc.prems(2) by simp
    then have "sys_ok (sleep a s, P_Waiting t l, w')" using sys_ok_run [OF aside_run [OF w'(1)]] n by simp
    from Suc.IH [OF this n w'(2)] show ?thesis
      using r f same by (subst retry_loop.simps) (auto simp: no_viable_def)
  qed
qed

lemma place_task_returns:
  assumes "sys_ok (s, P_Created t, w)" "next_task s < 2 ^ 63" "sleeps_to sleep 0 max_retries t (s\<lparr>total_allocations := total_allocations s + 1\<rparr>) w w1"
  shows "\<exists>s'. place_task sleep label t s = Inr s'"
proof -
  let ?s = "s\<lparr>total_allocations := total_allocations s + 1\<rparr>"
  have ok: "sys_ok (?s, P_Waiting t max_retries, w)" using sys_ok_step [OF sys_step.request assms(1)] assms(2) by simp
  obtain q s1 where q: "retry_loop sleep 0 max_retries t ?s = Inr (q, s1)" using retry_returns [OF ok _ assms(3)] assms(2) by auto
  have ok1: "sys_ok (after_attempts t q s1 w1)"
    using sys_ok_run [OF conjunct1 [OF retry_runs [OF q assms(3)]] ok] conjunct2 [OF retry_runs [OF q assms(3)]] assms(2)
    by (simp add: after_attempts_def)
  show ?thesis
  proof (cases "success q")
    case True
    then have "base_ok s1" "homes_ok (s1, P_Placed t q, w1)" using ok1 by (simp_all add: after_attempts_def sys_ok_def)
    then obtain r where "getEdgeNode (result_edge_id q) s1 = Inr (Some r)" using homes_placed by blast
    then show ?thesis using q True by (simp add: place_task_def allocateTaskWithRetry_def Let_def)
  qed (use q in \<open>simp add: place_task_def allocateTaskWithRetry_def\<close>)
qed

lemma produce_turn_returns:
  assumes "sys_ok (s, P_Idle, w)" "Suc (next_task s) < 2 ^ 63" "devices \<noteq> []" "turn_to e i devices s w w1"
  shows "\<exists>devices' s'. produce_turn cfg e i devices s = Inr (devices', s') \<and> devices' \<noteq> []"
proof -
  obtain t devices' s1 where p: "produce_task e i devices s = Inr (t, devices', s1)" "devices' \<noteq> []"
    using assms(3) by (auto simp: produce_task_def Let_def case_prod_beta create_no_callback)
  have n: "next_task s1 < 2 ^ 63" using produce_task_next [OF p(1)] assms(2) by simp
  have ok: "sys_ok (s1, P_Created t, w)" using sys_ok_step [OF produce_task_step [OF p(1)] assms(1)] assms(2) by simp
  have sleeps: "sleeps_to (asleep e) 0 max_retries t (s1\<lparr>total_allocations := total_allocations s1 + 1\<rparr>) w w1"
    using assms(4) p(1) by (simp add: turn_to_def)
  obtain s2 where s2: "place_task (asleep e) (\<lambda>_. cfg_strategy cfg) t s1 = Inr s2" using place_task_returns [OF ok n sleeps] by blast
  note run = place_task_runs [OF s2 sleeps]
  have "sys_ok (s2, P_Idle, w1)" using sys_ok_run [OF conjunct1 [OF run] ok] conjunct2 [OF run] n by simp
  then have "\<not> nodes_mutex s2" by (simp add: sys_ok_def base_ok_def monitor_ok_def)
  then show ?thesis using p s2 by (simp add: produce_turn_def updateResourceMetrics_def)
qed

lemma produce_loop_runs:
  assumes "sys_ok (s, P_Idle, w)" "next_task s + k < 2 ^ 63" "devices \<noteq> [] \<or> k = 0" "turns_to cfg es i k devices s w w1"
  shows "\<exists>devices' s'. produce_loop cfg es i k devices s = Inr (devices', s') \<and> sys_step\<^sup>*\<^sup>* (s, P_Idle, w) (s', P_Idle, w1) \<and>
    next_task s' = next_task s + k \<and> (devices \<noteq> [] \<longrightarrow> devices' \<noteq> [])"
  using assms
proof (induction k arbitrary: i devices s w)
  case (Suc k)
  obtain w' where w': "turn_to (es i) i devices s w w'" using Suc.prems(4) by auto
  obtain ds s1 where turn: "produce_turn cfg (es i) i devices s = Inr (ds, s1)" "ds \<noteq> []"
    using produce_turn_returns [OF Suc.prems(1) _ _ w', of cfg] Suc.prems(2,3) by auto
  note run = produce_turn_runs [OF turn(1)]
  obtain w'' where w'': "turn_to (es i) i devices s w w''" "turns_to cfg es (Suc i) k ds s1 w'' w1"
    using Suc.prems(4) turn(1) by auto
  note step = produce_turn_runs [OF turn(1) w''(1)]
  have "sys_ok (s1, P_Idle, w'')" using sys_ok_run [OF step(1) Suc.prems(1)] step(2) Suc.prems(2) by simp
  from Suc.IH [OF this _ _ w''(2)] obtain devices' s' where rest: "produce_loop cfg es (Suc i) k ds s1 = Inr (devices', s')"
    "sys_step\<^sup>*\<^sup>* (s1, P_Idle, w'') (s', P_Idle, w1)" "next_task s' = next_task s1 + k" "devices' \<noteq> []"
    using step(2) Suc.prems(2) turn(2) by auto
  then show ?case using turn(1) step rtranclp_trans [OF step(1) rest(2)] by simp
qed simp

lemma drain_runs:
  "polls_to others j k edges s w w1 \<Longrightarrow> (aside P_Idle)\<^sup>*\<^sup>* (s, w) (drain_loop others j k edges s, w1)"
  by (induction others j k edges s arbitrary: w rule: drain_loop.induct) (auto split: if_splits intro: rtranclp_trans)

lemma latency_loop_returns: "None \<notin> snd ` set es \<Longrightarrow> \<exists>x. latency_loop s es a = Inr x"
  by (induction s es a rule: latency_loop.induct) (auto split: option.split)

lemma collect_returns:
  assumes "None \<notin> snd ` set (exec_nodes s)"
  shows "\<exists>p. collect sqrt_of el s = Inr p"
  using latency_loop_returns [OF assms, of s 0] by (auto simp: collect_def getAverageLatency_def Let_def)

text \<open>Storing the profiles only adds calls to the log.\<close>

lemma save_profiles_only: "\<exists>new. save_profiles s = s\<lparr>db_calls := db_calls s @ new\<rparr> \<and> (\<forall>c\<in>set new. names_task c = None)"
proof -
  have "\<exists>new. fold (\<lambda>(sensor, req). db (Db_saveTaskProfile sensor req)) ps s = s\<lparr>db_calls := db_calls s @ new\<rparr> \<and> (\<forall>c\<in>set new. names_task c = None)"
    for ps :: "(string \<times> requirements) list" and s
  proof (induction ps arbitrary: s)
    case Nil
    show ?case by (rule exI [of _ "[]"]) simp
  next
    case (Cons p ps)
    obtain sensor req where p: "p = (sensor, req)" by fastforce
    let ?s = "db (Db_saveTaskProfile sensor req) s"
    obtain new where new: "fold (\<lambda>(sensor, req). db (Db_saveTaskProfile sensor req)) ps ?s = ?s\<lparr>db_calls := db_calls ?s @ new\<rparr>"
      "\<forall>c\<in>set new. names_task c = None"
      using Cons.IH by blast
    have "?s\<lparr>db_calls := db_calls ?s @ new\<rparr> = s\<lparr>db_calls := db_calls s @ Db_saveTaskProfile sensor req # new\<rparr>" by (simp add: db_def)
    then show ?case using new by (intro exI [of _ "Db_saveTaskProfile sensor req # new"]) (simp add: p)
  qed
  then show ?thesis by (simp add: save_profiles_def)
qed

lemma save_profiles_kept [simp]:
  "nodes (save_profiles s) = nodes s" "next_node (save_profiles s) = next_node s" "tasks (save_profiles s) = tasks s"
  "next_task (save_profiles s) = next_task s" "profile_map (save_profiles s) = profile_map s"
proof -
  obtain calls where s: "save_profiles s = s\<lparr>db_calls := db_calls s @ calls\<rparr>" using save_profiles_only by blast
  show "nodes (save_profiles s) = nodes s" "next_node (save_profiles s) = next_node s" "tasks (save_profiles s) = tasks s"
    "next_task (save_profiles s) = next_task s" "profile_map (save_profiles s) = profile_map s"
    by (simp_all add: s)
qed

section \<open>At the end of an experiment\<close>

lemma exec_stop_frame [simp]:
  "tasks (exec_stop s) = tasks s" "nodes (exec_stop s) = nodes s" "next_task (exec_stop s) = next_task s" "db_calls (exec_stop s) = db_calls s"
  "edge_nodes (exec_stop s) = edge_nodes s" "exec_nodes (exec_stop s) = exec_nodes s" "total_allocations (exec_stop s) = total_allocations s"
  "successful_allocations (exec_stop s) = successful_allocations s" "failed_allocations (exec_stop s) = failed_allocations s"
  "total_tasks_scheduled (exec_stop s) = total_tasks_scheduled s" "total_tasks_executed (exec_stop s) = total_tasks_executed s"
  "exec_tasks_failed (exec_stop s) = exec_tasks_failed s"
  by (simp_all add: exec_stop_def)

lemma latency_stop [simp]: "latency_loop (exec_stop s) es a = latency_loop s es a"
  by (induction s es a rule: latency_loop.induct) (auto split: option.split)

lemma collect_stop [simp]: "collect sqrt_of el (exec_stop s) = collect sqrt_of el s"
proof -
  have t: "total_execution_time_ms (exec_stop s) = total_execution_time_ms s" by (simp add: exec_stop_def)
  have "getAverageExecutionTimeMs (exec_stop s) = getAverageExecutionTimeMs s" by (simp add: getAverageExecutionTimeMs_def t Let_def)
  moreover have "getAverageLatency (exec_stop s) = getAverageLatency s" by (simp add: getAverageLatency_def)
  moreover have "calculateAverageCpuUtilization (exec_stop s) = calculateAverageCpuUtilization s"
    "calculateLoadImbalance sqrt_of (exec_stop s) = calculateLoadImbalance sqrt_of s" "getSuccessRate (exec_stop s) = getSuccessRate s"
    by (simp_all add: calculateAverageCpuUtilization_def calculateLoadImbalance_def getSuccessRate_def)
  ultimately show ?thesis by (simp add: collect_def)
qed

lemma registered_stop [simp]: "registered (exec_stop s) = registered s"
  by (simp add: registered_def)

text \<open>What is left when the producer and the workers are idle: tasks in queues.\<close>

lemma queued_own:
  assumes "begin_ok s0" "reachable s0 (s, p, w)" "next_task s0 \<le> t" "t \<in> set (task_queue (nodes s r))"
  shows "r \<in> registered s"
proof (rule ccontr)
  assume "r \<notin> registered s"
  then have "t \<in> set (task_queue (nodes s0 r))" using begin_ok_reachable(5,6) [OF assms(1,2)] assms(4) by simp
  then have "t < next_task s0" using assms(1) owned_less [of s0 P_Idle "\<lambda>_. W_Idle" t "L_Queue r"] by (simp add: begin_ok_def sys_ok_def)
  then show False using assms(3) by simp
qed

lemma idle_summary:
  assumes "begin_ok s0" "counters_zero s0" "reachable s0 (s, P_Idle, \<lambda>_. W_Idle)"
  shows "\<forall>t. next_task s0 \<le> t \<and> t < next_task s \<longrightarrow> settled s t \<or> (\<exists>r\<in>registered s. t \<in> set (task_queue (nodes s r)))"
    "\<forall>r\<in>registered s. rat_of (used_bandwidth_mbps (current_usage (nodes s r))) =
       (\<Sum>t\<leftarrow>task_queue (nodes s r). rat_of (bandwidth_mbps (reqs (tasks s t))))"
    "\<forall>r\<in>registered s. task_queue (nodes s r) = [] \<Longrightarrow>
       unat (total_tasks_executed s) + unat (exec_tasks_failed s) + unat (failed_allocations s) = next_task s - next_task s0"
proof -
  let ?\<sigma> = "(s, P_Idle, \<lambda>_. W_Idle)"
  note ok = begin_ok_reachable [OF assms(1,3)]
  have queue: "\<exists>r\<in>registered s. t \<in> set (task_queue (nodes s r))" if "held ?\<sigma> t l" "next_task s0 \<le> t" for t l
    using that queued_own [OF assms(1,3), of t] by (cases l) auto
  show "\<forall>t. next_task s0 \<le> t \<and> t < next_task s \<longrightarrow> settled s t \<or> (\<exists>r\<in>registered s. t \<in> set (task_queue (nodes s r)))"
    using ok(3) queue by (fastforce simp: accounted_def)
  show "\<forall>r\<in>registered s. rat_of (used_bandwidth_mbps (current_usage (nodes s r))) =
       (\<Sum>t\<leftarrow>task_queue (nodes s r). rat_of (bandwidth_mbps (reqs (tasks s t))))"
    using ok(2) by (simp add: bw_ok_def used_bw_def bw_def [abs_def])
  assume "\<forall>r\<in>registered s. task_queue (nodes s r) = []"
  then have "in_hand s (\<lambda>_. W_Idle) = 0" by (simp add: in_hand_def under_way_def)
  then show "unat (total_tasks_executed s) + unat (exec_tasks_failed s) + unat (failed_allocations s) = next_task s - next_task s0"
    using tallied_idle [OF begin_tallied(2) [OF assms]] reachable_few [OF assms(3)] by simp
qed

section \<open>What the metrics say of the tasks\<close>

definition percentage :: "nat \<Rightarrow> nat \<Rightarrow> double" where
  "percentage k n = (if n = 0 then 0 else dbl_of_int (int k) / dbl_of_int (int n) * dbl 100)"

lemma dbl_of_count: "k < 2 ^ 64 \<Longrightarrow> dbl_of_u64 (of_nat k) = dbl_of_int (int k)"
  by (simp add: dbl_of_u64_def unsigned_of_nat take_bit_nat_eq_self)

lemma collect_counts:
  assumes "begin_ok s0" "counters_zero s0" "reachable s0 (s, P_Idle, w)" "collect sqrt_of el s = Inr p"
    and "C = card (ended (next_task s0) s COMPLETED)" "F = card (ended (next_task s0) s FAILED)"
  shows "deadline_miss_rate_percent p = percentage F (C + F)"
    "throughput_tasks_per_second p = (if 0 < el then dbl_of_int (int C) / el else 0)"
    "task_success_rate_percent p = percentage (C + F + in_hand s w) (next_task s - next_task s0)"
proof -
  let ?n = "next_task s - next_task s0" and ?h = "in_hand s w"
  have own: "owned (s, P_Idle, w)" using begin_ok_reachable(1) [OF assms(1,3)] by (simp add: sys_ok_def)
  have le: "C + F + ?h \<le> ?n" using ended_and_in_hand [OF own begin_tallied(1) [OF assms(1-3)]] assms(5,6) by simp
  have few: "?n \<le> 2 ^ 63" "next_task s0 \<le> next_task s" using reachable_few [OF assms(3)] by auto
  have t: "total_allocations s = of_nat (next_task s) - of_nat (next_task s0)" "successful_allocations s = total_tasks_scheduled s"
    "total_tasks_executed s = of_nat C" "exec_tasks_failed s = of_nat F" "of_nat C + of_nat F + of_nat ?h = total_tasks_scheduled s"
    using begin_tallied(2) [OF assms(1-3)] assms(5,6) by (simp_all add: tallied_def)
  have words: "total_allocations s = of_nat ?n" "successful_allocations s = of_nat (C + F + ?h)"
    "total_tasks_executed s + exec_tasks_failed s = of_nat (C + F)"
    using t few(2) by simp_all
  have zero: "(of_nat k :: u64) = 0 \<longleftrightarrow> k = 0" if "k \<le> ?n" for k
    using that few(1) by (auto simp: word_of_nat_eq_0_iff dest: dvd_imp_le)
  have small: "k < 2 ^ 64" if "k \<le> ?n" for k using that few(1) by simp
  have c: "dbl_of_u64 (of_nat k) = dbl_of_int (int k)" if "k \<le> ?n" for k using dbl_of_count [OF small [OF that]] .
  have miss: "deadline_miss_rate_percent p = (if 0 < total_tasks_executed s + exec_tasks_failed s
      then dbl_of_u64 (exec_tasks_failed s) / dbl_of_u64 (total_tasks_executed s + exec_tasks_failed s) * dbl 100 else 0)"
    and thr: "throughput_tasks_per_second p = (if 0 < el then dbl_of_u64 (total_tasks_executed s) / el else 0)"
    and succ: "task_success_rate_percent p = getSuccessRate s"
    using assms(4) by (auto simp: collect_def bind_sum_Inr Let_def)
  show "throughput_tasks_per_second p = (if 0 < el then dbl_of_int (int C) / el else 0)" using thr t(3) c [of C] le by simp
  show "deadline_miss_rate_percent p = percentage F (C + F)"
  proof -
    have k: "F \<le> ?n" "C + F \<le> ?n" using le by simp_all
    have "(0 < (of_nat (C + F) :: u64)) = (C + F \<noteq> 0)" using zero [OF k(2)] by (simp only: word_gt_0 eq_commute [of 0])
    then show ?thesis using miss [unfolded words(3), unfolded t(4)] by (simp only: c [OF k(1)] c [OF k(2)] percentage_def) simp
  qed
  show "task_success_rate_percent p = percentage (C + F + ?h) ?n"
    unfolding succ getSuccessRate_def words(1,2) c [OF le] c [OF order_refl] zero [OF order_refl] percentage_def by simp
qed

text \<open>C10: the metrics tell the truth about the tasks: whenever the producer is idle, the deadline miss rate is the
  share of the failed tasks among those that have ended, the throughput is the number of completed
  ones per second, and the success rate is the share of those that found a place among all that were created.\<close>

theorem metrics_tell_the_truth:
  assumes "can_begin s" "draws_ok draws g n" "setup_experiment draws g n st scheduling s = Inr (edges, g', s0)"
    and "reachable s0 (s', P_Idle, w)" "collect sqrt_of el s' = Inr p"
    and "C = card (ended (next_task s) s' COMPLETED)" "F = card (ended (next_task s) s' FAILED)"
  shows "deadline_miss_rate_percent p = percentage F (C + F) \<and>
    throughput_tasks_per_second p = (if 0 < el then dbl_of_int (int C) / el else 0) \<and>
    task_success_rate_percent p = percentage (C + F + in_hand s' w) (next_task s' - next_task s)"
proof -
  note start = setup_begin_ok(1,2) [OF assms(1-3)] and zero = setup_counters_zero [OF assms(3)]
  show ?thesis using collect_counts [OF start(1) zero assms(4,5)] assms(6,7) start(2) by simp
qed

text \<open>What an experiment is: a run of the simulation from what its setup leaves to where its workers have been
  joined, and the metrics of that state.\<close>

lemma experiment_run:
  assumes "may_begin s" "draws_ok draws g (unat (edge_node_count cfg))" "devices \<noteq> []"
    and "next_task s + unat (task_count cfg) < 2 ^ 63" "run_by_workers draws cfg wd st g devices s"
  obtains p devices' edges s1 s4 where
    "runExperiment sqrt_of draws cfg wd st g devices s = Inr (p, g + unat (edge_node_count cfg), devices', exec_stop s4)"
    "collect sqrt_of (elapsed wd) (exec_stop s4) = Inr p" "devices' \<noteq> []"
    "setup_experiment draws g (unat (edge_node_count cfg)) st (cfg_scheduling cfg) s = Inr (edges, g + unat (edge_node_count cfg), s1)"
    "reachable s1 (s4, P_Idle, \<lambda>_. W_Idle)" "next_task s4 = next_task s + unat (task_count cfg)"
proof -
  obtain edges s1 where began: "setup_experiment draws g (unat (edge_node_count cfg)) st (cfg_scheduling cfg) s =
      Inr (edges, g + unat (edge_node_count cfg), s1)"
    using setup_ready by blast
  note start = setup_may_begin [OF assms(1,2) began]
  have ok: "sys_ok (s1, P_Idle, \<lambda>_. W_Idle)" using start(1) by (simp add: begin_ok_def)
  obtain w2 where w2: "turns_to cfg (turns wd) 0 (unat (task_count cfg)) devices s1 (\<lambda>_. W_Idle) w2"
    using assms(5) began by (auto simp: run_by_workers_def)
  obtain devices' s2 where loop: "produce_loop cfg (turns wd) 0 (unat (task_count cfg)) devices s1 = Inr (devices', s2)" "devices' \<noteq> []"
    using produce_loop_runs [OF ok _ _ w2] assms(3,4) start(2) by auto
  let ?s3 = "drain_loop (in_polls wd) 0 (polls wd) edges s2"
  obtain w2 w3 where by_workers: "turns_to cfg (turns wd) 0 (unat (task_count cfg)) devices s1 (\<lambda>_. W_Idle) w2"
    "polls_to (in_polls wd) 0 (polls wd) edges s2 w2 w3" "(aside P_Idle)\<^sup>*\<^sup>* (?s3, w3) (joining wd ?s3, \<lambda>_. W_Idle)"
    using assms(5) began loop(1) by (auto simp: run_by_workers_def Let_def)
  let ?s4 = "joining wd ?s3"
  have first: "sys_step\<^sup>*\<^sup>* (s1, P_Idle, \<lambda>_. W_Idle) (s2, P_Idle, w2)" "next_task s2 = next_task s1 + unat (task_count cfg)"
    using produce_loop_runs [OF ok _ _ by_workers(1)] assms(3,4) start(2) loop(1) by auto
  have rest: "(aside P_Idle)\<^sup>*\<^sup>* (s2, w2) (?s4, \<lambda>_. W_Idle)"
    using rtranclp_trans [OF drain_runs [OF by_workers(2)] by_workers(3)] .
  have n: "next_task ?s4 = next_task s + unat (task_count cfg)" using aside_next_task [OF rest] first(2) start(2) by simp
  have "sys_step\<^sup>*\<^sup>* (s1, P_Idle, \<lambda>_. W_Idle) (?s4, P_Idle, \<lambda>_. W_Idle)" using rtranclp_trans [OF first(1)] aside_run [OF rest] by simp
  then have reach: "reachable s1 (?s4, P_Idle, \<lambda>_. W_Idle)"
    by (rule reachable_run [OF _ reachable.start]) (use n assms(4) in simp)
  have "None \<notin> snd ` set (exec_nodes (exec_stop ?s4))" using begin_ok_reachable(4) [OF start(1) reach] by (simp add: manned_def)
  then obtain p where p: "collect sqrt_of (elapsed wd) (exec_stop ?s4) = Inr p" using collect_returns by blast
  then have "runExperiment sqrt_of draws cfg wd st g devices s = Inr (p, g + unat (edge_node_count cfg), devices', exec_stop ?s4)"
    by (simp add: runExperiment_def began loop(1) Let_def)
  then show thesis by (rule that [OF _ p loop(2) began reach n])
qed

lemma experiment_outcome:
  assumes "may_begin s" "draws_ok draws g (unat (edge_node_count cfg))" "devices \<noteq> []"
    and "next_task s + unat (task_count cfg) < 2 ^ 63" "run_by_workers draws cfg wd st g devices s"
  shows "\<exists>p g' devices' s'. runExperiment sqrt_of draws cfg wd st g devices s = Inr (p, g', devices', s') \<and>
    next_task s' = next_task s + unat (task_count cfg) \<and>
    (\<forall>t. next_task s \<le> t \<and> t < next_task s' \<longrightarrow> settled s' t \<or> (\<exists>r\<in>registered s'. t \<in> set (task_queue (nodes s' r)))) \<and>
    (\<forall>r\<in>registered s'. rat_of (used_bandwidth_mbps (current_usage (nodes s' r))) =
       (\<Sum>t\<leftarrow>task_queue (nodes s' r). rat_of (bandwidth_mbps (reqs (tasks s' t))))) \<and>
    ((\<forall>r\<in>registered s'. task_queue (nodes s' r) = []) \<longrightarrow>
       unat (total_tasks_executed s') + unat (exec_tasks_failed s') + unat (failed_allocations s') = unat (task_count cfg))"
proof -
  obtain p devices' edges s1 s4 where
    run: "runExperiment sqrt_of draws cfg wd st g devices s = Inr (p, g + unat (edge_node_count cfg), devices', exec_stop s4)"
    and began: "setup_experiment draws g (unat (edge_node_count cfg)) st (cfg_scheduling cfg) s = Inr (edges, g + unat (edge_node_count cfg), s1)"
    and last: "reachable s1 (s4, P_Idle, \<lambda>_. W_Idle)" "next_task s4 = next_task s + unat (task_count cfg)"
    by (rule experiment_run [OF assms, of sqrt_of])
  note start = setup_may_begin [OF assms(1,2) began] setup_counters_zero [OF began]
  show ?thesis
    using run idle_summary [OF start(1,3) last(1)] last(2) start(2)
    by (intro exI [of _ p] exI [of _ "g + unat (edge_node_count cfg)"] exI [of _ devices'] exI [of _ "exec_stop s4"]) (simp add: settled_def)
qed


section \<open>A concrete experiment\<close>

text \<open>One camera, two nodes and one task, and workers that do nothing before they are joined.\<close>

definition demo_world :: world where
  "demo_world = \<lparr>turns = \<lambda>_. demo_turn, in_polls = \<lambda>_ s. s, polls = 1, joining = \<lambda>s. s, elapsed = dbl 1\<rparr>"

lemma default_profiles_again: "loadProfiles Open_Failed (initializeDefaultProfiles []) = initializeDefaultProfiles []"
  by (simp add: loadProfiles_def initializeDefaultProfiles_def map_put.simps)

lemma demo_json_can_begin: "can_begin demo_json"
  using demo_can_begin by (simp add: can_begin_def nodes_ok_def tasks_ok_def demo_json_def)

lemma demo_by_workers: "run_by_workers draws cfg demo_world st g devices s"
proof -
  have "turns_to cfg (\<lambda>_. demo_turn) i k ds s w w" for i k ds s w
    by (induction k arbitrary: i ds s) (auto split: sum.split intro: demo_turn_sleeps exI [of _ w])
  moreover have "polls_to (\<lambda>_ s. s) j k edges s w w" for j k edges s w
    by (induction k arbitrary: j) (auto intro: exI [of _ w])
  moreover have "drain_loop (\<lambda>_ s. s) j k edges s = s" for j k edges s by (induction k arbitrary: j) auto
  ultimately show ?thesis
    by (auto simp: run_by_workers_def demo_world_def Let_def split: sum.split intro!: exI [of _ "\<lambda>_. W_Idle"])
qed


text \<open>The experiment with one camera task, once the task has been dealt with.\<close>

theorem metrics_tell_the_truth_witness:
  "\<exists>s0 s1 w p. reachable s0 (s1 :: unit executor, P_Idle, w) \<and> next_task s1 = 1 \<and> collect (\<lambda>x. x) 1 s1 = Inr p \<and>
     deadline_miss_rate_percent p = percentage (card (ended 0 s1 FAILED)) (card (ended 0 s1 COMPLETED) + card (ended 0 s1 FAILED))"
proof -
  obtain edges g' s0 s1 where run: "setup_experiment demo_draws 0 2 ROUND_ROBIN ''edf'' demo_begin = Inr (edges, g', s0)"
    "reachable s0 (s1, P_Created 0, \<lambda>_. W_Idle)" "next_task s1 = 1" by (rule demo_created)
  note begins = setup_begin_ok(1,3) [OF demo_can_begin demo_draws_good run(1)]
  obtain s2 q w where last: "reachable s0 (s2, q, w)" "quiescent (s2, q, w)" "next_task s2 = 1"
    using reachable_drain [OF run(2) begins] run(3) by auto
  have "\<not> held (s2, q, w) t L_Producer" for t using last(2) by (simp only: quiescent_def) blast
  then have q: "q = P_Idle" by (cases q) auto
  have "None \<notin> snd ` set (exec_nodes s2)" using begin_ok_reachable(4) [OF begins(1) last(1)] by (simp add: manned_def)
  then obtain p where "collect (\<lambda>x. x) 1 s2 = Inr p" using collect_returns by blast
  with metrics_tell_the_truth [OF demo_can_begin demo_draws_good run(1) last(1) [unfolded q] this refl refl] last(1,3) q
  show ?thesis by auto
qed

end
