(* ===== verification/Live_Simulation.thy ===== *)
theory Live_Simulation
  imports Live_Runtime Whole_Experiment Persistence
begin

text \<open>
  The runtime behind the web interface is the same simulation: its processing thread, with the workers,
  the server that configures it and the main thread that stops it, makes the steps of the simulation.
  So what holds in every state the simulation can reach holds of the running web program too.
\<close>

section \<open>What the other threads do meanwhile\<close>

definition chosen :: "runtime \<Rightarrow> runtime" where
  "chosen s = (if automatic_mode (rt_config s) then chooseRecommendedConfiguration s else s)"

definition live_turn_to :: "runtime turn \<Rightarrow> nat \<Rightarrow> runtime \<Rightarrow> (nref \<Rightarrow> worker) \<Rightarrow> (nref \<Rightarrow> worker) \<Rightarrow> bool" where
  "live_turn_to e i s w w1 \<longleftrightarrow>
     (case produce_task e i (rt_devices (chosen s)) (chosen s) of
        Inl f \<Rightarrow> w1 = w
      | Inr (t, ds, s1) \<Rightarrow>
          (let s2 = s1\<lparr>rt_devices := ds, generated_tasks := of_nat (i + 1)\<rparr>
           in sleeps_to (asleep e) 0 max_retries t (s2\<lparr>total_allocations := total_allocations s2 + 1\<rparr>) w w1))"

fun live_loop_to :: "(nat \<Rightarrow> runtime \<Rightarrow> runtime) \<Rightarrow> (nat \<Rightarrow> runtime turn \<times> int) \<Rightarrow> nat \<Rightarrow> nat \<Rightarrow> int \<Rightarrow> runtime \<Rightarrow> (nref \<Rightarrow> worker) \<Rightarrow>
    (nref \<Rightarrow> worker) \<Rightarrow> bool" where
  "live_loop_to before es i 0 last_snapshot s w w1 \<longleftrightarrow> w1 = w"
| "live_loop_to before es i (Suc k) last_snapshot s w w1 \<longleftrightarrow>
     (\<exists>w'. (aside P_Idle)\<^sup>*\<^sup>* (s, w) (before i s, w') \<and>
       (if stop_requested (before i s) then w1 = w'
        else \<exists>w''. live_turn_to (fst (es i)) i (before i s) w' w'' \<and>
          (case live_turn (fst (es i)) (snd (es i)) i last_snapshot (before i s) of
             Inl f \<Rightarrow> w1 = w''
           | Inr (last', s') \<Rightarrow> live_loop_to before es (Suc i) k last' s' w'' w1)))"

fun live_drain_to :: "(nat \<Rightarrow> runtime \<Rightarrow> runtime) \<Rightarrow> nat \<Rightarrow> nat \<Rightarrow> runtime \<Rightarrow> (nref \<Rightarrow> worker) \<Rightarrow> (nref \<Rightarrow> worker) \<Rightarrow> bool" where
  "live_drain_to others j 0 s w w1 \<longleftrightarrow> w1 = w"
| "live_drain_to others j (Suc k) s w w1 \<longleftrightarrow>
     (if stop_requested s \<or> \<not> any_queued (rt_edges s) s \<and> active_tasks s = [] then w1 = w
      else \<exists>w'. (aside P_Idle)\<^sup>*\<^sup>* (recordResourceSnapshots s, w) (others j (recordResourceSnapshots s), w') \<and>
        live_drain_to others (Suc j) k (others j (recordResourceSnapshots s)) w' w1)"

definition processed_by_workers :: "(nat \<Rightarrow> runtime \<Rightarrow> runtime) \<Rightarrow> (nat \<Rightarrow> runtime turn \<times> int) \<Rightarrow> (nat \<Rightarrow> runtime \<Rightarrow> runtime) \<Rightarrow> nat \<Rightarrow> int \<Rightarrow>
    runtime \<Rightarrow> (nref \<Rightarrow> worker) \<Rightarrow> (nref \<Rightarrow> worker) \<Rightarrow> bool" where
  "processed_by_workers before es others k start s w w1 \<longleftrightarrow>
     (\<exists>w'. live_loop_to before es 0 (unat (task_count (rt_config s))) start s w w' \<and>
       (case live_loop before es 0 (unat (task_count (rt_config s))) start s of
          Inl f \<Rightarrow> w1 = w'
        | Inr s1 \<Rightarrow> live_drain_to others 0 k s1 w' w1))"

text \<open>The devices are only written by the processing thread.\<close>

definition devices_kept :: "(nat \<Rightarrow> runtime \<Rightarrow> runtime) \<Rightarrow> (nat \<Rightarrow> runtime turn \<times> int) \<Rightarrow> bool" where
  "devices_kept before es \<longleftrightarrow> (\<forall>i s. rt_devices (before i s) = rt_devices s) \<and>
     (\<forall>i a s. rt_devices (asleep (fst (es i)) a s) = rt_devices s)"

section \<open>The processing thread makes steps of the simulation\<close>

lemma chosen_run: "sys_step\<^sup>*\<^sup>* (s, P_Idle, w) (chosen s, P_Idle, w)"
  by (auto simp: chosen_def chooseRecommendedConfiguration_def Let_def case_prod_beta intro!: r_into_rtranclp sys_step.configure)

lemma chosen_simps [simp]: "rt_devices (chosen s) = rt_devices s" "next_task (chosen s) = next_task s"
  by (auto simp: chosen_def chooseRecommendedConfiguration_def Let_def case_prod_beta setSchedStrategy_def setStrategy_def)

lemma snapshots_aside: "(aside P_Idle)\<^sup>*\<^sup>* (s, w) (recordResourceSnapshots s, w)"
proof -
  have "(aside P_Idle)\<^sup>*\<^sup>* (s, w)
    (fold (\<lambda>r s. db (Db_saveResourceSnapshot (edge_id (nodes s r)) (current_usage (nodes s r)) (getQueueLength (nodes s r))) s) rs s, w)" for rs
  proof (induction rs arbitrary: s)
    case (Cons r rs)
    have "aside P_Idle (s, w) (db (Db_saveResourceSnapshot (edge_id (nodes s r)) (current_usage (nodes s r)) (getQueueLength (nodes s r))) s, w)"
      unfolding aside_def fst_conv snd_conv by (rule sys_step.snapshot)
    then show ?case using Cons.IH by (auto intro: converse_rtranclp_into_rtranclp)
  qed simp
  then show ?thesis by (simp add: recordResourceSnapshots_def)
qed

lemma outside_aside: "executor.truncate s' = executor.truncate s \<Longrightarrow> aside p (s, w) (s', w)"
  by (simp add: aside_def sys_step.outside)

lemma live_turn_runs:
  assumes "live_turn e now i last_snapshot s = Inr (last', s')" "live_turn_to e i s w w1"
  shows "sys_step\<^sup>*\<^sup>* (s, P_Idle, w) (s', P_Idle, w1)" "next_task s' = Suc (next_task s)"
proof -
  obtain t ds s1 s2 where turn: "produce_task e i (rt_devices (chosen s)) (chosen s) = Inr (t, ds, s1)"
    "place_task (asleep e) (\<lambda>s. allocationToString (strategy s)) t (s1\<lparr>rt_devices := ds, generated_tasks := of_nat (i + 1)\<rparr>) = Inr s2"
    and last: "s' = recordResourceSnapshots s2 \<or> s' = s2"
    using assms(1) by (auto simp: live_turn_def Let_def chosen_def [symmetric] bind_sum_Inr split: if_splits)
  let ?s1 = "s1\<lparr>rt_devices := ds, generated_tasks := of_nat (i + 1)\<rparr>"
  have "sys_step (s1, P_Created t, w) (?s1, P_Created t, w)"
    by (rule sys_step.outside) (simp add: executor.truncate_def)
  moreover have place: "sys_step\<^sup>*\<^sup>* (?s1, P_Created t, w) (s2, P_Idle, w1)" "next_task s2 = next_task ?s1"
    using place_task_runs [OF turn(2)] assms(2) turn(1) by (auto simp: live_turn_to_def Let_def)
  ultimately have "sys_step\<^sup>*\<^sup>* (chosen s, P_Idle, w) (s2, P_Idle, w1)"
    using produce_task_step [OF turn(1)] by (meson converse_rtranclp_into_rtranclp)
  moreover have "(aside P_Idle)\<^sup>*\<^sup>* (s2, w1) (s', w1)" using last snapshots_aside by auto
  ultimately show "sys_step\<^sup>*\<^sup>* (s, P_Idle, w) (s', P_Idle, w1)"
    using chosen_run [of s w] aside_run [of P_Idle "(s2, w1)" "(s', w1)"] by (auto intro: rtranclp_trans)
  show "next_task s' = Suc (next_task s)"
    using place(2) produce_task_next [OF turn(1)] aside_next_task [OF \<open>(aside P_Idle)\<^sup>*\<^sup>* (s2, w1) (s', w1)\<close>] by simp
qed

section \<open>It never faults\<close>

lemma run_strategy_devices: "run_strategy t s = Inr (result, s') \<Longrightarrow> rt_devices s' = rt_devices s"
  by (auto simp: run_strategy_def allocateRoundRobin_def allocateLeastLoad_def allocatePriorityBased_def upd_node_def
      allocateMultiConstraint_def Let_def case_prod_beta split: if_splits option.splits allocation_strategy.splits)

lemma retry_devices:
  fixes s :: runtime
  assumes "retry_loop sleep a l t s = Inr (q, s')" "\<And>a s. rt_devices (sleep a s) = rt_devices s"
  shows "rt_devices s' = rt_devices s"
  using assms(1)
proof (induction l arbitrary: a s)
  case 0
  then show ?case
    by (subst (asm) retry_loop.simps)
      (auto simp: bind_sum_Inr granted_def refused_def Let_def upd_task_def db_def split: if_splits dest: run_strategy_devices)
next
  case (Suc l)
  obtain q' s1 where r: "run_strategy t s = Inr (q', s1)" using Suc.prems by (subst (asm) retry_loop.simps) (auto simp: bind_sum_Inr)
  show ?case
  proof (cases "success q' \<or> reason q' = ''Unknown allocation strategy'' \<or> edge_nodes s1 = []")
    case True
    then show ?thesis using Suc.prems r run_strategy_devices [OF r]
      by (subst (asm) retry_loop.simps) (auto simp: granted_def refused_def Let_def upd_task_def db_def split: if_splits)
  next
    case False
    then have "retry_loop sleep (Suc a) l t (sleep a s1) = Inr (q, s')" using Suc.prems r by (subst (asm) retry_loop.simps) simp
    from Suc.IH [OF this] show ?thesis using assms(2) run_strategy_devices [OF r] by simp
  qed
qed

lemma place_task_devices:
  fixes s :: runtime
  assumes "place_task sleep label t s = Inr s'" "\<And>a s. rt_devices (sleep a s) = rt_devices s"
  shows "rt_devices s' = rt_devices s"
  using assms(1) retry_devices [OF _ assms(2)]
  by (fastforce simp: place_task_def allocateTaskWithRetry_def bind_sum_Inr Let_def scheduleTask_def upd_task_def upd_node_def db_def
      split: if_splits option.splits)

lemma snapshot_devices [simp]: "rt_devices (recordResourceSnapshots s) = rt_devices s"
proof -
  have "rt_devices (fold (\<lambda>r s. db (Db_saveResourceSnapshot (edge_id (nodes s r)) (current_usage (nodes s r)) (getQueueLength (nodes s r))) s) rs s) =
      rt_devices s" for rs
    by (induction rs arbitrary: s) (simp_all add: db_def)
  then show ?thesis by (simp add: recordResourceSnapshots_def)
qed

lemma live_turn_returns:
  assumes "sys_ok (s, P_Idle, w)" "Suc (next_task s) < 2 ^ 63" "rt_devices s \<noteq> []" "live_turn_to e i s w w1"
    and "\<And>a s. rt_devices (asleep e a s) = rt_devices s"
  shows "\<exists>last' s'. live_turn e now i last_snapshot s = Inr (last', s') \<and> rt_devices s' \<noteq> []"
proof -
  obtain t ds s1 where p: "produce_task e i (rt_devices (chosen s)) (chosen s) = Inr (t, ds, s1)" "ds \<noteq> []"
    using assms(3) by (auto simp: produce_task_def Let_def case_prod_beta create_no_callback)
  let ?s1 = "s1\<lparr>rt_devices := ds, generated_tasks := of_nat (i + 1)\<rparr>"
  have n: "next_task s1 < 2 ^ 63" using produce_task_next [OF p(1)] assms(2) by simp
  have "sys_step\<^sup>*\<^sup>* (s, P_Idle, w) (s1, P_Created t, w)"
    using chosen_run [of s w] produce_task_step [OF p(1), of w] by (rule rtranclp.rtrancl_into_rtrancl)
  moreover have "sys_step (s1, P_Created t, w) (?s1, P_Created t, w)"
    by (rule sys_step.outside) (simp add: executor.truncate_def)
  ultimately have "sys_step\<^sup>*\<^sup>* (s, P_Idle, w) (?s1, P_Created t, w)" by (rule rtranclp.rtrancl_into_rtrancl)
  then have ok: "sys_ok (?s1, P_Created t, w)" using sys_ok_run [OF _ assms(1)] n by simp
  have sleeps: "sleeps_to (asleep e) 0 max_retries t (?s1\<lparr>total_allocations := total_allocations ?s1 + 1\<rparr>) w w1"
    using assms(4) p(1) by (simp add: live_turn_to_def Let_def)
  obtain s2 where s2: "place_task (asleep e) (\<lambda>s. allocationToString (strategy s)) t ?s1 = Inr s2"
    using place_task_returns [OF ok _ sleeps] n by auto
  have "rt_devices s2 \<noteq> []" using place_task_devices [OF s2 assms(5)] p(2) by simp
  then show ?thesis using p(1) s2 by (simp add: live_turn_def Let_def chosen_def [symmetric])
qed

lemma live_loop_runs:
  assumes "sys_ok (s, P_Idle, w)" "next_task s + k < 2 ^ 63" "rt_devices s \<noteq> []" "live_loop_to before es i k last_snapshot s w w1"
    and kept: "devices_kept before es"
  shows "\<exists>s'. live_loop before es i k last_snapshot s = Inr s' \<and> sys_step\<^sup>*\<^sup>* (s, P_Idle, w) (s', P_Idle, w1) \<and>
    next_task s' \<le> next_task s + k"
  using assms(1-4)
proof (induction k arbitrary: i last_snapshot s w)
  case (Suc k)
  let ?s = "before i s"
  obtain w' where w': "(aside P_Idle)\<^sup>*\<^sup>* (s, w) (?s, w')"
    and turn_to: "\<not> stop_requested ?s \<Longrightarrow> \<exists>w''. live_turn_to (fst (es i)) i ?s w' w'' \<and>
          (case live_turn (fst (es i)) (snd (es i)) i last_snapshot ?s of
             Inl f \<Rightarrow> w1 = w''
           | Inr (last', s') \<Rightarrow> live_loop_to before es (Suc i) k last' s' w'' w1)"
    and halt: "stop_requested ?s \<Longrightarrow> w1 = w'"
    using Suc.prems(4) by (auto split: if_splits)
  have run: "sys_step\<^sup>*\<^sup>* (s, P_Idle, w) (?s, P_Idle, w')" "next_task ?s = next_task s"
    using aside_run [OF w'] aside_next_task [OF w'] by simp_all
  show ?case
  proof (cases "stop_requested ?s")
    case True
    then show ?thesis using run halt by simp
  next
    case False
    obtain w'' where w'': "live_turn_to (fst (es i)) i ?s w' w''"
      "case live_turn (fst (es i)) (snd (es i)) i last_snapshot ?s of Inl f \<Rightarrow> w1 = w''
        | Inr (last', s') \<Rightarrow> live_loop_to before es (Suc i) k last' s' w'' w1"
      using turn_to [OF False] by blast
    have ok: "sys_ok (?s, P_Idle, w')" using sys_ok_run [OF run(1) Suc.prems(1)] run(2) Suc.prems(2) by simp
    have "rt_devices ?s \<noteq> []" using Suc.prems(3) kept by (simp add: devices_kept_def)
    then obtain last' s1 where turn: "live_turn (fst (es i)) (snd (es i)) i last_snapshot ?s = Inr (last', s1)" "rt_devices s1 \<noteq> []"
      using live_turn_returns [OF ok _ _ w''(1)] run(2) Suc.prems(2) kept by (fastforce simp: devices_kept_def)
    note step = live_turn_runs [OF turn(1) w''(1)]
    have "sys_ok (s1, P_Idle, w'')" using sys_ok_run [OF step(1) ok] step(2) run(2) Suc.prems(2) by simp
    moreover have "live_loop_to before es (Suc i) k last' s1 w'' w1" using w''(2) turn(1) by simp
    ultimately obtain s' where rest: "live_loop before es (Suc i) k last' s1 = Inr s'" "sys_step\<^sup>*\<^sup>* (s1, P_Idle, w'') (s', P_Idle, w1)"
      "next_task s' \<le> next_task s1 + k"
      using Suc.IH [of s1 w''] step(2) run(2) Suc.prems(2) turn(2) by auto
    have "sys_step\<^sup>*\<^sup>* (s, P_Idle, w) (s', P_Idle, w1)" using run(1) step(1) rest(2) by (meson rtranclp_trans)
    then show ?thesis using False turn(1) rest step(2) run(2) by simp
  qed
qed simp

lemma live_drain_runs: "live_drain_to others j k s w w1 \<Longrightarrow> (aside P_Idle)\<^sup>*\<^sup>* (s, w) (live_drain others j k s, w1)"
proof (induction others j k s arbitrary: w rule: live_drain.induct)
  case (2 others j k s)
  show ?case
  proof (cases "stop_requested s \<or> \<not> any_queued (rt_edges s) s \<and> active_tasks s = []")
    case False
    let ?s1 = "recordResourceSnapshots s"
    obtain w' where w': "(aside P_Idle)\<^sup>*\<^sup>* (?s1, w) (others j ?s1, w')" "live_drain_to others (Suc j) k (others j ?s1) w' w1"
      using "2.prems" False by auto
    have rest: "(aside P_Idle)\<^sup>*\<^sup>* (others j ?s1, w') (live_drain others (Suc j) k (others j ?s1), w1)"
      using False by (intro "2.IH" w'(2)) auto
    have "live_drain others j (Suc k) s = live_drain others (Suc j) k (others j ?s1)" using False by auto
    then show ?thesis using rtranclp_trans [OF rtranclp_trans [OF snapshots_aside w'(1)] rest] by simp
  qed (use "2.prems" in auto)
qed simp

lemma processingLoop_runs:
  assumes "sys_ok (s, P_Idle, w)" "next_task s + unat (task_count (rt_config s)) < 2 ^ 63" "rt_devices s \<noteq> []"
    and "processed_by_workers before es others k start s w w1" "devices_kept before es"
  shows "\<exists>s'. processingLoop before es others k start s = Inr s' \<and> sys_step\<^sup>*\<^sup>* (s, P_Idle, w) (s', P_Idle, w1) \<and>
    next_task s' \<le> next_task s + unat (task_count (rt_config s)) \<and> processing_complete s' \<and> \<not> rt_running s'"
proof -
  obtain w' where w': "live_loop_to before es 0 (unat (task_count (rt_config s))) start s w w'"
    "case live_loop before es 0 (unat (task_count (rt_config s))) start s of Inl f \<Rightarrow> w1 = w' | Inr s1 \<Rightarrow> live_drain_to others 0 k s1 w' w1"
    using assms(4) by (auto simp: processed_by_workers_def)
  obtain s1 where s1: "live_loop before es 0 (unat (task_count (rt_config s))) start s = Inr s1" "sys_step\<^sup>*\<^sup>* (s, P_Idle, w) (s1, P_Idle, w')"
    "next_task s1 \<le> next_task s + unat (task_count (rt_config s))"
    using live_loop_runs [OF assms(1-3) w'(1) assms(5)] by blast
  let ?s2 = "live_drain others 0 k s1" and ?s' = "(live_drain others 0 k s1)\<lparr>processing_complete := True, rt_running := False\<rparr>"
  have drain: "(aside P_Idle)\<^sup>*\<^sup>* (s1, w') (?s2, w1)" using w'(2) s1(1) live_drain_runs by simp
  have "aside P_Idle (?s2, w1) (?s', w1)" by (rule outside_aside) (simp add: executor.truncate_def)
  then have rest: "(aside P_Idle)\<^sup>*\<^sup>* (s1, w') (?s', w1)" using drain by (rule rtranclp.rtrancl_into_rtrancl [rotated])
  have "sys_step\<^sup>*\<^sup>* (s, P_Idle, w) (?s', P_Idle, w1)" using rtranclp_trans [OF s1(2)] aside_run [OF rest] by simp
  then show ?thesis using s1(1,3) aside_next_task [OF rest] by (simp add: processingLoop_def)
qed

section \<open>The runtime begins like an experiment\<close>

lemma more_fields:
  fixes s s' :: runtime
  assumes "monitor.more s = monitor.more s'"
  shows "components_set s = components_set s'" "rt_config s = rt_config s'" "rt_running s = rt_running s'" "thread_joinable s = thread_joinable s'"
  using assms by (cases s; cases s'; simp)+

lemma initialized:
  assumes "rt_initialize L draws clk src g cfg s D = Inr (True, g', s1, D1)"
  shows "\<exists>s5 m. s1 = (if automatic_mode cfg then chooseRecommendedConfiguration s5 else s5) \<and> components_set s5 \<and> exec_nodes s5 = m \<and>
    \<not> nodes_mutex s5 \<and> next_node s5 = next_node s + unat (edge_node_count cfg) \<and> map_ok (edge_nodes s5) \<and>
    map_of (edge_nodes s5) = map_of (fleet_list (next_node s) (unat (edge_node_count cfg))) \<and>
    (\<forall>j<unat (edge_node_count cfg). nodes s5 (next_node s + j) = new_edge_node (node_name j) (drawn_capacity (draws (g + j)))) \<and>
    map_ok m \<and> map_of m = map_of (rev (fleet_list (next_node s) (unat (edge_node_count cfg)))) \<and>
    (\<forall>r. r < next_node s \<or> next_node s + unat (edge_node_count cfg) \<le> r \<longrightarrow> nodes s5 r = nodes s r) \<and>
    tasks s5 = tasks s \<and> next_task s5 = next_task s \<and> profile_map s5 = loadProfiles src (profile_map s) \<and>
    workers s5 = [] \<and> \<not> is_running s5 \<and> weights s5 = default_weights \<and> task_counter s5 = 0 \<and> counters_zero s5 \<and>
    rt_devices s5 \<noteq> [] \<and> rt_config s5 = cfg \<and> rt_running s5 = rt_running s \<and> thread_joinable s5 = thread_joinable s \<and>
    (\<exists>new. db_calls s5 = db_calls s @ new \<and> (\<forall>c\<in>set new. names_task c = None))"
proof -
  let ?n = "unat (edge_node_count cfg)" and ?r0 = "next_node s"
  define P where "P = save_profiles (s\<lparr>rt_config := cfg, profile_map := loadProfiles src (profile_map s)\<rparr>)"
  obtain st sst D2 where go: "device_count cfg \<noteq> 0" "allocationFromString (cfg_strategy cfg) = (st, True)"
    "rt_schedulingFromString (cfg_scheduling cfg) = (sst, True)"
    and s1: "bind_sum (makeEdges draws g ?n (rt_new_workers st sst (rt_new_monitor P))) (\<lambda>(edges, g', s2).
        let (devices, s3) = makeDevices clk (unat (device_count cfg)) (s2\<lparr>rt_edges := edges\<rparr>);
            s4 = fold (\<lambda>r. exec_registerEdgeNode (Some r)) edges (s3\<lparr>rt_devices := devices\<rparr>);
            s5 = s4\<lparr>generated_tasks := 0, processing_complete := False, stop_requested := False\<rparr>
        in Inr (True, g', if automatic_mode cfg then chooseRecommendedConfiguration s5 else s5, D2)) = Inr (True, g', s1, D1)"
    using assms unfolding P_def by (auto simp: rt_initialize_def Let_def split: if_splits prod.splits bool.splits)
  let ?p = "s\<lparr>rt_config := cfg, profile_map := loadProfiles src (profile_map s)\<rparr>"
  obtain calls where P: "P = s\<lparr>rt_config := cfg, profile_map := loadProfiles src (profile_map s), db_calls := db_calls s @ calls\<rparr>"
    and unnamed: "\<forall>c\<in>set calls. names_task c = None"
    using save_profiles_only [of ?p] unfolding P_def by auto
  let ?w = "rt_new_workers st sst (rt_new_monitor P)"
  have w: "\<not> nodes_mutex ?w" "edge_nodes ?w = []" "next_node ?w = ?r0" "nodes ?w = nodes s" "tasks ?w = tasks s" "next_task ?w = next_task s"
    by (simp_all add: rt_component_defs P)
  obtain s2 where s2: "makeEdges draws g ?n ?w = Inr ([?r0..<?r0 + ?n], g + ?n, s2)" "\<not> nodes_mutex s2"
    "next_node s2 = ?r0 + ?n" "tasks s2 = tasks s" "next_task s2 = next_task s" "monitor.more s2 = monitor.more ?w"
    "\<forall>r. r < ?r0 \<or> ?r0 + ?n \<le> r \<longrightarrow> nodes s2 r = nodes s r"
    "\<forall>j<?n. nodes s2 (?r0 + j) = new_edge_node (node_name j) (drawn_capacity (draws (g + j)))"
    "map_of (edge_nodes s2) = map_of (fleet_list ?r0 ?n)" "map_ok (edge_nodes s2)"
    using fleet_created [OF w(1,2), of draws g ?n] unfolding w(3-6) makeEdges_def by auto
  have more: "exec_nodes s2 = []" "workers s2 = []" "\<not> is_running s2" "weights s2 = default_weights" "task_counter s2 = 0"
    "profile_map s2 = loadProfiles src (profile_map s)" "counters_zero s2" "components_set s2" "rt_config s2 = cfg" "rt_running s2 = rt_running s" "thread_joinable s2 = thread_joinable s"
    by (simp_all add: more_fields [OF s2(6)] more_parts [OF s2(6)] rt_component_defs P counters_zero_def)
  obtain ds s3 where ds: "makeDevices clk (unat (device_count cfg)) (s2\<lparr>rt_edges := [?r0..<?r0 + ?n]\<rparr>) = (ds, s3)" by fastforce
  note spec = create_devices_spec [OF ds [unfolded makeDevices_def]]
  obtain new where new: "db_calls s2 = db_calls ?w @ new" "\<forall>c\<in>set new. names_task c = None"
    using create_nodes_calls [OF s2(1) [unfolded makeEdges_def]] by blast
  have calls: "\<exists>new. db_calls s3 = db_calls s @ new \<and> (\<forall>c\<in>set new. names_task c = None)"
    using spec new unnamed
    by (intro exI [of _ "calls @ new @ map (\<lambda>j. Db_saveDevice (device_name j) (type_string (cfg_type (device_cfg j)))) [0..<0 + unat (device_count cfg)]"])
      (auto simp: rt_component_defs P)
  have "length ds = unat (device_count cfg)" using spec by simp
  then have "ds \<noteq> []" using go(1) by (auto simp: unat_eq_zero)
  obtain m where m: "fold (\<lambda>r. exec_registerEdgeNode (Some r)) [?r0..<?r0 + ?n] (s3\<lparr>rt_devices := ds\<rparr>) = s3\<lparr>rt_devices := ds, exec_nodes := m\<rparr>"
    "map_ok m" "map_of m = map_of (rev (fleet_list ?r0 ?n))"
    using fleet_registered [of "s3\<lparr>rt_devices := ds\<rparr>" ?n ?r0] s2(8) more(1) spec by (auto simp: new_edge_node_def)
  let ?s5 = "s3\<lparr>rt_devices := ds, exec_nodes := m, generated_tasks := 0, processing_complete := False, stop_requested := False\<rparr>"
  have "s1 = (if automatic_mode cfg then chooseRecommendedConfiguration ?s5 else ?s5)"
    using s1 by (simp add: s2(1) ds m(1) Let_def cong: if_cong)
  moreover have "counters_zero ?s5" using more(7) spec by (simp add: counters_zero_def)
  ultimately show ?thesis
    using spec s2 more m calls \<open>ds \<noteq> []\<close> by (intro exI [of _ ?s5] exI [of _ m]) simp
qed

lemma ready_outside:
  assumes "ready r0 n draws s" "executor.truncate s' = executor.truncate s"
  shows "ready r0 n draws s'"
proof -
  have counter: "task_counter s' = task_counter s" using assms(2) by (simp add: executor.truncate_def)
  show ?thesis
    using assms(1) unfolding ready_def monitor_ok_def registered_def same_components [OF assms(2)] same_counters [OF assms(2)] counter .
qed

lemma web_started:
  assumes "rt_initialize L draws clk src g cfg s D = Inr (True, g', s1, D1)" "\<not> rt_running s"
  shows "\<exists>s2. rt_start now s1 = (if thread_joinable s then Inl Terminate else Inr (True, s2)) \<and>
    ready (next_node s) (unat (edge_node_count cfg)) (\<lambda>j. draws (g + j)) s2 \<and>
    (\<forall>r. r < next_node s \<or> next_node s + unat (edge_node_count cfg) \<le> r \<longrightarrow> nodes s2 r = nodes s r) \<and>
    tasks s2 = tasks s \<and> next_task s2 = next_task s \<and> profile_map s2 = loadProfiles src (profile_map s) \<and> counters_zero s2 \<and>
    rt_devices s2 \<noteq> [] \<and> rt_config s2 = cfg \<and> components_set s2 \<and>
    (\<exists>new. db_calls s2 = db_calls s @ new \<and> (\<forall>c\<in>set new. names_task c = None))"
proof -
  let ?n = "unat (edge_node_count cfg)" and ?r0 = "next_node s"
  obtain s5 where s1: "s1 = (if automatic_mode cfg then chooseRecommendedConfiguration s5 else s5)" and five: "components_set s5"
    "\<not> nodes_mutex s5" "next_node s5 = ?r0 + ?n" "map_ok (edge_nodes s5)" "map_of (edge_nodes s5) = map_of (fleet_list ?r0 ?n)"
    "\<forall>j<?n. nodes s5 (?r0 + j) = new_edge_node (node_name j) (drawn_capacity (draws (g + j)))"
    "map_ok (exec_nodes s5)" "map_of (exec_nodes s5) = map_of (rev (fleet_list ?r0 ?n))"
    "\<forall>r. r < ?r0 \<or> ?r0 + ?n \<le> r \<longrightarrow> nodes s5 r = nodes s r"
    "tasks s5 = tasks s" "next_task s5 = next_task s" "profile_map s5 = loadProfiles src (profile_map s)"
    "workers s5 = []" "\<not> is_running s5" "weights s5 = default_weights" "task_counter s5 = 0" "counters_zero s5"
    "rt_devices s5 \<noteq> []" "rt_config s5 = cfg" "rt_running s5 = rt_running s" "thread_joinable s5 = thread_joinable s"
    "\<exists>new. db_calls s5 = db_calls s @ new \<and> (\<forall>c\<in>set new. names_task c = None)"
    using initialized [OF assms(1)] by blast
  define s6 where "s6 = s1\<lparr>rt_running := True, stop_requested := False, processing_complete := False, start_time := now\<rparr>"
  have six: "components_set s6 = components_set s5" "nodes_mutex s6 = nodes_mutex s5" "next_node s6 = next_node s5" "edge_nodes s6 = edge_nodes s5"
    "nodes s6 = nodes s5" "exec_nodes s6 = exec_nodes s5" "tasks s6 = tasks s5" "next_task s6 = next_task s5" "profile_map s6 = profile_map s5"
    "workers s6 = workers s5" "is_running s6 = is_running s5" "weights s6 = weights s5" "task_counter s6 = task_counter s5"
    "counters_zero s6 = counters_zero s5" "rt_devices s6 = rt_devices s5" "rt_config s6 = rt_config s5" "rt_running s1 = rt_running s5"
    "components_set s1 = components_set s5" "thread_joinable s6 = thread_joinable s5" "db_calls s6 = db_calls s5"
    by (simp_all add: s6_def s1 chooseRecommendedConfiguration_def Let_def case_prod_beta setSchedStrategy_def setStrategy_def counters_zero_def)
  have zero: "total_allocations s6 = 0" using six five by (simp add: counters_zero_def)
  obtain ws where ws: "exec_start s6 = Inr (s6\<lparr>is_running := True, workers := ws\<rparr>)"
    "ready ?r0 ?n (\<lambda>j. draws (g + j)) (s6\<lparr>is_running := True, workers := ws\<rparr>)"
    using started_ready [of s6 ?r0 ?n "\<lambda>j. draws (g + j)"] five six zero by auto
  let ?s2 = "s6\<lparr>is_running := True, workers := ws, thread_joinable := True\<rparr>"
  have "rt_start now s1 = (if thread_joinable s then Inl Terminate else Inr (True, ?s2))"
    using assms(2) five(1,20,21) six(17-19) ws(1) by (simp add: rt_start_def s6_def [symmetric])
  moreover have "ready ?r0 ?n (\<lambda>j. draws (g + j)) ?s2" by (rule ready_outside [OF ws(2)]) (simp add: executor.truncate_def)
  moreover have "counters_zero ?s2" using five(17) six(14) by (simp add: counters_zero_def)
  ultimately show ?thesis using five six by (intro exI [of _ ?s2]) simp
qed

lemma web_begins:
  assumes "rt_initialize L draws clk src g cfg s D = Inr (True, g', s1, D1)" "rt_start now s1 = Inr (True, s2)" "\<not> rt_running s"
    and "can_begin (s\<lparr>profile_map := loadProfiles src (profile_map s)\<rparr>)" "draws_ok draws g (unat (edge_node_count cfg))"
  shows "begin_ok s2" "counters_zero s2" "next_task s2 = next_task s" "rt_devices s2 \<noteq> []" "rt_config s2 = cfg"
    "\<And>r. task_queue (nodes s2 r) = []" "components_set s2" "refs_ok (db_calls s) \<Longrightarrow> refs_ok (db_calls s2)"
proof -
  have ready: "ready (next_node s) (unat (edge_node_count cfg)) (\<lambda>j. draws (g + j)) s2"
    and old: "\<forall>r. r < next_node s \<or> next_node s + unat (edge_node_count cfg) \<le> r \<longrightarrow> nodes s2 r = nodes s r"
    and same: "tasks s2 = tasks s" "next_task s2 = next_task s" "profile_map s2 = loadProfiles src (profile_map s)" "counters_zero s2"
    "rt_devices s2 \<noteq> []" "rt_config s2 = cfg" "components_set s2"
    and calls: "\<exists>new. db_calls s2 = db_calls s @ new \<and> (\<forall>c\<in>set new. names_task c = None)"
    using web_started [OF assms(1,3), of now] assms(2) by (auto split: if_splits)
  show ok: "begin_ok s2" "counters_zero s2" "next_task s2 = next_task s" "rt_devices s2 \<noteq> []" "rt_config s2 = cfg"
    using ready_begins [OF can_may_begin [OF assms(4)] assms(5), of s2] ready old same by simp_all
  show "components_set s2" by (rule same(7))
  show "refs_ok (db_calls s2)" if "refs_ok (db_calls s)"
  proof -
    obtain new where "db_calls s2 = db_calls s @ new" "\<forall>c\<in>set new. names_task c = None" using calls by blast
    then show ?thesis using refs_ok_append [OF that, of new] by simp
  qed
  fix r
  have "nodes s2 r = nodes s r" if "r \<notin> registered s2" using that old ready by (auto simp: ready_def not_less not_le)
  then show "task_queue (nodes s2 r) = []"
    using ok(1) assms(4) by (cases "r \<in> registered s2") (simp_all add: begin_ok_def can_begin_def)
qed

section \<open>The web program accounts for everything\<close>

text \<open>C6: once the runtime has been initialized and started, its processing thread never faults, whatever the
  server and the workers do meanwhile. When it says that it is complete it has created at most the
  tasks of the configuration (fewer if it was stopped); each of them is in a queue or with a worker, has
  completed, failed or been refused; the bandwidth each node reserves is that of the tasks in its queue
  and with its worker; and every call the log of the database names its task in is after the one that
  stores the task. So changing the strategies while tasks are placed and run loses nothing.\<close>

theorem live_run_accounts_for_all:
  assumes "rt_initialize L draws clk src g cfg s D = Inr (True, g', s1, D1)" "rt_start now s1 = Inr (True, s2)" "\<not> rt_running s"
    and "can_begin (s\<lparr>profile_map := loadProfiles src (profile_map s)\<rparr>)" "draws_ok draws g (unat (edge_node_count cfg))"
    and "next_task s + unat (task_count cfg) < 2 ^ 63"
    and "processed_by_workers before es others k start s2 (\<lambda>_. W_Idle) w" "devices_kept before es"
  shows "\<exists>s'. processingLoop before es others k start s2 = Inr s' \<and> processing_complete s' \<and> \<not> rt_running s' \<and>
    next_task s' \<le> next_task s + unat (task_count cfg) \<and>
    (\<forall>t. next_task s \<le> t \<and> t < next_task s' \<longrightarrow> (\<exists>l. held (s', P_Idle, w) t l) \<or> settled s' t) \<and>
    (\<forall>r\<in>registered s'. rat_of (used_bandwidth_mbps (current_usage (nodes s' r))) =
       (\<Sum>t\<leftarrow>task_queue (nodes s' r). rat_of (bandwidth_mbps (reqs (tasks s' t)))) +
       (case w r of W_Idle \<Rightarrow> 0 | W_Running t e \<Rightarrow> rat_of (bandwidth_mbps (reqs (tasks s' t))))) \<and>
    (refs_ok (db_calls s2) \<longrightarrow> refs_ok (db_calls s'))"
proof -
  note start = web_begins [OF assms(1-5)]
  have ok: "sys_ok (s2, P_Idle, \<lambda>_. W_Idle)" using start(1) by (simp add: begin_ok_def)
  obtain s' where run: "processingLoop before es others k start s2 = Inr s'" "sys_step\<^sup>*\<^sup>* (s2, P_Idle, \<lambda>_. W_Idle) (s', P_Idle, w)"
    "next_task s' \<le> next_task s + unat (task_count cfg)" "processing_complete s'" "\<not> rt_running s'"
    using processingLoop_runs [OF ok _ start(4) assms(7,8)] start(3,5) assms(6) by auto
  have reach: "reachable s2 (s', P_Idle, w)"
    by (rule reachable_run [OF run(2) reachable.start]) (use run(3) assms(6) in simp)
  note inv = begin_ok_reachable [OF start(1) reach]
  have "rat_of (used_bandwidth_mbps (current_usage (nodes s' r))) =
       (\<Sum>t\<leftarrow>task_queue (nodes s' r). rat_of (bandwidth_mbps (reqs (tasks s' t)))) +
       (case w r of W_Idle \<Rightarrow> 0 | W_Running t e \<Rightarrow> rat_of (bandwidth_mbps (reqs (tasks s' t))))" if "r \<in> registered s'" for r
    using inv(2) that by (cases "w r") (simp_all add: bw_ok_def used_bw_def bw_def [abs_def])
  moreover have "\<forall>t. next_task s \<le> t \<and> t < next_task s' \<longrightarrow> (\<exists>l. held (s', P_Idle, w) t l) \<or> settled s' t"
    using inv(3) start(3) by (simp add: accounted_def)
  moreover have "refs_ok (db_calls s2) \<longrightarrow> refs_ok (db_calls s')" using begin_log_ok [OF start(1) log_ok_empty [OF _ start(6)] reach] by (simp add: log_ok_def)
  ultimately show ?thesis using run by blast
qed

section \<open>A concrete run\<close>

definition demo_rt :: runtime where
  "demo_rt = executor.extend demo_json (runtime.fields default_config False False [] [] False False False 0 False 0)"

definition demo_live_turn :: "runtime turn" where
  "demo_live_turn = \<lparr>draw = \<lambda>lo hi. lo, time_text = (8, ''12:00:00''), clock = 5, asleep = \<lambda>_ s. s, load_draws = \<lambda>_. (0, 0)\<rparr>"

lemma demo_live_by_workers: "processed_by_workers (\<lambda>_ s. s) (\<lambda>_. (demo_live_turn, 0)) (\<lambda>_ s. s) k 0 s w w"
proof -
  have t: "live_turn_to demo_live_turn i s w w" for i s
    by (auto simp: live_turn_to_def demo_live_turn_def Let_def same_sleeps split: sum.split)
  have "live_loop_to (\<lambda>_ s. s) (\<lambda>_. (demo_live_turn, 0)) i k last s w w" for i k last s
    by (induction k arbitrary: i last s) (auto split: sum.split intro!: t exI [of _ w])
  moreover have "live_drain_to (\<lambda>_ s. s) j k s w w" for j k s
    by (induction k arbitrary: j s) (auto intro: exI [of _ w] snapshots_aside)
  ultimately show ?thesis by (auto simp: processed_by_workers_def split: sum.split intro: exI [of _ w])
qed

lemma demo_rt_begins: "can_begin (demo_rt\<lparr>profile_map := loadProfiles Open_Failed (profile_map demo_rt)\<rparr>)" "\<not> rt_running demo_rt"
  "\<not> thread_joinable demo_rt" "next_task demo_rt = 0"
proof -
  have "profile_map demo_rt = initializeDefaultProfiles []" by (simp add: demo_rt_def demo_json_def executor.defs runtime.defs)
  then show "can_begin (demo_rt\<lparr>profile_map := loadProfiles Open_Failed (profile_map demo_rt)\<rparr>)"
    using demo_can_begin
    by (simp add: default_profiles_again can_begin_def nodes_ok_def tasks_ok_def demo_rt_def demo_json_def executor.defs runtime.defs)
qed (simp_all add: demo_rt_def demo_json_def executor.defs runtime.defs)

theorem live_run_accounts_for_all_witness:
  "\<exists>g' s1 D1 s2 s'. rt_initialize ok_lib demo_draws (\<lambda>_. 0) Open_Failed 0 (default_config\<lparr>edge_node_count := 2, task_count := 1\<rparr>) demo_rt
       \<lparr>conn = (), db_handle = None, db_initialized = False\<rparr> = Inr (True, g', s1, D1) \<and> rt_start 7 s1 = Inr (True, s2) \<and>
     processingLoop (\<lambda>_ s. s) (\<lambda>_. (demo_live_turn, 0)) (\<lambda>_ s. s) 1 0 s2 = Inr s' \<and> processing_complete s'"
proof -
  let ?D = "\<lparr>conn = (), db_handle = None, db_initialized = False\<rparr>" and ?cfg = "default_config\<lparr>edge_node_count := 2, task_count := 1\<rparr>"
  obtain D1 where D1: "db_initialize ok_lib (db_path ?cfg) ?D = (True, D1)" using ok_open(1) by (metis prod.collapse)
  obtain D2 where D2: "resetSimulationData ok_lib D1 = (True, D2)" using ok_open(2) by (metis prod.collapse)
  obtain g' s1 D3 where init: "rt_initialize ok_lib demo_draws (\<lambda>_. 0) Open_Failed 0 ?cfg demo_rt ?D = Inr (True, g', s1, D3)"
    using initialize_outcome [OF D1 D2, of demo_draws "\<lambda>_. 0" Open_Failed 0 demo_rt]
    by (auto simp: default_config_def allocationFromString_def rt_schedulingFromString_def)
  obtain s2 where start: "rt_start 7 s1 = Inr (True, s2)" using web_started [OF init demo_rt_begins(2), of 7] demo_rt_begins(3) by auto
  have "draws_ok demo_draws 0 (unat (edge_node_count ?cfg))" using demo_draws_good [of 2] by simp
  from live_run_accounts_for_all [OF init start demo_rt_begins(2,1) this _ demo_live_by_workers [of 1]]
  obtain s' where "processingLoop (\<lambda>_ s. s) (\<lambda>_. (demo_live_turn, 0)) (\<lambda>_ s. s) 1 0 s2 = Inr s'" "processing_complete s'"
    by (auto simp: demo_rt_begins(4) devices_kept_def demo_live_turn_def)
  then show ?thesis using init start by blast
qed

end
