(* ===== verification/Http_Message.thy ===== *)
theory Http_Message
  imports Config Text
begin

text \<open>
  The texts of \<^verbatim>\<open>http_api_server.cpp\<close>: percent decoding, reading a request off a connection, its
  header, and the response. What \<open>recv\<close> returns is a list of pieces in the order they arrive; an empty
  piece, or the end of the list, is a result that is zero or negative. Lengths stay far below the range
  of \<open>size_t\<close>, so they are natural numbers.
\<close>

section \<open>Percent decoding\<close>

definition hex :: "char \<Rightarrow> int" where
  "hex c = (let n = of_char c in
     if 48 \<le> n \<and> n \<le> 57 then n - 48
     else if 97 \<le> n \<and> n \<le> 102 then n - 97 + 10
     else if 65 \<le> n \<and> n \<le> 70 then n - 65 + 10
     else - 1)"

text \<open>The loop changes the text it runs over: \<open>i\<close> is its index.\<close>

function url_loop :: "nat \<Rightarrow> string \<Rightarrow> string" where
  "url_loop i value =
     (if i + 2 < length value then
        (let hi = hex (value ! (i + 1)); lo = hex (value ! (i + 2))
         in url_loop (Suc i)
              (if value ! i = CHR ''%'' \<and> 0 \<le> hi \<and> 0 \<le> lo
               then take i value @ char_of (or (push_bit 4 hi) lo) # drop (i + 3) value
               else value))
      else value)"
  by pat_completeness auto

termination by (relation "measure (\<lambda>(i, value). length value - i)") (auto simp: Let_def)

definition urlDecode :: "string \<Rightarrow> string" where
  "urlDecode value = url_loop 0 value"

section \<open>Reading a request\<close>

record request =
  req_method :: string
  req_target :: string
  req_body :: string

datatype read_result = Dropped | Malformed | Received request

definition crlf :: string where
  "crlf = [CHR 0x0D, CHR 0x0A]"

definition max_request :: nat where
  "max_request = 1024 * 1024"

text \<open>The loop for the header: the text so far and the pieces left, or nothing when the connection ends.\<close>

fun read_head :: "string list \<Rightarrow> string \<Rightarrow> (string \<times> string list) option" where
  "read_head pieces req =
     (if contains_sub (crlf @ crlf) req \<or> max_request \<le> length req then Some (req, pieces)
      else case pieces of [] \<Rightarrow> None | p # ps \<Rightarrow> if p = [] then None else read_head ps (req @ p))"

text \<open>The loop for the body.\<close>

fun read_body :: "string list \<Rightarrow> nat \<Rightarrow> string \<Rightarrow> string" where
  "read_body pieces expected body =
     (if length body < expected \<and> length body < max_request then
        (case pieces of [] \<Rightarrow> body | p # ps \<Rightarrow> if p = [] then body else read_body ps expected (body @ p))
      else body)"

text \<open>\<open>std::getline\<close> until it fails, and \<open>>>\<close> into a string.\<close>

definition getlines :: "string \<Rightarrow> string list" where
  "getlines s = (let ps = split_on (CHR 0x0A) s in if last ps = [] then butlast ps else ps)"

definition next_word :: "string \<Rightarrow> string \<times> string" where
  "next_word s = (let t = dropWhile is_space s in (takeWhile (\<lambda>c. \<not> is_space c) t, dropWhile (\<lambda>c. \<not> is_space c) t))"

text \<open>One header line; a number that \<open>std::stoull\<close> rejects counts as none.\<close>

definition header_step :: "string \<Rightarrow> nat \<Rightarrow> nat" where
  "header_step header_line expected =
     (case find_char (CHR '':'') header_line of
        None \<Rightarrow> expected
      | Some colon \<Rightarrow>
          (let name = trim (take colon header_line); value = trim (drop (colon + 1) header_line)
           in if name = ''Content-Length'' \<or> name = ''content-length''
              then (case stoul value of Inl e \<Rightarrow> 0 | Inr n \<Rightarrow> unat n)
              else expected))"

text \<open>The method, the target and the length the body is expected to have.\<close>

definition parse_head :: "string \<Rightarrow> string \<times> string \<times> nat" where
  "parse_head header_block =
     (case getlines header_block of
        [] \<Rightarrow> ('''', '''', 0)
      | request_line # headers \<Rightarrow>
          (let (m, rest) = next_word (trim request_line); (t, _) = next_word rest
           in (m, t, fold header_step headers 0)))"

definition read_request :: "string list \<Rightarrow> read_result" where
  "read_request pieces =
     (case read_head pieces '''' of
        None \<Rightarrow> Dropped
      | Some (req, rest) \<Rightarrow>
          (case find_sub (crlf @ crlf) req of
             None \<Rightarrow> Malformed
           | Some header_end \<Rightarrow>
               (let (m, t, expected) = parse_head (take header_end req)
                in Received \<lparr>req_method = m, req_target = t,
                             req_body = take expected (read_body rest expected (drop (header_end + 4) req))\<rparr>)))"

section \<open>The response\<close>

definition statusText :: "int \<Rightarrow> string" where
  "statusText code =
     (if code = 200 then ''OK''
      else if code = 204 then ''No Content''
      else if code = 400 then ''Bad Request''
      else if code = 404 then ''Not Found''
      else if code = 500 then ''Internal Server Error''
      else ''Response'')"

definition dec_int :: "int \<Rightarrow> string" where
  "dec_int n = (if n < 0 then CHR ''-'' # dec (nat (- n)) else dec (nat n))"

definition makeResponse :: "int \<Rightarrow> string \<Rightarrow> string \<Rightarrow> string \<Rightarrow> string" where
  "makeResponse code text content_type body =
     ''HTTP/1.1 '' @ dec_int code @ '' '' @ text @ crlf @
     ''Content-Type: '' @ content_type @ crlf @
     ''Content-Length: '' @ dec (length body) @ crlf @
     ''Access-Control-Allow-Origin: *'' @ crlf @
     ''Access-Control-Allow-Methods: GET, PUT, OPTIONS'' @ crlf @
     ''Access-Control-Allow-Headers: Content-Type'' @ crlf @
     ''Connection: close'' @ crlf @ crlf @
     body"

section \<open>Percent decoding undoes percent encoding\<close>

fun decoded :: "string \<Rightarrow> string" where
  "decoded (c # h # l # s) =
     (if c = CHR ''%'' \<and> 0 \<le> hex h \<and> 0 \<le> hex l then char_of (or (push_bit 4 (hex h)) (hex l)) # decoded s
      else c # decoded (h # l # s))"
| "decoded s = s"

declare url_loop.simps [simp del]

lemma url_loop_decoded: "url_loop (length u) (u @ w) = u @ decoded w"
proof (induction w arbitrary: u rule: decoded.induct)
  case (1 c h l s)
  let ?b = "char_of (or (push_bit 4 (hex h)) (hex l))"
  have "url_loop (length u) (u @ c # h # l # s) =
      url_loop (Suc (length u)) (if c = CHR ''%'' \<and> 0 \<le> hex h \<and> 0 \<le> hex l then u @ ?b # s else u @ c # h # l # s)"
    by (subst url_loop.simps) (simp add: nth_append Let_def cong: if_cong)
  with "1.IH"(1) [of "u @ [?b]"] "1.IH"(2) [of "u @ [c]"] show ?case by (simp split: if_splits)
qed (simp_all add: url_loop.simps)

lemma urlDecode_decoded: "urlDecode s = decoded s"
  using url_loop_decoded [of "[]" s] by (simp add: urlDecode_def)

lemma decoded_plain: "c \<noteq> CHR ''%'' \<Longrightarrow> decoded (c # s) = c # decoded s"
  by (cases "c # s" rule: decoded.cases) auto

text \<open>The escape of a byte is a percent sign and its two hexadecimal digits.\<close>

definition hex_digit :: "nat \<Rightarrow> char" where
  "hex_digit n = (if n < 10 then char_of (48 + int n) else char_of (55 + int n))"

definition escaped :: "(char \<Rightarrow> bool) \<Rightarrow> char \<Rightarrow> string" where
  "escaped unsafe c = (if unsafe c then [CHR ''%'', hex_digit (of_char c div 16), hex_digit (of_char c mod 16)] else [c])"

definition percent_encode :: "(char \<Rightarrow> bool) \<Rightarrow> string \<Rightarrow> string" where
  "percent_encode unsafe s = concat (map (escaped unsafe) s)"

lemma hex_hex_digit: "n < 16 \<Longrightarrow> hex (hex_digit n) = int n"
  by (auto simp: hex_def hex_digit_def Let_def)

lemma hex_pair: "n < 256 \<Longrightarrow> char_of (or (push_bit 4 (int (n div 16))) (int (n mod 16))) = (char_of n :: char)"
proof -
  have t: "take_bit 4 (int (n mod 16)) = int (n mod 16)" by (simp add: take_bit_eq_mod zmod_int)
  have "or (push_bit 4 (int (n div 16))) (int (n mod 16)) = concat_bit 4 (int (n mod 16)) (int (n div 16))"
    by (simp only: concat_bit_def t or.commute)
  also have "\<dots> = int (n mod 16) + int (n div 16) * 2 ^ 4" unfolding concat_bit_eq t push_bit_eq_mult ..
  also have "(2 :: int) ^ 4 = int 16" by simp
  also have "int (n mod 16) + int (n div 16) * int 16 = int (n mod 16 + n div 16 * 16)" by (simp only: of_nat_add of_nat_mult)
  also have "n mod 16 + n div 16 * 16 = n" by simp
  finally show ?thesis by (metis char_of_nat)
qed

lemma decoded_escaped:
  assumes "unsafe (CHR ''%'')"
  shows "decoded (escaped unsafe c @ s) = c # decoded s"
proof -
  have l: "of_char c < (256 :: nat)" by simp
  then have "of_char c div 16 < (16 :: nat)" by linarith
  then have d: "hex (hex_digit (of_char c div 16)) = int (of_char c div 16)" "hex (hex_digit (of_char c mod 16)) = int (of_char c mod 16)"
    by (auto intro!: hex_hex_digit)
  have "\<not> unsafe c \<Longrightarrow> c \<noteq> CHR ''%''" using assms by auto
  then show ?thesis using hex_pair [OF l] by (auto simp: escaped_def d decoded_plain)
qed

text \<open>C36: percent decoding undoes percent encoding: whatever characters are escaped, as long as the percent
  sign is one of them, the server gets back the bytes the client meant, and a decoded percent sign is
  not taken for the start of another escape.\<close>

theorem url_decode_roundtrip:
  assumes "unsafe (CHR ''%'')"
  shows "urlDecode (percent_encode unsafe s) = s"
  unfolding urlDecode_decoded percent_encode_def
  by (induction s) (simp_all add: decoded_escaped [where unsafe = unsafe, OF assms])

theorem url_decode_roundtrip_witness:
  "percent_encode (\<lambda>c. c \<in> set ''% '') ''T 1%41'' = ''T%201%2541'' \<and> urlDecode ''T%201%2541'' = ''T 1%41''"
proof -
  have e: "percent_encode (\<lambda>c. c \<in> set ''% '') ''T 1%41'' = ''T%201%2541''" by code_simp
  show ?thesis using url_decode_roundtrip [of "\<lambda>c. c \<in> set ''% ''" "''T 1%41''"] unfolding e by simp
qed

section \<open>How a request is split into pieces does not matter\<close>

text \<open>The request that a whole byte stream holds: the specification.\<close>

definition request_of :: "string \<Rightarrow> read_result" where
  "request_of stream =
     (case find_sub (crlf @ crlf) stream of
        None \<Rightarrow> Dropped
      | Some header_end \<Rightarrow>
          (let (m, t, expected) = parse_head (take header_end stream)
           in Received \<lparr>req_method = m, req_target = t, req_body = take expected (drop (header_end + 4) stream)\<rparr>))"

declare read_head.simps [simp del] read_body.simps [simp del]

lemma length_crlf [simp]: "length crlf = 2"
  by (simp add: crlf_def)

lemma read_head_stream:
  assumes "[] \<notin> set pieces" and "length (req @ concat pieces) < max_request"
  shows "case find_sub (crlf @ crlf) (req @ concat pieces) of
      None \<Rightarrow> read_head pieces req = None
    | Some i \<Rightarrow> \<exists>req' rest. read_head pieces req = Some (req', rest) \<and> find_sub (crlf @ crlf) req' = Some i \<and>
        req' @ concat rest = req @ concat pieces \<and> [] \<notin> set rest"
  using assms
proof (induction pieces arbitrary: req)
  case Nil
  then show ?case by (subst read_head.simps) (auto simp: contains_sub_def read_head.simps split: option.splits)
next
  case (Cons p ps)
  show ?case
  proof (cases "contains_sub (crlf @ crlf) req")
    case True
    then obtain i where i: "find_sub (crlf @ crlf) req = Some i" by (auto simp: contains_sub_def)
    then have "find_sub (crlf @ crlf) (req @ concat (p # ps)) = Some i" by (rule find_sub_append)
    then show ?thesis using True i Cons.prems(1) by (simp add: read_head.simps)
  next
    case False
    have "read_head (p # ps) req = read_head ps (req @ p)"
      using False Cons.prems by (subst read_head.simps) auto
    moreover have "req @ concat (p # ps) = (req @ p) @ concat ps" by simp
    ultimately show ?thesis using Cons.IH [of "req @ p"] Cons.prems by (simp only: ) simp
  qed
qed

lemma read_body_stream:
  assumes "[] \<notin> set pieces" and "length (body @ concat pieces) < max_request"
  shows "take expected (read_body pieces expected body) = take expected (body @ concat pieces)"
  using assms
proof (induction pieces arbitrary: body)
  case Nil
  then show ?case by (subst read_body.simps) simp
next
  case (Cons p ps)
  show ?case
  proof (cases "length body < expected")
    case True
    then have "read_body (p # ps) expected body = read_body ps expected (body @ p)"
      using Cons.prems by (subst read_body.simps) auto
    then show ?thesis using Cons.IH [of "body @ p"] Cons.prems by simp
  next
    case False
    then show ?thesis by (subst read_body.simps) simp
  qed
qed

text \<open>C21: reading a request off a connection depends only on the bytes sent, not on the pieces they arrive in:
  with fewer than a megabyte in all, the two loops read exactly the request that the whole stream holds,
  its body cut to the announced length; a stream without the end of a header is dropped.\<close>

theorem request_chunking:
  assumes "[] \<notin> set pieces" and "length (concat pieces) < max_request"
  shows "read_request pieces = request_of (concat pieces)"
proof (cases "find_sub (crlf @ crlf) (concat pieces)")
  case None
  then show ?thesis using read_head_stream [of pieces "''''"] assms by (simp add: read_request_def request_of_def)
next
  case (Some i)
  then obtain req' rest where r: "read_head pieces '''' = Some (req', rest)" "find_sub (crlf @ crlf) req' = Some i"
      "req' @ concat rest = concat pieces" "[] \<notin> set rest"
    using read_head_stream [of pieces "''''"] assms by auto
  have l: "i + 4 \<le> length req'" using find_sub_Some [OF r(2)] by simp
  have s: "take i (concat pieces) = take i req'" "drop (i + 4) (concat pieces) = drop (i + 4) req' @ concat rest"
    using l unfolding r(3) [symmetric] by auto
  have b: "take e (read_body rest e (drop (i + 4) req')) = take e (drop (i + 4) req' @ concat rest)" for e
  proof (rule read_body_stream [OF r(4)])
    have "length (drop (i + 4) req' @ concat rest) \<le> length (req' @ concat rest)" by simp
    also have "\<dots> < max_request" using assms(2) by (simp only: r(3))
    finally show "length (drop (i + 4) req' @ concat rest) < max_request" .
  qed
  show ?thesis
    using Some r(1,2) by (simp add: read_request_def request_of_def s b case_prod_beta Let_def del: drop_append)
qed

theorem request_chunking_witness:
  "read_request [''PUT /a HTTP/1.1'' @ [CHR 0x0D], [CHR 0x0A] @ ''Content-Length: 2'' @ crlf @ crlf @ ''h'', ''i!''] =
   Received \<lparr>req_method = ''PUT'', req_target = ''/a'', req_body = ''hi''\<rparr>"
proof -
  let ?ps = "[''PUT /a HTTP/1.1'' @ [CHR 0x0D], [CHR 0x0A] @ ''Content-Length: 2'' @ crlf @ crlf @ ''h'', ''i!'']"
  have "read_request ?ps = request_of (concat ?ps)"
    by (rule request_chunking) (simp_all add: crlf_def max_request_def)
  also have "\<dots> = Received \<lparr>req_method = ''PUT'', req_target = ''/a'', req_body = ''hi''\<rparr>"
    by (simp add: request_of_def crlf_def parse_head_def getlines_def next_word_def header_step_def trim_def is_blank_def
        stoul_def is_space_def is_digit_def undec_def Let_def)
  finally show ?thesis .
qed

section \<open>The framing of a response\<close>

definition one_line :: "string \<Rightarrow> bool" where
  "one_line s \<longleftrightarrow> CHR 0x0D \<notin> set s \<and> CHR 0x0A \<notin> set s"

lemma one_line_append [simp]: "one_line (a @ b) \<longleftrightarrow> one_line a \<and> one_line b"
  by (auto simp: one_line_def)

lemma one_line_Cons [simp]: "one_line (c # s) \<longleftrightarrow> c \<noteq> CHR 0x0D \<and> c \<noteq> CHR 0x0A \<and> one_line s"
  by (auto simp: one_line_def)

lemma one_line_Nil [simp]: "one_line []"
  by (simp add: one_line_def)

lemma one_line_dec [simp]: "one_line (dec n)"
proof -
  have "\<not> is_digit (CHR 0x0D)" "\<not> is_digit (CHR 0x0A)" by (simp_all add: is_digit_def)
  then show ?thesis using dec_digits(1) [of n] by (auto simp: one_line_def)
qed

lemma one_line_dec_int [simp]: "one_line (dec_int n)"
  by (simp add: dec_int_def)

text \<open>The search for an empty line passes over a line that is not empty.\<close>

lemma find_end_line:
  assumes "one_line l" and "s = c # s'" and "c \<noteq> CHR 0x0D"
  shows "find_sub (crlf @ crlf) (l @ crlf @ s) = map_option ((+) (length l + 2)) (find_sub (crlf @ crlf) s)"
  using assms(1)
proof (induction l)
  case Nil
  then show ?case using assms(2,3)
    by (cases "find_sub (crlf @ crlf) s") (auto simp: crlf_def)
next
  case (Cons x l)
  then have "find_sub (crlf @ crlf) ((x # l) @ crlf @ s) = map_option Suc (find_sub (crlf @ crlf) (l @ crlf @ s))"
    by (simp add: crlf_def)
  also have "\<dots> = map_option ((+) (length (x # l) + 2)) (find_sub (crlf @ crlf) s)"
    using Cons by (cases "find_sub (crlf @ crlf) s") simp_all
  finally show ?case .
qed

lemma find_end_last:
  assumes "one_line l"
  shows "find_sub (crlf @ crlf) (l @ crlf @ crlf @ body) = Some (length l)"
  using assms by (induction l) (simp_all add: crlf_def)

definition response_lines :: "int \<Rightarrow> string \<Rightarrow> string \<Rightarrow> nat \<Rightarrow> string list" where
  "response_lines code text content_type n =
     [''HTTP/1.1 '' @ dec_int code @ '' '' @ text, ''Content-Type: '' @ content_type, ''Content-Length: '' @ dec n,
      ''Access-Control-Allow-Origin: *'', ''Access-Control-Allow-Methods: GET, PUT, OPTIONS'',
      ''Access-Control-Allow-Headers: Content-Type'', ''Connection: close'']"

fun joined :: "string list \<Rightarrow> string" where
  "joined [] = []"
| "joined [l] = l"
| "joined (l # ls) = l @ crlf @ joined ls"

lemma find_end:
  assumes "ls \<noteq> []" and "\<forall>l\<in>set ls. one_line l \<and> l \<noteq> []"
  shows "find_sub (crlf @ crlf) (joined ls @ crlf @ crlf @ body) = Some (length (joined ls))"
  using assms
proof (induction ls rule: joined.induct)
  case (3 l k ls)
  obtain c k' where k: "k = c # k'" "c \<noteq> CHR 0x0D" using "3.prems"(2) by (cases k) (auto simp: one_line_def)
  then obtain s' where s: "joined (k # ls) @ crlf @ crlf @ body = c # s'" by (cases ls) simp_all
  have "find_sub (crlf @ crlf) (l @ crlf @ (joined (k # ls) @ crlf @ crlf @ body)) =
      map_option ((+) (length l + 2)) (find_sub (crlf @ crlf) (joined (k # ls) @ crlf @ crlf @ body))"
    using "3.prems" k(2) s by (intro find_end_line) auto
  then show ?case using 3 by simp
qed (simp_all add: find_end_last)

lemma getlines_joined:
  assumes "ls \<noteq> []" and "\<forall>l\<in>set ls. one_line l \<and> l \<noteq> []"
  shows "getlines (joined ls) = map (\<lambda>l. l @ [CHR 0x0D]) (butlast ls) @ [last ls]"
proof -
  have "split_on (CHR 0x0A) (joined ls) = map (\<lambda>l. l @ [CHR 0x0D]) (butlast ls) @ [last ls]"
    using assms
  proof (induction ls rule: joined.induct)
    case (2 l)
    then show ?case by (simp add: split_on_no_sep one_line_def)
  next
    case (3 l k ls)
    have "split_on (CHR 0x0A) ((l @ [CHR 0x0D]) @ CHR 0x0A # joined (k # ls)) = (l @ [CHR 0x0D]) # split_on (CHR 0x0A) (joined (k # ls))"
      using "3.prems" by (intro split_on_append) (simp add: one_line_def)
    moreover have j: "joined (l # k # ls) = (l @ [CHR 0x0D]) @ CHR 0x0A # joined (k # ls)" by (simp add: crlf_def)
    ultimately show ?case unfolding j using 3 by simp
  qed simp
  moreover have "last ls \<noteq> []" using assms by (cases ls rule: rev_cases) auto
  ultimately show ?thesis by (simp add: getlines_def)
qed

lemma trim_dec: "trim (CHR '' '' # dec n @ [CHR 0x0D]) = dec n"
proof -
  have nb: "\<not> is_blank c" if "is_digit c" for c using digit_no_space [OF that] by (auto simp: is_blank_def is_space_def)
  have "trim ([CHR '' ''] @ dec n @ [CHR 0x0D]) = trim (dec n)" by (rule trim_padding) (simp_all add: is_blank_def)
  also have "\<dots> = dec n" using dec_digits [of n] by (intro trim_id) (simp add: nb)
  finally show ?thesis by simp
qed

lemma response_length:
  assumes "n < 2 ^ 64"
  shows "fold header_step (map (\<lambda>l. l @ [CHR 0x0D]) (butlast (tl (response_lines code text ct n))) @ [last (response_lines code text ct n)]) 0 = n"
proof -
  have u: "unat (of_nat n :: u64) = n" using assms by (simp add: unat_of_nat)
  show ?thesis
    using assms trim_dec [of n]
    by (simp add: response_lines_def header_step_def trim_def is_blank_def Let_def stoul_dec u)
qed

text \<open>C22: every response is framed so that the server's own reader gets the body back: the first empty line
  ends the header, what follows it is the body, and the header announces exactly the length of the body,
  whatever characters the body has, provided the reason and the type of the content are single lines.\<close>

theorem response_framing:
  assumes "one_line text" and "one_line content_type" and "length body < 2 ^ 64"
  shows "\<exists>header version status. makeResponse code text content_type body = header @ crlf @ crlf @ body \<and>
    find_sub (crlf @ crlf) (makeResponse code text content_type body) = Some (length header) \<and>
    parse_head header = (version, status, length body)"
proof -
  let ?ls = "response_lines code text content_type (length body)"
  have ok: "?ls \<noteq> []" "\<forall>l\<in>set ?ls. one_line l \<and> l \<noteq> []" using assms by (auto simp: response_lines_def)
  have r: "makeResponse code text content_type body = joined ?ls @ crlf @ crlf @ body"
    by (simp add: makeResponse_def response_lines_def)
  have "getlines (joined ?ls) = (hd ?ls @ [CHR 0x0D]) # map (\<lambda>l. l @ [CHR 0x0D]) (butlast (tl ?ls)) @ [last ?ls]"
    unfolding getlines_joined [OF ok] by (simp add: response_lines_def)
  then have "\<exists>version status. parse_head (joined ?ls) = (version, status, length body)"
    using response_length [OF assms(3)] by (simp add: parse_head_def Let_def case_prod_beta)
  with r find_end [OF ok] show ?thesis by auto
qed

theorem response_framing_witness:
  "\<exists>header version status. makeResponse 200 ''OK'' ''text/plain'' (crlf @ crlf) = header @ crlf @ crlf @ crlf @ crlf \<and>
    find_sub (crlf @ crlf) (makeResponse 200 ''OK'' ''text/plain'' (crlf @ crlf)) = Some (length header) \<and>
    parse_head header = (version, status, 4)"
  using response_framing [of "''OK''" "''text/plain''" "crlf @ crlf" 200] by simp

end
