(* ===== verification/Http_Server.thy ===== *)
theory Http_Server
  imports Http_Message Live_Runtime
begin

text \<open>
  \<^verbatim>\<open>http_api_server.h\<close> and \<^verbatim>\<open>http_api_server.cpp\<close>: the life of the server's thread, and what a client's
  thread does with one connection. The socket calls, the clocks, SQLite and the JSON library are
  parameters. A client's thread is one step of the model: the runtime and the database do not change
  under it. Its outcome is \<open>None\<close> when a query never ends, a fault, or the text it sends, if any, with
  the runtime and the database it leaves.
\<close>

section \<open>The thread of the server\<close>

datatype phase = Not_Started | Opening | Binding | Accepting | Finished

record http_server =
  srv_running :: bool
  server_fd :: int
  thread_owned :: bool
  phase :: phase

text \<open>What the calls that open the socket return.\<close>

record listener =
  socket_fd :: int
  bind_ok :: bool
  listen_ok :: bool

definition new_server :: http_server where
  "new_server = \<lparr>srv_running = False, server_fd = - 1, thread_owned = False, phase = Not_Started\<rparr>"

text \<open>The head of the accepting loop, and one step of \<open>serve\<close>: opening the socket, binding it, one turn of
  the loop. \<open>client_fd\<close> is what \<open>accept\<close> returns; the second result is the connection that gets a thread.\<close>

definition loop_head :: "http_server \<Rightarrow> http_server" where
  "loop_head v = v\<lparr>phase := (if srv_running v then Accepting else Finished)\<rparr>"

definition serve_step :: "listener \<Rightarrow> int \<Rightarrow> http_server \<Rightarrow> http_server \<times> int option" where
  "serve_step l client_fd v =
     (case phase v of
        Opening \<Rightarrow>
          (let v1 = v\<lparr>server_fd := socket_fd l\<rparr>
           in if server_fd v1 < 0 then (v1\<lparr>srv_running := False, phase := Finished\<rparr>, None)
              else (v1\<lparr>phase := Binding\<rparr>, None))
      | Binding \<Rightarrow>
          if server_fd v < 0 \<or> \<not> bind_ok l \<or> \<not> listen_ok l
          then (v\<lparr>server_fd := - 1, srv_running := False, phase := Finished\<rparr>, None)
          else (loop_head v, None)
      | Accepting \<Rightarrow>
          if client_fd < 0 then (if srv_running v then (loop_head v, None) else (v\<lparr>phase := Finished\<rparr>, None))
          else (loop_head v, Some client_fd)
      | _ \<Rightarrow> (v, None))"

definition serve_quietly :: "listener \<Rightarrow> http_server \<Rightarrow> http_server" where
  "serve_quietly l v = fst (serve_step l (- 1) v)"

text \<open>\<open>start\<close> polls \<open>k\<close> more times; the thread makes \<open>others i\<close> steps during the sleep of the \<open>i\<close>th poll and
  before the result is read. Assigning to a thread object that is still joinable ends the program.\<close>

fun start_polls :: "listener \<Rightarrow> (nat \<Rightarrow> nat) \<Rightarrow> nat \<Rightarrow> nat \<Rightarrow> http_server \<Rightarrow> http_server" where
  "start_polls l others i 0 v = v"
| "start_polls l others i (Suc k) v =
     (if server_fd v < 0 \<and> srv_running v
      then start_polls l others (Suc i) k ((serve_quietly l ^^ others i) v) else v)"

definition http_start :: "listener \<Rightarrow> (nat \<Rightarrow> nat) \<Rightarrow> http_server \<Rightarrow> fault + bool \<times> http_server" where
  "http_start l others v =
     (if srv_running v then Inr (True, v)
      else if thread_owned v then Inl Terminate
      else let v1 = start_polls l others 0 50 (v\<lparr>srv_running := True, thread_owned := True, phase := Opening\<rparr>);
               v2 = (serve_quietly l ^^ others 50) v1
           in Inr (0 \<le> server_fd v2, v2))"

text \<open>\<open>stop\<close> closes the socket, which makes \<open>accept\<close> fail, and waits for the thread: \<open>n\<close> steps of it.\<close>

definition http_stop :: "listener \<Rightarrow> nat \<Rightarrow> http_server \<Rightarrow> http_server" where
  "http_stop l n v =
     (let v1 = v\<lparr>srv_running := False\<rparr>;
          v2 = (if 0 \<le> server_fd v1 then v1\<lparr>server_fd := - 1\<rparr> else v1)
      in if thread_owned v2 then ((serve_quietly l ^^ n) v2)\<lparr>thread_owned := False\<rparr> else v2)"

section \<open>One request\<close>

record 'd surroundings =
  sqlite_of :: "'d sqlite"
  json_of :: json_lib
  sqrt_fn :: "double \<Rightarrow> double"
  seconds_fn :: "int \<Rightarrow> double"
  steady_now :: int
  task_now :: int
  entry_clocks :: "nat \<Rightarrow> int \<times> int"
  node_clocks :: "nat \<Rightarrow> nat \<Rightarrow> int \<times> int"

type_synonym 'd answer = "(fault + (json_error + int \<times> json) \<times> runtime \<times> 'd database) option"

definition answer_json :: "json_error + int \<times> json \<Rightarrow> runtime \<Rightarrow> 'd database \<Rightarrow> 'd answer" where
  "answer_json r s D = Some (Inr (r, s, D))"

fun answer_view :: "fault + json \<Rightarrow> runtime \<Rightarrow> 'd database \<Rightarrow> 'd answer" where
  "answer_view (Inl f) s D = Some (Inl f)"
| "answer_view (Inr j) s D = answer_json (Inr (200, j)) s D"

fun answer_query :: "(fault + json list \<times> 'd database) option \<Rightarrow> runtime \<Rightarrow> 'd answer" where
  "answer_query None s = None"
| "answer_query (Some (Inl f)) s = Some (Inl f)"
| "answer_query (Some (Inr (js, D))) s = answer_json (Inr (200, J_Arr js)) s D"

text \<open>The settings a body asks for, with their defaults, and applying them.\<close>

definition settings :: "json_lib \<Rightarrow> string \<Rightarrow> json_error + bool \<times> string \<times> string" where
  "settings lib body =
     bind_sum (json_parse lib body) (\<lambda>input.
     bind_sum (value_or ''automatic'' False (get_bool lib) input) (\<lambda>automatic.
     bind_sum (value_or ''allocation_strategy'' ''multi_constraint'' (get_string lib) input) (\<lambda>allocation.
     bind_sum (value_or ''scheduling_algorithm'' ''edf'' (get_string lib) input) (\<lambda>scheduling.
       Inr (automatic, allocation, scheduling)))))"

definition put_configuration :: "json_lib \<Rightarrow> string \<Rightarrow> runtime \<Rightarrow> 'd database \<Rightarrow> 'd answer" where
  "put_configuration lib body s D =
     (case settings lib body of
        Inl e \<Rightarrow> answer_json (Inl e) s D
      | Inr (automatic, allocation, scheduling) \<Rightarrow>
          (case applyConfiguration automatic allocation scheduling s of
             (False, err, s') \<Rightarrow> answer_json (Inr (400, build [(''success'', J_Bool False), (''error'', J_Str err)])) s' D
           | (True, _, s') \<Rightarrow>
               (case configuration s' of
                  Inl f \<Rightarrow> Some (Inl f)
                | Inr c \<Rightarrow> answer_json (Inr (200, build [(''success'', J_Bool True), (''configuration'', c)])) s' D)))"

text \<open>The view of one task, and the status its field \<open>found\<close> asks for.\<close>

definition get_lifecycle :: "'d surroundings \<Rightarrow> string \<Rightarrow> runtime \<Rightarrow> 'd database \<Rightarrow> 'd answer" where
  "get_lifecycle e tid s D =
     (case lifecycle_view (sqlite_of e) (json_of e) (task_now e) (entry_clocks e) tid s D of
        None \<Rightarrow> None
      | Some (Inl f) \<Rightarrow> Some (Inl f)
      | Some (Inr (v, D')) \<Rightarrow>
          answer_json (bind_sum v (\<lambda>j. bind_sum (value_or ''found'' False (get_bool (json_of e)) j) (\<lambda>found.
            Inr (if found then 200 else 404, j)))) s D')"

definition route_get :: "'d surroundings \<Rightarrow> string \<Rightarrow> runtime \<Rightarrow> 'd database \<Rightarrow> 'd answer" where
  "route_get e path s D =
     (if path = ''/api/health'' then answer_json (Inr (200, build [(''ok'', J_Bool True), (''backend'', J_Str ''cpp'')])) s D
      else if path = ''/api/status'' then answer_view (status_view s) s D
      else if path = ''/api/configuration'' then answer_view (configuration s) s D
      else if path = ''/api/devices'' then answer_query (devices_view (sqlite_of e) D) s
      else if path = ''/api/edge-nodes'' then
        answer_json (bind_sum (edge_nodes_view (json_of e) (node_clocks e) s) (\<lambda>j. Inr (200, j))) s D
      else if path = ''/api/tasks'' then answer_query (tasks_view (sqlite_of e) 500 D) s
      else if path = ''/api/tasks/active'' then answer_json (Inr (200, active_view (entry_clocks e) s)) s D
      else if take 11 path = ''/api/tasks/'' \<and> 11 < length path then get_lifecycle e (drop 11 path) s D
      else if path = ''/api/allocations'' then answer_query (allocations_view (sqlite_of e) D) s
      else if path = ''/api/metrics'' then answer_view (metrics_view (sqrt_fn e) (seconds_fn e) (steady_now e) s) s D
      else if path = ''/api/activities'' then answer_query (activities_view (sqlite_of e) 50 D) s
      else if path = ''/api/alerts'' then answer_query (alerts_view (sqlite_of e) D) s
      else if path = ''/api/resource-history'' then answer_query (resource_history_view (sqlite_of e) 120 D) s
      else answer_json (Inr (404, build [(''error'', J_Str ''Endpoint not found'')])) s D)"

definition route :: "'d surroundings \<Rightarrow> string \<Rightarrow> string \<Rightarrow> string \<Rightarrow> runtime \<Rightarrow> 'd database \<Rightarrow> 'd answer" where
  "route e m path body s D =
     (if m = ''GET'' then route_get e path s D
      else if m = ''PUT'' \<and> path = ''/api/configuration'' then put_configuration (json_of e) body s D
      else answer_json (Inr (404, build [(''error'', J_Str ''Endpoint not found'')])) s D)"

definition request_path :: "string \<Rightarrow> string" where
  "request_path target = urlDecode (case find_char (CHR ''?'') target of None \<Rightarrow> target | Some mark \<Rightarrow> take mark target)"

definition makeJsonResponse :: "json_lib \<Rightarrow> int \<Rightarrow> json \<Rightarrow> json_error + string" where
  "makeJsonResponse lib code body =
     bind_sum (json_dump lib body) (\<lambda>text. Inr (makeResponse code (statusText code) ''application/json; charset=utf-8'' text))"

text \<open>The answer, or the handler of its exceptions. An exception out of the handler leaves the function of
  the thread, which ends the program.\<close>

definition reply :: "json_lib \<Rightarrow> json_error + int \<times> json \<Rightarrow> fault + string" where
  "reply lib r =
     (case bind_sum r (\<lambda>(code, j). makeJsonResponse lib code j) of
        Inr out \<Rightarrow> Inr out
      | Inl ex \<Rightarrow>
          (case makeJsonResponse lib 400 (build [(''error'', J_Str (what lib ex))]) of
             Inr out \<Rightarrow> Inr out
           | Inl _ \<Rightarrow> Inl Terminate))"

definition handleClient :: "'d surroundings \<Rightarrow> string list \<Rightarrow> runtime \<Rightarrow> 'd database \<Rightarrow>
    (fault + string option \<times> runtime \<times> 'd database) option" where
  "handleClient e pieces s D =
     (case read_request pieces of
        Dropped \<Rightarrow> Some (Inr (None, s, D))
      | Malformed \<Rightarrow> Some (Inr (Some (makeResponse 400 (statusText 400) ''text/plain'' ''Malformed HTTP request''), s, D))
      | Received r \<Rightarrow>
          if req_method r = ''OPTIONS''
          then Some (Inr (Some (makeResponse 204 (statusText 204) ''text/plain'' ''''), s, D))
          else (case route e (req_method r) (request_path (req_target r)) (req_body r) s D of
             None \<Rightarrow> None
           | Some (Inl f) \<Rightarrow> Some (Inl f)
           | Some (Inr (answer, s', D')) \<Rightarrow> Some (bind_sum (reply (json_of e) answer) (\<lambda>out. Inr (Some out, s', D')))))"

section \<open>Properties\<close>

lemmas server_defs = serve_quietly_def serve_step_def loop_head_def

lemma finished_stays: "phase u = Finished \<Longrightarrow> (serve_quietly l ^^ k) u = u"
  by (induction k) (simp_all add: server_defs)



text \<open>\<^verbatim>\<open>stop\<close> ends the server's thread from whatever point it has reached: two of its steps are enough, so
  the wait for it returns. The socket is closed then, but for a thread that has not opened it yet: that
  one opens it after the stop and leaves it open.\<close>

theorem stop_ends_server:
  assumes "thread_owned v" and "phase v \<noteq> Not_Started" and "- 1 \<le> server_fd v" and "2 \<le> n"
  shows "phase (http_stop l n v) = Finished \<and> \<not> srv_running (http_stop l n v) \<and> \<not> thread_owned (http_stop l n v) \<and>
    (phase v \<noteq> Opening \<longrightarrow> server_fd (http_stop l n v) = - 1) \<and>
    (phase v = Opening \<and> 0 \<le> socket_fd l \<and> bind_ok l \<and> listen_ok l \<longrightarrow> server_fd (http_stop l n v) = socket_fd l)"
proof -
  define w where "w = v\<lparr>srv_running := False, server_fd := - 1\<rparr>"
  have w: "http_stop l n v = ((serve_quietly l ^^ n) w)\<lparr>thread_owned := False\<rparr>"
  proof (cases "0 \<le> server_fd v")
    case False
    then have "w = v\<lparr>srv_running := False\<rparr>" using assms(3) by (cases v) (simp add: w_def)
    with False assms(1) show ?thesis by (simp add: http_stop_def)
  qed (use assms(1) in \<open>simp add: http_stop_def w_def\<close>)
  have k: "n = Suc (Suc (n - 2))" using assms(4) by simp
  let ?u = "serve_quietly l (serve_quietly l w)"
  have u: "phase ?u = Finished" "\<not> srv_running ?u" "phase v \<noteq> Opening \<Longrightarrow> server_fd ?u = - 1"
      "phase v = Opening \<Longrightarrow> 0 \<le> socket_fd l \<Longrightarrow> bind_ok l \<Longrightarrow> listen_ok l \<Longrightarrow> server_fd ?u = socket_fd l"
    using assms(2) by (cases "phase v"; auto simp: w_def server_defs Let_def)+
  have "(serve_quietly l ^^ n) w = ?u" by (subst k) (unfold funpow_Suc_right o_def, rule finished_stays [OF u(1)])
  with w u show ?thesis by simp
qed

theorem stop_ends_server_witness:
  "server_fd (http_stop \<lparr>socket_fd = 3, bind_ok = True, listen_ok = True\<rparr> 2
     (new_server\<lparr>srv_running := True, thread_owned := True, phase := Opening\<rparr>)) = 3"
  using stop_ends_server [of "new_server\<lparr>srv_running := True, thread_owned := True, phase := Opening\<rparr>" 2
      "\<lparr>socket_fd = 3, bind_ok = True, listen_ok = True\<rparr>"] by (simp add: new_server_def)

text \<open>The status codes of the answers.\<close>

lemma answer_codes:
  "answer_json r s D = Some (Inr (Inr (c, j), s', D')) \<Longrightarrow> r = Inr (c, j) \<and> s' = s"
  "answer_view w s D = Some (Inr (Inr (c, j), s', D')) \<Longrightarrow> c = 200"
  "answer_query q s = Some (Inr (Inr (c, j), s', D')) \<Longrightarrow> c = 200"
  "answer_json r s D = Some (Inr (r', s', D')) \<Longrightarrow> s' = s"
  "answer_view w s D = Some (Inr (r', s', D')) \<Longrightarrow> s' = s"
  "answer_query q s = Some (Inr (r', s', D')) \<Longrightarrow> s' = s"
  by (auto simp: answer_json_def elim: answer_view.elims answer_query.elims)

lemma get_lifecycle_answer:
  assumes "get_lifecycle e tid s D = Some (Inr (r, s', D'))"
  shows "s' = s" and "r = Inr (c, j) \<Longrightarrow> c \<in> {200, 404}"
  using assms by (auto simp: get_lifecycle_def answer_json_def bind_sum_Inr split: option.splits sum.splits if_splits)

lemma route_get_answer:
  assumes "route_get e path s D = Some (Inr (r, s', D'))"
  shows "s' = s" and "r = Inr (c, j) \<Longrightarrow> c \<in> {200, 404}"
  using assms
  by (auto simp: route_get_def forwarding_defs bind_sum_Inr split: if_splits dest: answer_codes get_lifecycle_answer)

lemma put_configuration_answer:
  "put_configuration lib body s D = Some (Inr (Inr (c, j), s', D')) \<Longrightarrow> c \<in> {200, 400}"
  by (auto simp: put_configuration_def split: sum.splits prod.splits bool.splits dest: answer_codes)

lemma route_answer:
  assumes "route e m path body s D = Some (Inr (r, s', D'))"
  shows "r = Inr (c, j) \<Longrightarrow> c \<in> {200, 400, 404}" and "s' \<noteq> s \<Longrightarrow> m = ''PUT'' \<and> path = ''/api/configuration''"
proof -
  show "c \<in> {200, 400, 404}" if "r = Inr (c, j)"
  proof (cases "m = ''GET''")
    case True
    then show ?thesis using assms route_get_answer(2) [of e path s D r s' D'] that by (auto simp: route_def)
  next
    case False
    then show ?thesis
      using assms that put_configuration_answer [of "json_of e" body s D c j s' D']
      by (auto simp: route_def split: if_splits dest: answer_codes(1))
  qed
  show "m = ''PUT'' \<and> path = ''/api/configuration''" if "s' \<noteq> s"
    using assms that by (auto simp: route_def split: if_splits dest: answer_codes(4) route_get_answer(1))
qed

text \<open>C26: every connection gets at most one response, and what is sent is a well-formed response with one of the
  codes 200, 204, 400 and 404 and the reason that belongs to it; nothing but a \<^verbatim>\<open>PUT\<close> of the configuration
  changes the runtime, whatever bytes the client sends.\<close>

theorem responses_and_effects:
  assumes "handleClient e pieces s D = Some (Inr (sent, s', D'))"
  shows "(\<forall>out. sent = Some out \<longrightarrow> (\<exists>code\<in>{200, 204, 400, 404}. \<exists>kind\<in>{''text/plain'', ''application/json; charset=utf-8''}. \<exists>body.
      out = makeResponse code (statusText code) kind body)) \<and>
    (s' \<noteq> s \<longrightarrow> (\<exists>r. read_request pieces = Received r \<and> req_method r = ''PUT'' \<and> request_path (req_target r) = ''/api/configuration''))"
proof -
  have reply: "\<exists>code\<in>{200, 400, 404}. \<exists>body. out = makeResponse code (statusText code) ''application/json; charset=utf-8'' body"
    if "reply (json_of e) a = Inr out" "\<And>c j. a = Inr (c, j) \<Longrightarrow> c \<in> {200, 400, 404}" for a out
    using that by (cases a) (auto simp: reply_def makeJsonResponse_def bind_sum_Inr split: sum.splits)
  show ?thesis
  proof (cases "read_request pieces")
    case (Received r)
    show ?thesis
    proof (cases "req_method r = ''OPTIONS''")
      case False
      obtain a out where a: "route e (req_method r) (request_path (req_target r)) (req_body r) s D = Some (Inr (a, s', D'))"
          "reply (json_of e) a = Inr out" "sent = Some out"
        using assms Received False by (auto simp: handleClient_def bind_sum_Inr split: option.splits sum.splits)
      have "\<And>c j. a = Inr (c, j) \<Longrightarrow> c \<in> {200, 400, 404}" by (rule route_answer(1) [OF a(1)])
      then obtain code body where "code \<in> {200, 400, 404}" "out = makeResponse code (statusText code) ''application/json; charset=utf-8'' body"
        using reply [OF a(2)] by blast
      then show ?thesis using route_answer(2) [OF a(1)] a(3) Received by auto
    qed (use assms Received in \<open>auto simp: handleClient_def\<close>)
  qed (use assms in \<open>auto simp: handleClient_def\<close>)
qed

section \<open>Configuring the runtime over the connection\<close>

text \<open>The request a client makes, as it goes over the wire.\<close>

definition put_request :: "string \<Rightarrow> string" where
  "put_request body =
     joined [''PUT /api/configuration HTTP/1.1'', ''Host: edge'', ''Content-Length: '' @ dec (length body)] @ crlf @ crlf @ body"

lemma trim_value: "trim (CHR '' '' # dec n) = dec n"
proof -
  have nb: "\<not> is_blank c" if "is_digit c" for c using digit_no_space [OF that] by (auto simp: is_blank_def is_space_def)
  have "trim ([CHR '' ''] @ dec n @ []) = trim (dec n)" by (rule trim_padding) (simp_all add: is_blank_def)
  also have "\<dots> = dec n" using dec_digits [of n] by (intro trim_id) (simp add: nb)
  finally show ?thesis by simp
qed

lemma request_of_lines:
  assumes "ls \<noteq> []" and "\<forall>l\<in>set ls. one_line l \<and> l \<noteq> []" and "parse_head (joined ls) = (m, t, n)"
  shows "request_of (joined ls @ crlf @ crlf @ body) = Received \<lparr>req_method = m, req_target = t, req_body = take n body\<rparr>"
  using find_end [OF assms(1,2), of body] assms(3) by (simp add: request_of_def)

lemma read_put:
  assumes "[] \<notin> set pieces" and "concat pieces = put_request body" and "length (put_request body) < max_request"
  shows "read_request pieces = Received \<lparr>req_method = ''PUT'', req_target = ''/api/configuration'', req_body = body\<rparr>"
proof -
  let ?ls = "[''PUT /api/configuration HTTP/1.1'', ''Host: edge'', ''Content-Length: '' @ dec (length body)]"
  have ok: "?ls \<noteq> []" "\<forall>l\<in>set ?ls. one_line l \<and> l \<noteq> []" by simp_all
  have l: "length body < 2 ^ 64" using assms(3) by (simp add: put_request_def max_request_def)
  then have u: "unat (of_nat (length body) :: u64) = length body" by (simp add: unat_of_nat)
  have "getlines (joined ?ls) = [''PUT /api/configuration HTTP/1.1'' @ [CHR 0x0D], ''Host: edge'' @ [CHR 0x0D], ''Content-Length: '' @ dec (length body)]"
    unfolding getlines_joined [OF ok] by simp
  then have h: "parse_head (joined ?ls) = (''PUT'', ''/api/configuration'', length body)"
    using l trim_value [of "length body"]
    by (simp add: parse_head_def next_word_def is_space_def header_step_def trim_def is_blank_def Let_def stoul_dec u)
  have "read_request pieces = request_of (put_request body)"
    using request_chunking [OF assms(1)] assms(2,3) by simp
  also have "\<dots> = Received \<lparr>req_method = ''PUT'', req_target = ''/api/configuration'', req_body = body\<rparr>"
    unfolding put_request_def request_of_lines [OF ok h] by simp
  finally show ?thesis .
qed

lemma configuration_path: "request_path ''/api/configuration'' = ''/api/configuration''"
  by (simp add: request_path_def urlDecode_decoded)

lemma handle_put:
  assumes "[] \<notin> set pieces" and "concat pieces = put_request body" and "length (put_request body) < max_request"
  shows "handleClient e pieces s D =
    (case put_configuration (json_of e) body s D of
       None \<Rightarrow> None
     | Some (Inl f) \<Rightarrow> Some (Inl f)
     | Some (Inr (answer, s', D')) \<Rightarrow> Some (bind_sum (reply (json_of e) answer) (\<lambda>out. Inr (Some out, s', D'))))"
  using read_put [OF assms] by (simp add: handleClient_def configuration_path route_def)

lemma put_answered:
  assumes "[] \<notin> set pieces" and "concat pieces = put_request body" and "length (put_request body) < max_request"
    and lib: "json_lib_ok (json_of e)"
    and input: "json_parse (json_of e) body = Inr (build [(''automatic'', J_Bool False), (''allocation_strategy'', J_Str alloc),
      (''scheduling_algorithm'', J_Str sched)])"
    and names: "allocationFromString alloc = (a, True)" "rt_schedulingFromString sched = (b, True)"
    and "components_set s" and dump: "\<forall>j. \<exists>text. json_dump (json_of e) j = Inr text"
  shows "\<exists>s' c text. handleClient e pieces s D =
      Some (Inr (Some (makeResponse 200 ''OK'' ''application/json; charset=utf-8'' text), s', D)) \<and>
    json_dump (json_of e) (build [(''success'', J_Bool True), (''configuration'', c)]) = Inr text \<and>
    at_key ''allocation_strategy'' c = Inr (J_Str alloc) \<and> at_key ''scheduling_algorithm'' c = Inr (J_Str sched) \<and>
    strategy s' = a \<and> sched_strategy s' = b \<and> \<not> automatic_mode (rt_config s') \<and> nodes s' = nodes s \<and> tasks s' = tasks s \<and> next_task s' = next_task s"
proof -
  have st: "settings (json_of e) body = Inr (False, alloc, sched)"
    using json_libD(4,5) [OF lib] by (simp add: settings_def input build_def put_all_def)
  obtain s' where ap: "applyConfiguration False alloc sched s = (True, '''', s')"
      and s': "strategy s' = a" "sched_strategy s' = b" "components_set s'" "\<not> automatic_mode (rt_config s')" "nodes s' = nodes s" "tasks s' = tasks s" "next_task s' = next_task s"
    using names \<open>components_set s\<close> by (auto simp: applyConfiguration_def setStrategy_def setSchedStrategy_def Let_def)
  have n: "allocationToString a = alloc" "schedulingToString b = sched" using names_canonical names by auto
  obtain c where c: "configuration s' = Inr c" "at_key ''allocation_strategy'' c = Inr (J_Str alloc)"
      "at_key ''scheduling_algorithm'' c = Inr (J_Str sched)"
    using s' n by (auto simp: configuration_def Let_def at_build)
  obtain printed where t: "json_dump (json_of e) (build [(''success'', J_Bool True), (''configuration'', c)]) = Inr printed" using dump by blast
  have "handleClient e pieces s D = Some (Inr (Some (makeResponse 200 ''OK'' ''application/json; charset=utf-8'' printed), s', D))"
    using ap c(1) t handle_put [OF assms(1-3), of e s D]
    by (simp add: put_configuration_def st answer_json_def reply_def makeJsonResponse_def statusText_def)
  with c s' t show ?thesis by blast
qed


text \<open>Bytes no UTF-8 text has, and what the library documents of printing: it throws on a text that is not UTF-8.\<close>

definition never_utf8 :: "string \<Rightarrow> bool" where
  "never_utf8 s \<longleftrightarrow> (\<exists>c\<in>set s. 248 \<le> (of_char c :: nat))"

definition dump_strict :: "json_lib \<Rightarrow> bool" where
  "dump_strict lib \<longleftrightarrow> (\<forall>k s. never_utf8 s \<longrightarrow> json_dump lib (J_Obj [(k, J_Str s)]) = Inl Type_Error)"

text \<open>C28: a body that is not JSON is answered with the text of the parser's exception, which quotes what it read.
  A byte that no UTF-8 text has gets quoted with it, and a text with such a byte cannot be printed: the
  handler of the exception throws itself, and the whole program ends.\<close>

theorem bad_body_ends_program:
  assumes "[] \<notin> set pieces" and "concat pieces = put_request body" and "length (put_request body) < max_request"
    and "json_parse (json_of e) body = Inl ex" and "never_utf8 (what (json_of e) ex)" and "dump_strict (json_of e)"
  shows "handleClient e pieces s D = Some (Inl Terminate)"
proof -
  have "json_dump (json_of e) (build [(''error'', J_Str (what (json_of e) ex))]) = Inl Type_Error"
    using assms(5,6) by (simp add: dump_strict_def build_def put_all_def)
  then show ?thesis
    using handle_put [OF assms(1-3), of e s D] assms(4)
    by (simp add: put_configuration_def settings_def answer_json_def reply_def makeJsonResponse_def)
qed

text \<open>Surroundings for evaluation: a library that reads one text, quotes what it cannot read, and prints
  only UTF-8.\<close>

definition picky_lib :: json_lib where
  "picky_lib = demo_lib\<lparr>
     json_parse := (\<lambda>s. if s = ''settings'' then Inr (build [(''automatic'', J_Bool False), (''allocation_strategy'', J_Str ''least_load''),
        (''scheduling_algorithm'', J_Str ''edf'')]) else Inl (Parse_Error (''last read: '' @ s))),
     json_dump := (\<lambda>j. case j of J_Obj [(k, J_Str s)] \<Rightarrow> if never_utf8 s then Inl Type_Error else Inr s | _ \<Rightarrow> Inr ''{}'')\<rparr>"

definition calm_lib :: json_lib where
  "calm_lib = picky_lib\<lparr>json_dump := (\<lambda>j. Inr ''{}'')\<rparr>"

definition surroundings_with :: "json_lib \<Rightarrow> unit surroundings" where
  "surroundings_with lib = \<lparr>sqlite_of = ok_lib, json_of = lib, sqrt_fn = id, seconds_fn = (\<lambda>_. 0), steady_now = 0, task_now = 0,
     entry_clocks = (\<lambda>_. (0, 0)), node_clocks = (\<lambda>_ _. (0, 0))\<rparr>"

abbreviation demo_db :: "unit database" where
  "demo_db \<equiv> \<lparr>conn = (), db_handle = None, db_initialized = False\<rparr>"

lemma demo_put:
  assumes "components_set s"
  shows "\<exists>s' text. handleClient (surroundings_with calm_lib) [put_request ''settings''] s D =
      Some (Inr (Some (makeResponse 200 ''OK'' ''application/json; charset=utf-8'' text), s', D)) \<and>
    strategy s' = LEAST_LOAD \<and> sched_strategy s' = EARLIEST_DEADLINE_FIRST \<and> next_task s' = next_task s"
proof -
  have lib: "json_lib_ok (json_of (surroundings_with calm_lib))"
    using demo_lib_ok by (simp add: surroundings_with_def calm_lib_def picky_lib_def json_lib_ok_def)
  have n: "allocationFromString ''least_load'' = (LEAST_LOAD, True)" "rt_schedulingFromString ''edf'' = (EARLIEST_DEADLINE_FIRST, True)"
    by (simp_all add: allocationFromString_def rt_schedulingFromString_def)
  have p: "[] \<notin> set [put_request ''settings'']" "concat [put_request ''settings''] = put_request ''settings''"
      "length (put_request ''settings'') < max_request"
    by (simp_all add: put_request_def max_request_def dec.simps crlf_def)
  show ?thesis
    using put_answered [OF p lib _ n assms, of D]
    by (auto simp: surroundings_with_def calm_lib_def picky_lib_def)
qed


theorem bad_body_ends_program_witness:
  "handleClient (surroundings_with picky_lib) [put_request [CHR 0xFF]] demo_runtime demo_db = Some (Inl Terminate)"
proof (rule bad_body_ends_program)
  show "json_parse (json_of (surroundings_with picky_lib)) [CHR 0xFF] = Inl (Parse_Error (''last read: '' @ [CHR 0xFF]))"
    by (simp add: surroundings_with_def picky_lib_def)
  show "never_utf8 (what (json_of (surroundings_with picky_lib)) (Parse_Error (''last read: '' @ [CHR 0xFF])))"
    by (simp add: surroundings_with_def picky_lib_def demo_lib_def never_utf8_def)
  show "dump_strict (json_of (surroundings_with picky_lib))"
    by (simp add: surroundings_with_def picky_lib_def dump_strict_def)
qed (simp_all add: put_request_def max_request_def dec.simps crlf_def)

theorem responses_and_effects_witness:
  "\<exists>out. handleClient (surroundings_with calm_lib) [replicate max_request (CHR ''x'')] demo_runtime demo_db = Some (Inr (Some out, demo_runtime, demo_db)) \<and>
     (\<exists>code\<in>{200, 204, 400, 404}. \<exists>kind\<in>{''text/plain'', ''application/json; charset=utf-8''}. \<exists>body.
        out = makeResponse code (statusText code) kind body)"
proof -
  let ?big = "replicate max_request (CHR ''x'')"
  have n: "find_sub (crlf @ crlf) (replicate n (CHR ''x'')) = None" for n by (induction n) (simp_all add: crlf_def)
  have "max_request \<noteq> 0" by (simp add: max_request_def)
  then have "read_request [?big] = Malformed"
    by (simp add: read_request_def read_head.simps contains_sub_def n) (simp add: crlf_def)
  then have h: "handleClient (surroundings_with calm_lib) [?big] demo_runtime demo_db =
      Some (Inr (Some (makeResponse 400 (statusText 400) ''text/plain'' ''Malformed HTTP request''), demo_runtime, demo_db))"
    by (simp add: handleClient_def)
  from responses_and_effects [OF this] h show ?thesis by blast
qed

end
