(* ===== verification/Web_Main.thy ===== *)
theory Web_Main
  imports Http_Server
begin

text \<open>
  \<^verbatim>\<open>main.cpp\<close> with \<^verbatim>\<open>--web\<close>: the runtime is initialized, the server started, the runtime started, and the
  main thread waits until the server no longer runs. The exit code and the final state are the result; the
  wait has fuel, and running out of it is \<open>None\<close>, as the program is meant to wait forever.
\<close>

section \<open>The program\<close>

text \<open>Carrying out the calls the log of the runtime holds.\<close>

definition flush :: "'d sqlite \<Rightarrow> runtime \<times> 'd database \<Rightarrow> runtime \<times> 'd database" where
  "flush L = (\<lambda>(s, D). (s\<lparr>db_calls := []\<rparr>, perform_all L (db_calls s) D))"

text \<open>\<open>others j\<close> is what the other threads do in the sleep of the \<open>j\<close>th poll.\<close>

fun wait_loop :: "(nat \<Rightarrow> http_server \<times> runtime \<times> 'd database \<Rightarrow> http_server \<times> runtime \<times> 'd database) \<Rightarrow> nat \<Rightarrow> nat \<Rightarrow>
    http_server \<times> runtime \<times> 'd database \<Rightarrow> (http_server \<times> runtime \<times> 'd database) option" where
  "wait_loop others j fuel st =
     (if \<not> srv_running (fst st) then Some st
      else case fuel of 0 \<Rightarrow> None | Suc k \<Rightarrow> wait_loop others (Suc j) k (others j st))"

declare wait_loop.simps [simp del]

text \<open>The server goes out of scope at the end, which stops it. \<open>in_start\<close> are the steps of its thread while it is
  started, \<open>stopping\<close> those while it is stopped, \<open>ending_of\<close> what the runtime's threads still do.\<close>

definition web_main :: "'d sqlite \<Rightarrow> (nat \<Rightarrow> node_draw) \<Rightarrow> (nat \<Rightarrow> int) \<Rightarrow> profile_source \<Rightarrow> listener \<Rightarrow> (nat \<Rightarrow> nat) \<Rightarrow> nat \<Rightarrow> int \<Rightarrow>
    (runtime \<Rightarrow> runtime) \<Rightarrow> (nat \<Rightarrow> http_server \<times> runtime \<times> 'd database \<Rightarrow> http_server \<times> runtime \<times> 'd database) \<Rightarrow> nat \<Rightarrow>
    simulation_config \<Rightarrow> runtime \<Rightarrow> 'd database \<Rightarrow> (fault + int \<times> http_server \<times> runtime \<times> 'd database) option" where
  "web_main L draws clk src l in_start stopping now ending_of others fuel cfg s D =
     (case rt_initialize L draws clk src 0 cfg s D of
        Inl f \<Rightarrow> Some (Inl f)
      | Inr (False, g, s1, D1) \<Rightarrow> (case flush L (s1, D1) of (s2, D2) \<Rightarrow> Some (Inr (1, new_server, s2, db_close L D2)))
      | Inr (True, g, s1, D1) \<Rightarrow>
          (case flush L (s1, D1) of (s2, D2) \<Rightarrow>
          (case http_start l in_start new_server of
             Inl f \<Rightarrow> Some (Inl f)
           | Inr (False, v) \<Rightarrow> Some (Inr (1, http_stop l stopping v, rt_stop ending_of s2, db_close L D2))
           | Inr (True, v) \<Rightarrow>
               (case rt_start now s2 of
                  Inl f \<Rightarrow> Some (Inl f)
                | Inr (False, s3) \<Rightarrow> Some (Inr (1, http_stop l stopping v, s3, db_close L D2))
                | Inr (True, s3) \<Rightarrow>
                    (case wait_loop others 0 fuel (v, s3, D2) of
                       None \<Rightarrow> None
                     | Some (v', s4, D3) \<Rightarrow>
                         (case flush L (rt_stop ending_of s4, D3) of (s5, D4) \<Rightarrow>
                            Some (Inr (0, http_stop l stopping v', s5, db_close L D4))))))))"

section \<open>Properties\<close>

lemma serve_quietly_not_running: "\<not> srv_running v \<Longrightarrow> \<not> srv_running ((serve_quietly l ^^ n) v)"
  by (induction n) (auto simp: server_defs Let_def split: phase.splits)

lemma serve_quietly_owned [simp]: "thread_owned ((serve_quietly l ^^ n) v) = thread_owned v"
  by (induction n) (auto simp: server_defs Let_def split: phase.splits)

lemma http_stop_stopped: "\<not> srv_running (http_stop l n v) \<and> \<not> thread_owned (http_stop l n v)"
  using serve_quietly_not_running [of "v\<lparr>srv_running := False\<rparr>" n l]
    serve_quietly_not_running [of "v\<lparr>srv_running := False, server_fd := - 1\<rparr>" n l]
  by (auto simp: http_stop_def Let_def)

lemma db_close_closed: "db_handle (db_close L D) = None \<and> \<not> db_initialized (db_close L D)"
  by (auto simp: db_close_def Let_def split: option.splits prod.splits)



end
