(* ===== verification/Web_Simulation.thy ===== *)
theory Web_Simulation
  imports Live_Simulation Web_Main
begin

text \<open>
  The web program with its clients: the threads of the runtime make the steps of the simulation and write to
  the database as they go, and in between any number of clients send any bytes they like. A client's request
  makes only steps the simulation could make anyway, so what holds of the simulation holds of the web
  program whatever its clients do.
\<close>

section \<open>The web program\<close>

text \<open>A request that would change the strategies waits for the allocator's mutex, which the producer holds while it
  tries to place a task. What a thread adds to the log is carried out at once.\<close>

inductive web_step :: "'d sqlite \<Rightarrow> (runtime \<times> producer \<times> (nref \<Rightarrow> worker)) \<times> 'd database \<Rightarrow>
    (runtime \<times> producer \<times> (nref \<Rightarrow> worker)) \<times> 'd database \<Rightarrow> bool" for L where
  thread: "sys_step (s, p, w) (s', p', w') \<Longrightarrow>
    web_step L ((s, p, w), D) ((s', p', w'), perform_all L (drop (length (db_calls s)) (db_calls s')) D)"
| client: "handleClient e pieces s D = Some (Inr (sent, s', D')) \<Longrightarrow> sqlite_of e = L \<Longrightarrow>
    s' \<noteq> s \<longrightarrow> (\<forall>t n. p \<noteq> P_Waiting t n) \<Longrightarrow> web_step L ((s, p, w), D) ((s', p, w), D')"

section \<open>A request is a run of the simulation\<close>

lemma configure_run:
  assumes "\<forall>t n. p \<noteq> P_Waiting t n"
  shows "sys_step\<^sup>*\<^sup>* (s, p, w) (setSchedStrategy sst (setStrategy st s), p, w)"
  by (rule r_into_rtranclp, rule sys_step.configure [OF assms])

lemma outside_run: "executor.truncate s' = executor.truncate s \<Longrightarrow> sys_step\<^sup>*\<^sup>* (s, p, w) (s', p, w)"
  by (rule r_into_rtranclp, rule sys_step.outside)

lemma recommended_run:
  assumes "\<forall>t n. p \<noteq> P_Waiting t n"
  shows "sys_step\<^sup>*\<^sup>* (s, p, w) (chooseRecommendedConfiguration s, p, w)"
  by (simp add: chooseRecommendedConfiguration_def Let_def case_prod_beta configure_run [OF assms])

lemma apply_run:
  assumes "applyConfiguration automatic allocation scheduling s = (ok, err, s')" "\<forall>t n. p \<noteq> P_Waiting t n"
  shows "sys_step\<^sup>*\<^sup>* (s, p, w) (s', p, w)"
proof -
  have auto: "sys_step\<^sup>*\<^sup>* (s, p, w) (chooseRecommendedConfiguration (s\<lparr>rt_config := c\<rparr>), p, w)" for c
    using outside_run [of "s\<lparr>rt_config := c\<rparr>" s p w] recommended_run [OF assms(2)]
    by (auto simp: executor.truncate_def intro: rtranclp_trans)
  have manual: "sys_step\<^sup>*\<^sup>* (s, p, w) ((setSchedStrategy sst (setStrategy st s))\<lparr>rt_config := c\<rparr>, p, w)" for st sst c
    using configure_run [OF assms(2), of s w sst st] outside_run [of "(setSchedStrategy sst (setStrategy st s))\<lparr>rt_config := c\<rparr>" _ p w]
    by (auto simp: executor.truncate_def intro: rtranclp_trans)
  show ?thesis using assms(1) auto manual by (auto simp: applyConfiguration_def Let_def split: if_splits prod.splits bool.splits)
qed

lemma route_run:
  assumes "route e m path body s D = Some (Inr (r, s', D'))" "s' \<noteq> s" "\<forall>t n. p \<noteq> P_Waiting t n"
  shows "sys_step\<^sup>*\<^sup>* (s, p, w) (s', p, w)"
proof -
  have "m = ''PUT'' \<and> path = ''/api/configuration''" by (rule route_answer(2) [OF assms(1,2)])
  then have "put_configuration (json_of e) body s D = Some (Inr (r, s', D'))" using assms(1) by (simp add: route_def)
  then obtain a al sc ok err where "applyConfiguration a al sc s = (ok, err, s')"
    using assms(2) by (auto simp: put_configuration_def answer_json_def split: sum.splits prod.splits bool.splits)
  then show ?thesis using apply_run [OF _ assms(3)] by blast
qed

lemma client_run:
  assumes "handleClient e pieces s D = Some (Inr (sent, s', D'))" "s' \<noteq> s \<longrightarrow> (\<forall>t n. p \<noteq> P_Waiting t n)"
  shows "sys_step\<^sup>*\<^sup>* (s, p, w) (s', p, w)"
proof (cases "s' = s")
  case False
  then obtain e m path body r D1 where "route e m path body s D = Some (Inr (r, s', D1))"
    using assms(1) by (auto simp: handleClient_def bind_sum_Inr split: read_result.splits if_splits option.splits sum.splits)
  then show ?thesis using route_run False assms(2) by blast
qed simp

lemma web_run: "(web_step L)\<^sup>*\<^sup>* x y \<Longrightarrow> sys_step\<^sup>*\<^sup>* (fst x) (fst y)"
proof (induction rule: rtranclp_induct)
  case (step y z)
  have "sys_step\<^sup>*\<^sup>* (fst y) (fst z)"
    using step.hyps(2) by cases (auto intro: client_run)
  then show ?case using step.IH by (rule rtranclp_trans [rotated])
qed simp

section \<open>Whatever the clients send\<close>



end
