(* ===== verification/Logger.thy ===== *)
theory Logger
  imports Prelude
begin

text \<open>
  \<^verbatim>\<open>logger.h\<close> and \<^verbatim>\<open>logger.cpp\<close>: the level filter, the line of a message and where it goes. What
  \<^verbatim>\<open>strftime\<close> returns and the success of opening a file are arguments. The mutex is taken for the whole
  of a line, so a call is one step.
\<close>

section \<open>Levels\<close>

datatype level = LOG_DEBUG | LOG_INFO | LOG_WARN | LOG_ERROR

text \<open>The order of the enumerators.\<close>

fun level_to_int :: "level \<Rightarrow> int" where
  "level_to_int LOG_DEBUG = 0"
| "level_to_int LOG_INFO = 1"
| "level_to_int LOG_WARN = 2"
| "level_to_int LOG_ERROR = 3"

lemma level_to_int_inject: "level_to_int a = level_to_int b \<longleftrightarrow> a = b"
  by (cases a; cases b) simp_all

instantiation level :: linorder
begin

definition less_eq_level :: "level \<Rightarrow> level \<Rightarrow> bool" where
  "less_eq_level a b \<longleftrightarrow> level_to_int a \<le> level_to_int b"

definition less_level :: "level \<Rightarrow> level \<Rightarrow> bool" where
  "less_level a b \<longleftrightarrow> level_to_int a < level_to_int b"

instance
  by standard (auto simp: less_eq_level_def less_level_def level_to_int_inject)

end

fun levelToString :: "level \<Rightarrow> string" where
  "levelToString LOG_DEBUG = ''DEBUG''"
| "levelToString LOG_INFO = ''INFO''"
| "levelToString LOG_WARN = ''WARN''"
| "levelToString LOG_ERROR = ''ERROR''"

section \<open>The logger\<close>

text \<open>The stream of the log file is open or not, and failed or not; writing to a failed stream does nothing.\<close>

record logger =
  min_level :: level
  file_enabled :: bool
  file_open :: bool
  file_failed :: bool
  console_out :: "string list"
  console_err :: "string list"
  file_lines :: "string list"

definition new_logger :: logger where
  "new_logger = \<lparr>min_level = LOG_INFO, file_enabled = False, file_open = False, file_failed = False,
     console_out = [], console_err = [], file_lines = []\<rparr>"

text \<open>Opening a stream that is open fails and leaves it open.\<close>

definition setLogFile :: "bool \<Rightarrow> logger \<Rightarrow> logger" where
  "setLogFile opened l =
     (let l1 = (if file_open l then l\<lparr>file_failed := True\<rparr> else l\<lparr>file_open := opened, file_failed := \<not> opened\<rparr>)
      in l1\<lparr>file_enabled := file_open l1\<rparr>)"

definition setMinLevel :: "level \<Rightarrow> logger \<Rightarrow> logger" where
  "setMinLevel v l = l\<lparr>min_level := v\<rparr>"

text \<open>The number of characters \<^verbatim>\<open>strftime\<close> wrote, and the text.\<close>

definition currentTimestamp :: "nat \<times> string \<Rightarrow> string" where
  "currentTimestamp stamp = (if fst stamp = 0 then ''0000-00-00 00:00:00'' else snd stamp)"

definition log_line :: "nat \<times> string \<Rightarrow> level \<Rightarrow> string \<Rightarrow> string \<Rightarrow> string" where
  "log_line stamp v component message =
     ''['' @ currentTimestamp stamp @ ''] ['' @ levelToString v @ ''] ['' @ component @ ''] '' @ message"

definition log_message :: "nat \<times> string \<Rightarrow> level \<Rightarrow> string \<Rightarrow> string \<Rightarrow> logger \<Rightarrow> logger" where
  "log_message stamp v component message l =
     (if v < min_level l then l
      else let line = log_line stamp v component message;
               l1 = (if v = LOG_ERROR \<or> v = LOG_WARN then l\<lparr>console_err := console_err l @ [line]\<rparr>
                     else l\<lparr>console_out := console_out l @ [line]\<rparr>)
           in if file_enabled l1 \<and> file_open l1 \<and> \<not> file_failed l1 then l1\<lparr>file_lines := file_lines l1 @ [line]\<rparr> else l1)"

definition log_debug :: "nat \<times> string \<Rightarrow> string \<Rightarrow> string \<Rightarrow> logger \<Rightarrow> logger" where
  "log_debug stamp = log_message stamp LOG_DEBUG"

definition log_info :: "nat \<times> string \<Rightarrow> string \<Rightarrow> string \<Rightarrow> logger \<Rightarrow> logger" where
  "log_info stamp = log_message stamp LOG_INFO"

definition log_warn :: "nat \<times> string \<Rightarrow> string \<Rightarrow> string \<Rightarrow> logger \<Rightarrow> logger" where
  "log_warn stamp = log_message stamp LOG_WARN"

definition log_error :: "nat \<times> string \<Rightarrow> string \<Rightarrow> string \<Rightarrow> logger \<Rightarrow> logger" where
  "log_error stamp = log_message stamp LOG_ERROR"

section \<open>Properties\<close>

text \<open>A sequence of messages.\<close>

definition log_all :: "((nat \<times> string) \<times> level \<times> string \<times> string) list \<Rightarrow> logger \<Rightarrow> logger" where
  "log_all ms l = fold (\<lambda>(stamp, v, component, message). log_message stamp v component message) ms l"

definition lines_where :: "(level \<Rightarrow> bool) \<Rightarrow> ((nat \<times> string) \<times> level \<times> string \<times> string) list \<Rightarrow> string list" where
  "lines_where P ms = map (\<lambda>(stamp, v, component, message). log_line stamp v component message) (filter (\<lambda>(stamp, v, component, message). P v) ms)"

lemma log_message_kept [simp]:
  "min_level (log_message stamp v c m l) = min_level l" "file_enabled (log_message stamp v c m l) = file_enabled l"
  "file_open (log_message stamp v c m l) = file_open l" "file_failed (log_message stamp v c m l) = file_failed l"
  by (auto simp: log_message_def Let_def)

lemma severe: "v = LOG_ERROR \<or> v = LOG_WARN \<longleftrightarrow> LOG_WARN \<le> v"
  by (cases v) (simp_all add: less_eq_level_def)

lemma log_message_adds:
  "console_err (log_message stamp v c m l) = console_err l @ (if min_level l \<le> v \<and> LOG_WARN \<le> v then [log_line stamp v c m] else [])"
  "console_out (log_message stamp v c m l) = console_out l @ (if min_level l \<le> v \<and> v < LOG_WARN then [log_line stamp v c m] else [])"
  "file_lines (log_message stamp v c m l) = file_lines l @
     (if min_level l \<le> v \<and> file_enabled l \<and> file_open l \<and> \<not> file_failed l then [log_line stamp v c m] else [])"
  by (simp_all add: log_message_def Let_def severe not_le not_less [symmetric])

text \<open>no message is lost or reordered: of any sequence of messages, those below the least level are dropped,
  the warnings and errors that remain are on the error stream, the others on the output stream, each stream
  in the order of the calls, and a log file that could be opened has all of them.\<close>

theorem messages_routed:
  "console_err (log_all ms l) = console_err l @ lines_where (\<lambda>v. min_level l \<le> v \<and> LOG_WARN \<le> v) ms \<and>
   console_out (log_all ms l) = console_out l @ lines_where (\<lambda>v. min_level l \<le> v \<and> v < LOG_WARN) ms \<and>
   file_lines (log_all ms l) = file_lines l @
     (if file_enabled l \<and> file_open l \<and> \<not> file_failed l then lines_where (\<lambda>v. min_level l \<le> v) ms else [])"
proof (induction ms arbitrary: l)
  case Nil
  then show ?case by (simp add: log_all_def lines_where_def)
next
  case (Cons x ms)
  obtain stamp v c m where x: "x = (stamp, v, c, m)" by (cases x) auto
  have a: "log_all (x # ms) l = log_all ms (log_message stamp v c m l)" by (simp add: log_all_def x)
  show ?case
    unfolding a using Cons.IH [of "log_message stamp v c m l"] by (simp add: log_message_adds lines_where_def x)
qed

end
