(* ===== verification/Program.thy ===== *)
theory Program
  imports Web_Main Whole_Experiment Logger
begin

text \<open>
  The whole of \<^verbatim>\<open>main\<close>: the command line decides between the usage, the web program and the batch program,
  which prints its results. The surroundings of the program (the database library, the clock, the draws,
  what its other threads do, how the library prints a double) are gathered in one record. Of the log
  only the lines that \<^verbatim>\<open>main.cpp\<close> itself writes are kept here.
\<close>

section \<open>The surroundings\<close>

record 'd host =
  program_name :: string
  library :: "'d sqlite"
  root_of :: "double \<Rightarrow> double"
  fleet_draws :: "nat \<Rightarrow> node_draw"
  device_clock :: "nat \<Rightarrow> int"
  stored_profiles :: profile_source
  worlds :: "nat \<Rightarrow> world"
  log_opens :: bool
  stamps :: "nat \<Rightarrow> nat \<times> string"
  experiment_stamps :: "nat \<Rightarrow> nat \<Rightarrow> nat \<times> string"
  to_text :: "double \<Rightarrow> string"
  print_double :: "double \<Rightarrow> string"
  print_fixed2 :: "double \<Rightarrow> string"
  network :: listener
  starting_up :: "nat \<Rightarrow> nat"
  shutting_down :: nat
  steady_now :: int
  runtime_ends :: "runtime \<Rightarrow> runtime"
  while_waiting :: "nat \<Rightarrow> http_server \<times> runtime \<times> 'd database \<Rightarrow> http_server \<times> runtime \<times> 'd database"
  patience :: nat

section \<open>What main prints and logs\<close>

definition line :: "string \<Rightarrow> string" where
  "line l = l @ newline"

definition printUsage :: "string \<Rightarrow> string" where
  "printUsage name = line (''Usage: '' @ name @ '' [options]'') @ newline @ line ''Options:'' @
     line ''  -d, --devices <N>       Number of simulated IoT devices (default: 100)'' @
     line ''  -e, --edges <N>         Number of simulated edge nodes (default: 10)'' @
     line ''  -t, --tasks <N>         Number of tasks to generate (default: 10000)'' @
     line ''  -s, --strategy <name>   round_robin | least_load | priority_based | multi_constraint'' @
     line ''                          (default: multi_constraint)'' @
     line ''  -c, --compare           Run all 4 strategies back-to-back and print a comparison table'' @
     line ''      --mqtt              Enable MQTT publishing (requires a running broker)'' @
     line ''      --broker <addr>     MQTT broker address (default: tcp://localhost:1883)'' @
     line ''      --db <path>         SQLite database path (default: data/simulation.db)'' @
     line ''      --verbose           Enable detailed task lifecycle trace'' @
     line ''  -h, --help              Show this message''"

definition announce :: "'d host \<Rightarrow> simulation_config \<Rightarrow> logger" where
  "announce h cfg =
     (let l0 = setLogFile (log_opens h) new_logger;
          l1 = (if verbose cfg then setMinLevel LOG_DEBUG l0 else l0);
          l2 = log_info (stamps h 0) ''Simulation'' ''Edge IoT Simulator starting.'' l1;
          l3 = log_info (stamps h 1) ''Simulation''
                 (''Config: devices='' @ dec (unat (device_count cfg)) @ '' edges='' @ dec (unat (edge_node_count cfg)) @
                  '' tasks='' @ dec (unat (task_count cfg))) l2;
          l4 = log_info (stamps h 2) ''Simulation'' (''Allocation strategy: '' @ strategyToLabel (strategyFromString (cfg_strategy cfg))) l3;
          l5 = log_info (stamps h 3) ''Simulation'' (''Scheduling algorithm: '' @ schedulingToLabel (schedulingFromString (cfg_scheduling cfg))) l4
      in if verbose cfg then log_info (stamps h 4) ''Simulation'' ''Verbose trace: ENABLED'' l5 else l5)"

definition result_text :: "(double \<Rightarrow> string) \<Rightarrow> string \<times> snapshot \<Rightarrow> string" where
  "result_text show entry = (case entry of (label, p) \<Rightarrow>
     newline @ line (''=== Simulation Results ('' @ label @ '') ==='') @
     line (''Average waiting time:      '' @ show (average_waiting_time_ms p) @ '' ms'') @
     line (''Average latency:           '' @ show (average_latency_ms p) @ '' ms'') @
     line (''Deadline miss rate:        '' @ show (deadline_miss_rate_percent p) @ '' %'') @
     line (''Average CPU utilization:   '' @ show (average_cpu_utilization_percent p) @ '' %'') @
     line (''Load imbalance (stddev):   '' @ show (load_imbalance_stddev p)) @
     line (''Throughput:                '' @ show (throughput_tasks_per_second p) @ '' tasks/sec'') @
     line (''Task success rate:         '' @ show (task_success_rate_percent p) @ '' %''))"

definition batch_text :: "'d host \<Rightarrow> simulation_config \<Rightarrow> (string \<times> snapshot) list \<Rightarrow> string" where
  "batch_text h cfg results =
     (if run_comparison cfg
      then newline @ line ''=== Strategy Comparison (spec section 18) ==='' @ newline @ formatComparisonTable (print_fixed2 h) results
      else concat (map (result_text (print_double h)) results))"

section \<open>main\<close>

datatype 'd program_end =
    Usage string
  | Unknown_Argument string string
  | Bad_Number number_error
  | Crash fault
  | Batch_End int logger string "json executor" "'d database"
  | Web_End int logger http_server runtime "'d database"

text \<open>The exit code; an exception or a fault ends the program without one.\<close>

fun exit_code :: "'d program_end \<Rightarrow> int option" where
  "exit_code (Usage t) = Some 0"
| "exit_code (Unknown_Argument a t) = Some 1"
| "exit_code (Bad_Number e) = None"
| "exit_code (Crash f) = None"
| "exit_code (Batch_End c l out s D) = Some c"
| "exit_code (Web_End c l v s D) = Some c"

text \<open>The last line \<open>main\<close> logs in the batch program.\<close>

definition batch_log :: "'d host \<Rightarrow> simulation_config \<Rightarrow> int \<Rightarrow> 'd database \<Rightarrow> logger \<Rightarrow> logger" where
  "batch_log h cfg code D =
     (if code = 0 then log_info (stamps h 5) ''Simulation'' ''Edge IoT Simulator finished.''
      else if \<not> fst (db_initialize (library h) (db_path cfg) D)
      then log_error (stamps h 5) ''Simulation'' (''Failed to initialize database at '' @ db_path cfg)
      else log_error (stamps h 5) ''Simulation'' ''Failed to reset previous simulation data'')"

text \<open>The state and the devices a batch program starts its first experiment with.\<close>

definition workplace :: "'d host \<Rightarrow> simulation_config \<Rightarrow> json executor \<Rightarrow> iot_device list \<times> json executor" where
  "workplace h cfg s = createDevices (device_clock h) (unat (device_count cfg))
     (save_profiles (s\<lparr>profile_map := loadProfiles (stored_profiles h) (profile_map s)\<rparr>))"

text \<open>What the experiments log: their names, each task they generate and what the allocator has counted. The
  line of a task is written between its creation and its storing, from the same values.\<close>

fun generated_log :: "(nat \<Rightarrow> nat \<times> string) \<Rightarrow> json executor \<Rightarrow> tref \<Rightarrow> nat \<Rightarrow> logger \<Rightarrow> logger" where
  "generated_log stamp s t 0 l = l"
| "generated_log stamp s t (Suc k) l =
     generated_log stamp s (Suc t) k
       (log_debug (stamp t) ''TaskGeneration''
          (''Generated '' @ task_id (tasks s t) @ '' from device '' @ device_id (tasks s t) @ '' (sensor='' @ sensor_type (tasks s t) @ '')'') l)"

fun experiments_log :: "'d host \<Rightarrow> simulation_config \<Rightarrow> nat \<Rightarrow> allocation_strategy list \<Rightarrow> nat \<Rightarrow> iot_device list \<Rightarrow> json executor \<Rightarrow>
    logger \<Rightarrow> logger" where
  "experiments_log h cfg j [] g devices s l = l"
| "experiments_log h cfg j (st # sts) g devices s l =
     (let l1 = log_info (experiment_stamps h j 0) ''Simulation'' (''=== Running experiment: '' @ strategyToLabel st @ '' ==='') l
      in case runExperiment (root_of h) (fleet_draws h) cfg (worlds h j) st g devices s of
           Inl f \<Rightarrow> l1
         | Inr (p, g', devices', s1) \<Rightarrow>
             (let l2 = generated_log (\<lambda>t. experiment_stamps h j (2 + t)) s1 (next_task s) (next_task s1 - next_task s) l1;
                  l3 = log_info (experiment_stamps h j 1) ''Simulation''
                         (''Experiment complete: '' @ dec (unat (getTotalAllocations s1)) @ '' tasks processed, '' @
                          to_text h (getSuccessRate s1) @ ''% allocated successfully.'') l2
              in experiments_log h cfg (Suc j) sts g' devices' s1 l3))"

definition experiment_log :: "'d host \<Rightarrow> simulation_config \<Rightarrow> int \<Rightarrow> json executor \<Rightarrow> logger \<Rightarrow> logger" where
  "experiment_log h cfg code s l =
     (if code = 0
      then case workplace h cfg s of (devices, s2) \<Rightarrow>
             experiments_log h cfg 0 (if run_comparison cfg then all_strategies else [strategyFromString (cfg_strategy cfg)]) 0 devices s2 l
      else l)"

text \<open>What \<open>main\<close> logs in the web program: what failed, or that the server listens.\<close>

definition web_log :: "'d host \<Rightarrow> simulation_config \<Rightarrow> runtime \<Rightarrow> 'd database \<Rightarrow> logger \<Rightarrow> logger" where
  "web_log h cfg rt D l =
     (case rt_initialize (library h) (fleet_draws h) (device_clock h) (stored_profiles h) 0 cfg rt D of
        Inl f \<Rightarrow> l
      | Inr (False, g, rt1, D1) \<Rightarrow> log_error (stamps h 5) ''LiveRuntime'' ''Failed to initialize live runtime.'' l
      | Inr (True, g, rt1, D1) \<Rightarrow>
          (case http_start (network h) (starting_up h) new_server of
             Inl f \<Rightarrow> l
           | Inr (False, v) \<Rightarrow> log_error (stamps h 5) ''HttpApi'' (''Failed to bind HTTP API on port '' @ dec (unat (web_port cfg))) l
           | Inr (True, v) \<Rightarrow>
               (case rt_start (steady_now h) (fst (flush (library h) (rt1, D1))) of
                  Inl f \<Rightarrow> l
                | Inr (False, rt2) \<Rightarrow> log_error (stamps h 5) ''LiveRuntime'' ''Failed to start live processing.'' l
                | Inr (True, rt2) \<Rightarrow>
                    log_info (stamps h 5) ''HttpApi'' (''Dashboard API listening on http://localhost:'' @ dec (unat (web_port cfg))) l)))"

text \<open>\<open>args\<close> are the arguments after the program's name, \<open>s\<close> and \<open>rt\<close> the objects before \<open>main\<close> in the
  batch and the web program, \<open>D\<close> the database's handle. The result is \<open>None\<close> while the web program
  still waits.\<close>

definition main :: "'d host \<Rightarrow> string list \<Rightarrow> json executor \<Rightarrow> runtime \<Rightarrow> 'd database \<Rightarrow> 'd program_end option" where
  "main h args s rt D =
     (case parseArgs args of
        Usage_Exit \<Rightarrow> Some (Usage (printUsage (program_name h)))
      | Unknown_Exit arg \<Rightarrow> Some (Unknown_Argument (line (''Unknown argument: '' @ arg)) (printUsage (program_name h)))
      | Uncaught e \<Rightarrow> Some (Bad_Number e)
      | Parsed cfg \<Rightarrow>
          if web_mode cfg then
            (case web_main (library h) (fleet_draws h) (device_clock h) (stored_profiles h) (network h) (starting_up h) (shutting_down h)
                    (steady_now h) (runtime_ends h) (while_waiting h) (patience h) cfg rt D of
               None \<Rightarrow> None
             | Some (Inl f) \<Rightarrow> Some (Crash f)
             | Some (Inr (code, v, rt', D')) \<Rightarrow> Some (Web_End code (web_log h cfg rt D (announce h cfg)) v rt' D'))
          else
            (case batch_main (library h) (root_of h) (fleet_draws h) (device_clock h) (stored_profiles h) (worlds h) cfg s D of
               Inl f \<Rightarrow> Some (Crash f)
             | Inr (code, results, s', D') \<Rightarrow>
                 Some (Batch_End code (batch_log h cfg code D (experiment_log h cfg code s (announce h cfg))) (if code = 0 then batch_text h cfg results else '''') s' D')))"

section \<open>From the command line to the printed results\<close>

lemma can_begin_same:
  fixes s s' :: "('j, 'm) executor_scheme"
  assumes "can_begin s" "nodes s' = nodes s" "next_node s' = next_node s" "profile_map s' = profile_map s" "tasks s' = tasks s" "next_task s' = next_task s"
  shows "can_begin s'"
  using assms by (simp add: can_begin_def nodes_ok_def tasks_ok_def bw_def)

lemma workplace_spec:
  assumes "workplace h cfg s = (devices, s2)"
  shows "length devices = unat (device_count cfg)" "nodes s2 = nodes s" "next_node s2 = next_node s" "tasks s2 = tasks s"
    "next_task s2 = next_task s" "profile_map s2 = loadProfiles (stored_profiles h) (profile_map s)"
  using create_devices_spec [OF assms [unfolded workplace_def createDevices_def]] by simp_all

lemma workplace_begins:
  assumes "workplace h cfg s = (devices, s2)" "can_begin (s\<lparr>profile_map := loadProfiles (stored_profiles h) (profile_map s)\<rparr>)"
  shows "can_begin s2"
  by (rule can_begin_same [OF assms(2)]) (simp_all add: workplace_spec [OF assms(1)])

text \<open>What \<open>main\<close> does once the experiments have returned.\<close>

lemma batch_program_returns:
  assumes "\<not> web_mode cfg" "log_path cfg = log_path default_config"
    and "db_initialize (library h) (db_path cfg) D = (True, D1)" "resetSimulationData (library h) D1 = (True, D2)"
    and "workplace h cfg s = (devices, s2)"
    and "run_all (root_of h) (fleet_draws h) cfg (worlds h) 0
      (if run_comparison cfg then all_strategies else [strategyFromString (cfg_strategy cfg)]) 0 devices s2 = Inr (results, s')"
  obtains l D' where "main h (command_line cfg) s rt D = Some (Batch_End 0 l (batch_text h cfg results) s' D')" "db_handle D' = None"
proof -
  let ?D' = "db_close (library h) (perform_all (library h) (drop (length (db_calls s)) (db_calls s')) D2)"
  have made: "createDevices (device_clock h) (unat (device_count cfg))
      (save_profiles (s\<lparr>profile_map := loadProfiles (stored_profiles h) (profile_map s)\<rparr>)) = (devices, s2)"
    using assms(5) by (simp add: workplace_def)
  have "batch_main (library h) (root_of h) (fleet_draws h) (device_clock h) (stored_profiles h) (worlds h) cfg s D = Inr (0, results, s', ?D')"
    using assms(6) by (simp add: batch_main_def Let_def made assms(3,4))
  moreover have "parseArgs (command_line cfg) = Parsed cfg"
    using parse_command_line [of cfg "[]"] assms(2) by (simp add: parseArgs_def)
  ultimately have "main h (command_line cfg) s rt D = Some (Batch_End 0 (batch_log h cfg 0 D (experiment_log h cfg 0 s (announce h cfg))) (batch_text h cfg results) s' ?D')"
    using assms(1) by (simp add: main_def)
  then show thesis by (rule that) (simp add: db_close_closed)
qed


section \<open>A concrete program\<close>

definition demo_host :: "unit host" where
  "demo_host = \<lparr>program_name = ''edge_iot_simulator'', library = ok_lib, root_of = \<lambda>x. x, fleet_draws = demo_draws, device_clock = \<lambda>_. 0,
     stored_profiles = Open_Failed, worlds = \<lambda>_. demo_world, log_opens = True, stamps = \<lambda>_. (19, ''2024-01-01 00:00:00''), experiment_stamps = \<lambda>_ _. (19, ''2024-01-01 00:00:00''), to_text = \<lambda>_. ''0.000000'',
     print_double = \<lambda>_. ''0'', print_fixed2 = \<lambda>_. ''0.00'', network = \<lparr>socket_fd = -1, bind_ok = False, listen_ok = False\<rparr>,
     starting_up = \<lambda>_. 0, shutting_down = 0, steady_now = 0, runtime_ends = \<lambda>s. s, while_waiting = \<lambda>_ x. x, patience = 0\<rparr>"


end
