(* ===== verification/Comparison.thy ===== *)
theory Comparison
  imports Program
begin

text \<open>
  The comparison of the four strategies, as \<^verbatim>\<open>main\<close> runs it with the flag for it: the experiments follow
  each other on the same objects, each with new components, so what one of them leaves behind, tasks in
  the queues of nodes nobody looks at any more included, is what the next one begins with.
\<close>

section \<open>One experiment after another\<close>

text \<open>In every sleep of every experiment the workers make steps.\<close>

fun compared_by_workers :: "(double \<Rightarrow> double) \<Rightarrow> (nat \<Rightarrow> node_draw) \<Rightarrow> simulation_config \<Rightarrow> (nat \<Rightarrow> world) \<Rightarrow> nat \<Rightarrow>
    allocation_strategy list \<Rightarrow> nat \<Rightarrow> iot_device list \<Rightarrow> json executor \<Rightarrow> bool" where
  "compared_by_workers sqrt_of draws cfg wds j [] g devices s \<longleftrightarrow> True"
| "compared_by_workers sqrt_of draws cfg wds j (st # sts) g devices s \<longleftrightarrow>
     run_by_workers draws cfg (wds j) st g devices s \<and>
     (case runExperiment sqrt_of draws cfg (wds j) st g devices s of
        Inl f \<Rightarrow> True
      | Inr (p, g', devices', s1) \<Rightarrow> compared_by_workers sqrt_of draws cfg wds (Suc j) sts g' devices' s1)"

text \<open>What holds between two experiments, the first of which began with the \<open>n\<close>th task.\<close>

definition between :: "tref \<Rightarrow> json executor \<Rightarrow> bool" where
  "between n s \<longleftrightarrow> may_begin s \<and> n \<le> next_task s \<and> accounted n (s, P_Idle, \<lambda>_. W_Idle) \<and> log_ok (s, P_Idle, \<lambda>_. W_Idle)"

text \<open>The end of an experiment that began with the \<open>n\<close>th task and has created as many as the configuration asks for:
  its metrics are those of the state, their rates are those of its tasks, and if its nodes have nothing
  left the three counters of the ends of a task add up to all of them.\<close>

definition experiment_end :: "(double \<Rightarrow> double) \<Rightarrow> simulation_config \<Rightarrow> world \<Rightarrow> tref \<Rightarrow> snapshot \<Rightarrow> json executor \<Rightarrow> bool" where
  "experiment_end sqrt_of cfg wd n p s \<longleftrightarrow>
     (let completed = card (ended n s COMPLETED); failed = card (ended n s FAILED); left = in_hand s (\<lambda>_. W_Idle)
      in next_task s = n + unat (task_count cfg) \<and> collect sqrt_of (elapsed wd) s = Inr p \<and>
         deadline_miss_rate_percent p = percentage failed (completed + failed) \<and>
         task_success_rate_percent p = percentage (completed + failed + left) (unat (task_count cfg)) \<and>
         (left = 0 \<longrightarrow>
            unat (total_tasks_executed s) + unat (exec_tasks_failed s) + unat (failed_allocations s) = unat (task_count cfg)))"

lemma accounted_run:
  assumes "reachable s0 \<sigma>" "begin_ok s0" "accounted n (s0, P_Idle, \<lambda>_. W_Idle)"
  shows "accounted n \<sigma>"
  using assms(1)
proof induction
  case start
  show ?case by (rule assms(3))
next
  case (step \<sigma> \<sigma>')
  then show ?case using accounted_sys_step begin_ok_reachable(1) [OF assms(2)] by blast
qed

text \<open>The setup of an experiment leaves the old nodes and the tasks alone.\<close>

lemma setup_frame:
  assumes "may_begin s" "setup_experiment draws g n st scheduling s = Inr (edges, g', s0)"
  shows "tasks s0 = tasks s" "next_task s0 = next_task s" "next_node s0 = next_node s + n" "registered s0 = {next_node s..<next_node s + n}"
    "\<And>t l. held (s, P_Idle, \<lambda>_. W_Idle) t l \<Longrightarrow> held (s0, P_Idle, \<lambda>_. W_Idle) t l"
    "r \<notin> registered s0 \<Longrightarrow> nodes s0 r = nodes s r"
proof -
  have ready: "ready (next_node s) n (\<lambda>j. draws (g + j)) s0"
    and old: "\<forall>r. r < next_node s \<or> next_node s + n \<le> r \<longrightarrow> nodes s0 r = nodes s r"
    and same: "tasks s0 = tasks s" "next_task s0 = next_task s"
    using setup_ready [of draws g n st scheduling s] assms(2) by auto
  show "tasks s0 = tasks s" "next_task s0 = next_task s" "next_node s0 = next_node s + n" and reg: "registered s0 = {next_node s..<next_node s + n}"
    using ready same by (simp_all add: ready_def)
  show "nodes s0 r = nodes s r" if "r \<notin> registered s0" for r using that old reg by (auto simp: not_less not_le)
  fix t l
  assume h: "held (s, P_Idle, \<lambda>_. W_Idle) t l"
  then obtain r where r: "l = L_Queue r" "t \<in> set (task_queue (nodes s r))" by (cases l) auto
  then have "task_queue (nodes s r) \<noteq> []" by auto
  then have "r < next_node s" using assms(1) by (simp add: may_begin_def)
  then show "held (s0, P_Idle, \<lambda>_. W_Idle) t l" using r old by simp
qed

lemma setup_queues:
  assumes "may_begin s" "draws_ok draws g n" "setup_experiment draws g n st scheduling s = Inr (edges, g', s0)"
    and "held (s0, P_Idle, \<lambda>_. W_Idle) t l"
  shows "held (s, P_Idle, \<lambda>_. W_Idle) t l"
proof -
  obtain r where r: "l = L_Queue r" "t \<in> set (task_queue (nodes s0 r))" using assms(4) by (cases l) auto
  then have "r \<notin> registered s0" using setup_may_begin(1) [OF assms(1-3)] by (auto simp: begin_ok_def)
  then show ?thesis using r setup_frame(6) [OF assms(1,3)] by simp
qed

lemma stopped_may_begin:
  assumes "may_begin s" "draws_ok draws g n" "setup_experiment draws g n st scheduling s = Inr (edges, g', s0)"
    and "reachable s0 (s', P_Idle, \<lambda>_. W_Idle)"
  shows "may_begin (exec_stop s')"
proof -
  note begins = setup_may_begin(1) [OF assms(1-3)] and frame = setup_frame(3,4,6) [OF assms(1,3)]
  note ok = begin_ok_reachable [OF begins assms(4)]
  have parts: "base_ok s'" "owned (s', P_Idle, \<lambda>_. W_Idle)" "homes_ok (s', P_Idle, \<lambda>_. W_Idle)" using ok(1) by (simp_all add: sys_ok_def)
  have same: "next_node (exec_stop s') = next_node s'" "profile_map (exec_stop s') = profile_map s'" by (simp_all add: exec_stop_def)
  have "owned (exec_stop s', P_Idle, \<lambda>_. W_Idle)" by (rule owned_cong [OF parts(2)]) simp_all
  moreover have "homes_ok (exec_stop s', P_Idle, \<lambda>_. W_Idle)" by (rule homes_cong [OF parts(3)]) simp_all
  moreover have "r < next_node s'" if "task_queue (nodes s' r) \<noteq> []" for r
  proof (cases "r \<in> registered s0")
    case True
    then show ?thesis using frame(1,2) ok(7) by simp
  next
    case False
    then have "task_queue (nodes s r) \<noteq> []" using that ok(6) frame(3) by simp
    then have "r < next_node s" using assms(1) by (simp add: may_begin_def)
    then show ?thesis using frame(1) ok(7) by simp
  qed
  ultimately show ?thesis
    using parts(1) ok(2) by (simp add: may_begin_def base_ok_def bw_ok_def halves_ok_def nodes_ok_def tasks_ok_def bw_def same)
qed

lemma experiment_between:
  assumes "between n s" "draws_ok draws g (unat (edge_node_count cfg))" "devices \<noteq> []"
    and "next_task s + unat (task_count cfg) < 2 ^ 63" "run_by_workers draws cfg wd st g devices s"
  obtains p devices' s' where "runExperiment sqrt_of draws cfg wd st g devices s = Inr (p, g + unat (edge_node_count cfg), devices', s')"
    "devices' \<noteq> []" "between n s'" "next_task s' = next_task s + unat (task_count cfg)" "experiment_end sqrt_of cfg wd (next_task s) p s'"
proof -
  have may: "may_begin s" and n: "n \<le> next_task s" and idle: "accounted n (s, P_Idle, \<lambda>_. W_Idle)" "log_ok (s, P_Idle, \<lambda>_. W_Idle)"
    using assms(1) by (simp_all add: between_def)
  obtain p devices' edges s1 s4 where
    run: "runExperiment sqrt_of draws cfg wd st g devices s = Inr (p, g + unat (edge_node_count cfg), devices', exec_stop s4)"
    and p: "collect sqrt_of (elapsed wd) (exec_stop s4) = Inr p" and ds: "devices' \<noteq> []"
    and began: "setup_experiment draws g (unat (edge_node_count cfg)) st (cfg_scheduling cfg) s = Inr (edges, g + unat (edge_node_count cfg), s1)"
    and last: "reachable s1 (s4, P_Idle, \<lambda>_. W_Idle)" "next_task s4 = next_task s + unat (task_count cfg)"
    by (rule experiment_run [OF may assms(2-5), of sqrt_of])
  note start = setup_may_begin [OF may assms(2) began] setup_counters_zero [OF began] and frame = setup_frame [OF may began]
  obtain new where new: "db_calls s1 = db_calls s @ new" "\<forall>c\<in>set new. names_task c = None" using setup_calls_new [OF began] .
  have "accounted n (s1, P_Idle, \<lambda>_. W_Idle)"
    using idle(1) frame(5) settled_mono [of s _ s1] by (fastforce simp: accounted_def frame(1,2) new(1))
  then have "accounted n (s4, P_Idle, \<lambda>_. W_Idle)" by (rule accounted_run [OF last(1) start(1)])
  then have acc: "accounted n (exec_stop s4, P_Idle, \<lambda>_. W_Idle)" by (rule accounted_cong) simp_all
  have "log_ok (s1, P_Idle, \<lambda>_. W_Idle)"
    using idle(2) setup_queues [OF may assms(2) began] new refs_ok_append [of "db_calls s" new]
    by (fastforce simp: log_ok_def frame(1))
  then have "log_ok (s4, P_Idle, \<lambda>_. W_Idle)" by (rule begin_log_ok [OF start(1) _ last(1)])
  then have log: "log_ok (exec_stop s4, P_Idle, \<lambda>_. W_Idle)"
    by (rule log_ok_step [where new = "[]"]) (auto elim: held_transfer)
  have "between n (exec_stop s4)"
    using stopped_may_begin [OF may assms(2) began last(1)] acc log n last(2) by (simp add: between_def)
  have same: "ended m (exec_stop s4) st = ended m s4 st" "in_hand (exec_stop s4) (\<lambda>_. W_Idle) = in_hand s4 (\<lambda>_. W_Idle)" for m st
    by (simp_all add: ended_def in_hand_def under_way_def)
  have p4: "collect sqrt_of (elapsed wd) s4 = Inr p" using p by simp
  have "unat (total_tasks_executed s4) + unat (exec_tasks_failed s4) + unat (failed_allocations s4) = unat (task_count cfg)"
    if "in_hand s4 (\<lambda>_. W_Idle) = 0"
    using tallied_idle [OF begin_tallied(2) [OF start(1,3) last(1)] that] reachable_few [OF last(1)] last(2) start(2) by simp
  moreover note collect_counts [OF start(1,3) last(1) p4 refl refl]
  ultimately have "experiment_end sqrt_of cfg wd (next_task s) p (exec_stop s4)"
    using last(2) start(2) p by (simp add: experiment_end_def Let_def same)
  with \<open>between n (exec_stop s4)\<close> show thesis using run ds last(2) that by simp
qed

lemma draws_ok_split: "draws_ok draws g (m + n) \<Longrightarrow> draws_ok draws g m \<and> draws_ok draws (g + m) n"
  by (simp add: draws_ok_def add.assoc)

lemma run_all_between:
  assumes "between n s" "draws_ok draws g (length sts * unat (edge_node_count cfg))" "devices \<noteq> []"
    and "next_task s + length sts * unat (task_count cfg) < 2 ^ 63" "compared_by_workers sqrt_of draws cfg wds j sts g devices s"
  shows "\<exists>rs s'. run_all sqrt_of draws cfg wds j sts g devices s = Inr (rs, s') \<and> map fst rs = map strategyToLabel sts \<and> between n s' \<and>
    next_task s' = next_task s + length sts * unat (task_count cfg) \<and>
    (\<forall>i<length sts. \<exists>s\<^sub>i. experiment_end sqrt_of cfg (wds (j + i)) (next_task s + i * unat (task_count cfg)) (snd (rs ! i)) s\<^sub>i)"
  using assms
proof (induction sts arbitrary: j g devices s)
  case (Cons st sts)
  have draws: "draws_ok draws g (unat (edge_node_count cfg))"
    "draws_ok draws (g + unat (edge_node_count cfg)) (length sts * unat (edge_node_count cfg))"
    using Cons.prems(2) draws_ok_split [of draws g "unat (edge_node_count cfg)"] by simp_all
  have few: "next_task s + unat (task_count cfg) < 2 ^ 63" using Cons.prems(4) by simp
  have workers: "run_by_workers draws cfg (wds j) st g devices s" using Cons.prems(5) by simp
  obtain p devices' s1 where one: "runExperiment sqrt_of draws cfg (wds j) st g devices s = Inr (p, g + unat (edge_node_count cfg), devices', s1)"
    "devices' \<noteq> []" "between n s1" "next_task s1 = next_task s + unat (task_count cfg)" "experiment_end sqrt_of cfg (wds j) (next_task s) p s1"
    by (rule experiment_between [OF Cons.prems(1) draws(1) Cons.prems(3) few workers, of sqrt_of])
  have rest: "compared_by_workers sqrt_of draws cfg wds (Suc j) sts (g + unat (edge_node_count cfg)) devices' s1"
    using Cons.prems(5) one(1) by simp
  obtain rs s' where more: "run_all sqrt_of draws cfg wds (Suc j) sts (g + unat (edge_node_count cfg)) devices' s1 = Inr (rs, s')"
    "map fst rs = map strategyToLabel sts" "between n s'" "next_task s' = next_task s1 + length sts * unat (task_count cfg)"
    and ends: "\<And>i. i < length sts \<Longrightarrow>
      \<exists>s\<^sub>i. experiment_end sqrt_of cfg (wds (Suc j + i)) (next_task s1 + i * unat (task_count cfg)) (snd (rs ! i)) s\<^sub>i"
    using Cons.IH [OF one(3) draws(2) one(2) _ rest] Cons.prems(4) one(4) by auto
  have "\<exists>s\<^sub>i. experiment_end sqrt_of cfg (wds (j + i)) (next_task s + i * unat (task_count cfg)) (snd (((strategyToLabel st, p) # rs) ! i)) s\<^sub>i" if "i < length (st # sts)" for i
  proof (cases i)
    case 0
    then show ?thesis using one(4,5) by auto
  next
    case (Suc k)
    then show ?thesis using ends [of k] that one(4) by (auto simp: add.assoc)
  qed
  then show ?case using one(1,4) more by simp
qed simp

section \<open>From the command line to the table\<close>

lemma workplace_refs:
  assumes "workplace h cfg s = (devices, s2)" "refs_ok (db_calls s)"
  shows "refs_ok (db_calls s2)"
proof -
  let ?s = "s\<lparr>profile_map := loadProfiles (stored_profiles h) (profile_map s)\<rparr>"
  obtain new where new: "save_profiles ?s = ?s\<lparr>db_calls := db_calls ?s @ new\<rparr>" "\<forall>c\<in>set new. names_task c = None"
    using save_profiles_only by blast
  have "db_calls s2 = db_calls s @ new @ map (\<lambda>j. Db_saveDevice (device_name j) (type_string (cfg_type (device_cfg j)))) [0..<0 + unat (device_count cfg)]"
    using create_devices_spec [OF assms(1) [unfolded workplace_def createDevices_def]] new(1) by simp
  moreover have "refs_ok (db_calls s @ new @ map (\<lambda>j. Db_saveDevice (device_name j) (type_string (cfg_type (device_cfg j)))) [0..<0 + unat (device_count cfg)])"
    using new(2) by (intro refs_ok_append [OF assms(2)]) auto
  ultimately show ?thesis by simp
qed


text \<open>Three devices, two nodes and two tasks for each strategy.\<close>

lemma demo_compared: "compared_by_workers sqrt_of draws cfg (\<lambda>_. demo_world) j sts g devices s"
  by (induction sts arbitrary: j g devices s) (auto simp: demo_by_workers split: sum.split)


end
