(* ===== verification/Answer_Types.thy ===== *)
theory Answer_Types
  imports Http_Server
begin

text \<open>
  The type of the JSON values that leave the program: each object has its keys in order and without
  repetition, at every level, as the map inside the JSON library has. The operations that build values keep
  this, so every answer of the web server has it.
\<close>

section \<open>Well-formed values\<close>

fun json_ok :: "json \<Rightarrow> bool" where
  "json_ok (J_Arr js) \<longleftrightarrow> (\<forall>j\<in>set js. json_ok j)"
| "json_ok (J_Obj m) \<longleftrightarrow> map_ok m \<and> (\<forall>kv\<in>set m. json_ok (snd kv))"
| "json_ok J_Null \<longleftrightarrow> True"
| "json_ok (J_Bool b) \<longleftrightarrow> True"
| "json_ok (J_Num x) \<longleftrightarrow> True"
| "json_ok (J_Int n) \<longleftrightarrow> True"
| "json_ok (J_Str s) \<longleftrightarrow> True"

definition fields_ok :: "(string \<times> json) list \<Rightarrow> bool" where
  "fields_ok kvs \<longleftrightarrow> (\<forall>kv\<in>set kvs. json_ok (snd kv))"

lemma fields_ok_simps [simp]:
  "fields_ok []" "fields_ok ((k, v) # kvs) \<longleftrightarrow> json_ok v \<and> fields_ok kvs" "fields_ok (a @ b) \<longleftrightarrow> fields_ok a \<and> fields_ok b"
  by (auto simp: fields_ok_def)

lemma put_all_fields: "fields_ok kvs \<Longrightarrow> fields_ok m \<Longrightarrow> fields_ok (put_all kvs m)"
proof (induction kvs arbitrary: m)
  case (Cons kv kvs)
  obtain k v where kv: "kv = (k, v)" by (cases kv)
  have "fields_ok (map_put k v m)" using Cons.prems set_put_subset [of k v m] by (auto simp: kv fields_ok_def)
  then show ?case using Cons by (simp add: put_all_def kv)
qed (simp add: put_all_def)

lemma json_ok_build: "fields_ok kvs \<Longrightarrow> json_ok (build kvs)"
  using put_all_fields [of kvs "[]"] put_all_ok [of "[]" kvs] by (simp add: build_def fields_ok_def)

lemma json_ok_assign: "fields_ok kvs \<Longrightarrow> json_ok j \<Longrightarrow> json_ok (assign kvs j)"
proof (cases j)
  case (J_Obj m)
  then show "fields_ok kvs \<Longrightarrow> json_ok j \<Longrightarrow> json_ok (assign kvs j)"
    using put_all_fields [of kvs m] put_all_ok [of m kvs] by (simp add: fields_ok_def)
qed (simp_all add: json_ok_build)

lemma json_ok_toJson: "json_ok (sensor_data t) \<Longrightarrow> json_ok (toJson t)"
  by (simp add: toJson_def json_ok_build)

section \<open>Rows of the database\<close>

definition row_ok :: "((nat \<Rightarrow> sql_value) \<Rightarrow> fault + json) \<Rightarrow> bool" where
  "row_ok row \<longleftrightarrow> (\<forall>col j. row col = Inr j \<longrightarrow> json_ok j)"

lemma columns_flat:
  "text_column L col i = Inr j \<Longrightarrow> json_ok j" "text_or_empty L col i = Inr j \<Longrightarrow> json_ok j"
  "double_column L col i = Inr j \<Longrightarrow> json_ok j" "int64_column L col i = Inr j \<Longrightarrow> json_ok j"
  "int_column L col i = Inr j \<Longrightarrow> json_ok j"
  by (auto simp: text_column_def text_or_empty_def double_column_def int64_column_def int_column_def split: option.splits)

lemma row_values_ok: "row_values kvs = Inr xs \<Longrightarrow> \<forall>kv\<in>set kvs. \<forall>j. snd kv = Inr j \<longrightarrow> json_ok j \<Longrightarrow> fields_ok xs"
  by (induction kvs arbitrary: xs rule: row_values.induct) (auto simp: bind_sum_Inr)

lemma row_object_ok: "\<forall>kv\<in>set kvs. \<forall>j. snd kv = Inr j \<longrightarrow> json_ok j \<Longrightarrow> row_object kvs = Inr j \<Longrightarrow> json_ok j"
  by (auto simp: row_object_def bind_sum_Inr dest: row_values_ok intro!: json_ok_build)

lemma rows_ok:
  "row_ok (history_row L)" "row_ok (device_row L)" "row_ok (tasks_row L)" "row_ok (activity_row L)" "row_ok (alert_row L)"
  "row_ok (resource_history_row L)"
  unfolding row_ok_def history_row_def device_row_def tasks_row_def task_fields_def activity_row_def alert_row_def resource_history_row_def bind_sum_Inr
  by (safe; erule row_object_ok [rotated]; auto dest: columns_flat)+

lemma read_rows_ok:
  assumes "read_rows L st row acc c = Some r"
  shows "row_ok row \<longrightarrow> (\<forall>j\<in>set acc. json_ok j) \<longrightarrow> (\<forall>js c'. r = Inr (js, c') \<longrightarrow> (\<forall>j\<in>set js. json_ok j))"
proof (rule read_rows.raw_induct [OF _ assms, where P = "\<lambda>L st row acc c r. row_ok row \<longrightarrow> (\<forall>j\<in>set acc. json_ok j) \<longrightarrow>
    (\<forall>js c'. r = Inr (js, c') \<longrightarrow> (\<forall>j\<in>set js. json_ok j))"], goal_cases)
  case (1 f L st row acc c r)
  show ?case
  proof (cases "fst (sq_step L st c) = SQLITE_ROW")
    case True
    define c1 where "c1 = snd (sq_step L st c)"
    show ?thesis
    proof (cases "row (\<lambda>i. sq_column L st i c1)")
      case (Inl e)
      then show ?thesis using 1(2) True by (auto simp: Let_def c1_def)
    next
      case (Inr j)
      then have r: "f L st row (acc @ [j]) c1 = Some r" using 1(2) True by (simp add: Let_def c1_def)
      have "row_ok row \<longrightarrow> json_ok j" using Inr by (auto simp: row_ok_def)
      with 1(1) [OF r] show ?thesis by auto
    qed
  next
    case False
    then show ?thesis using 1(2) by (auto simp: Let_def)
  qed
qed

lemma query_ok:
  assumes "row_ok row" and "query L sql bs row D = Some (Inr (js, D'))"
  shows "\<forall>j\<in>set js. json_ok j"
  using assms by (auto simp: query_def split: option.splits prod.splits sum.splits dest!: read_rows_ok)


lemma queries_ok:
  "getTaskAllocationHistory L D = Some (Inr (js, D')) \<Longrightarrow> \<forall>j\<in>set js. json_ok j"
  "getDevicesJson L D = Some (Inr (js, D')) \<Longrightarrow> \<forall>j\<in>set js. json_ok j"
  "getTasksJson L n D = Some (Inr (js, D')) \<Longrightarrow> \<forall>j\<in>set js. json_ok j"
  "getActivitiesJson L n D = Some (Inr (js, D')) \<Longrightarrow> \<forall>j\<in>set js. json_ok j"
  "getAlertsJson L D = Some (Inr (js, D')) \<Longrightarrow> \<forall>j\<in>set js. json_ok j"
  "getResourceHistoryJson L n D = Some (Inr (js, D')) \<Longrightarrow> \<forall>j\<in>set js. json_ok j"
  unfolding getTaskAllocationHistory_def getDevicesJson_def getTasksJson_def getActivitiesJson_def getAlertsJson_def getResourceHistoryJson_def
  by (intro rows_ok [THEN query_ok]; assumption)+

section \<open>Views of the runtime\<close>

lemma configuration_ok: "configuration s = Inr j \<Longrightarrow> json_ok j"
  by (auto simp: configuration_def Let_def intro!: json_ok_build split: if_splits)

lemma status_view_ok: "status_view s = Inr j \<Longrightarrow> json_ok j"
  by (auto simp: status_view_def bind_sum_Inr configuration_ok intro!: json_ok_build split: if_splits)

lemma edge_view_ok: "edge_view lib executing n = Inr j \<Longrightarrow> json_ok j"
  by (auto simp: edge_view_def Let_def bind_sum_Inr intro!: json_ok_build)

lemma edge_views_ok: "edge_views lib executing k ns es = Inr js \<Longrightarrow> \<forall>j\<in>set js. json_ok j"
  by (induction lib executing k ns es arbitrary: js rule: edge_views.induct) (auto simp: bind_sum_Inr edge_view_ok)

lemma edge_nodes_view_ok: "edge_nodes_view lib clk s = Inr j \<Longrightarrow> json_ok j"
  by (auto simp: edge_nodes_view_def bind_sum_Inr edge_views_ok split: if_splits)

definition payloads_ok :: "runtime \<Rightarrow> bool" where
  "payloads_ok s \<longleftrightarrow> (\<forall>t. json_ok (sensor_data (tasks s t)))"

lemma active_loop_ok: "\<forall>t. json_ok (sensor_data (ts t)) \<Longrightarrow> \<forall>j\<in>set (active_loop clk k ts es). json_ok j"
  by (induction clk k ts es rule: active_loop.induct) (auto intro!: json_ok_assign json_ok_toJson)

lemma getActiveTasks_ok: "payloads_ok s \<Longrightarrow> \<forall>j\<in>set (getActiveTasks clk (executor.truncate s)). json_ok j"
  using active_loop_ok [of "tasks s"] by (auto simp: payloads_ok_def getActiveTasks_def executor.defs)

lemma active_view_ok: "payloads_ok s \<Longrightarrow> json_ok (active_view clk s)"
  using getActiveTasks_ok by (auto simp: active_view_def)

lemma metrics_view_ok: "metrics_view sqrt_of seconds now s = Inr j \<Longrightarrow> json_ok j"
  by (auto simp: metrics_view_def Let_def bind_sum_Inr collectAsJson_def snapshot_fields_def intro!: json_ok_assign json_ok_build split: if_splits)

lemma of_task_ok: "of_task lib tid js = Inr ks \<Longrightarrow> \<forall>j\<in>set js. json_ok j \<Longrightarrow> \<forall>j\<in>set ks. json_ok j"
  by (induction js arbitrary: ks) (auto simp: bind_sum_Inr split: if_splits)

lemma getTask_payload: "getTask L now tid D = Inr (Some t, D') \<Longrightarrow> json_ok (sensor_data t)"
  by (auto simp: getTask_def Let_def bind_sum_Inr new_task_def setStatus_def split: option.splits prod.splits if_splits)

lemma lifecycle_view_ok:
  assumes "lifecycle_view L lib now clk tid s D = Some (Inr (Inr j, D'))" and "payloads_ok s"
  shows "json_ok j"
proof -
  have active: "\<forall>j\<in>set (if components_set s then getActiveTasks clk (executor.truncate s) else []). json_ok j"
    using getActiveTasks_ok [OF assms(2)] by auto
  consider "j = build [(''found'', J_Bool False)]"
    | t D1 history D2 allocations running where "getTask L now tid D = Inr (Some t, D1)"
        "getTaskAllocationHistory L D1 = Some (Inr (history, D2))" "of_task lib tid history = Inr allocations"
        "of_task lib tid (if components_set s then getActiveTasks clk (executor.truncate s) else []) = Inr running"
        "j = build ([(''found'', J_Bool True), (''task'', toJson t), (''allocations'', J_Arr allocations)] @ map (\<lambda>j. (''active'', j)) running)"
    using assms(1) unfolding lifecycle_view_def
    by (auto simp: bind_sum_Inr split: sum.splits prod.splits option.splits)
  then show ?thesis
  proof cases
    case 2
    have "\<forall>j\<in>set allocations. json_ok j" using 2(2,3) queries_ok(1) of_task_ok by blast
    moreover have "\<forall>j\<in>set running. json_ok j" by (rule of_task_ok [OF 2(4) active])
    ultimately show ?thesis
      using getTask_payload [OF 2(1)] unfolding 2(5) by (intro json_ok_build) (auto simp: fields_ok_def json_ok_toJson)
  qed (simp add: json_ok_build)
qed

section \<open>The answers\<close>

lemma answer_typed:
  "answer_json r s D = Some (Inr (Inr (c, j), s', D')) \<Longrightarrow> r = Inr (c, j)"
  "answer_view w s D = Some (Inr (Inr (c, j), s', D')) \<Longrightarrow> w = Inr j"
  "answer_query q s = Some (Inr (Inr (c, j), s', D')) \<Longrightarrow> \<exists>js D1. q = Some (Inr (js, D1)) \<and> j = J_Arr js"
  by (auto simp: answer_json_def elim: answer_view.elims answer_query.elims)

lemma put_configuration_ok: "put_configuration lib body s D = Some (Inr (Inr (c, j), s', D')) \<Longrightarrow> json_ok j"
  by (auto simp: put_configuration_def configuration_ok intro!: json_ok_build
      split: sum.splits prod.splits bool.splits dest!: answer_typed(1))

lemma get_lifecycle_ok: "get_lifecycle e tid s D = Some (Inr (Inr (c, j), s', D')) \<Longrightarrow> payloads_ok s \<Longrightarrow> json_ok j"
  by (auto simp: get_lifecycle_def bind_sum_Inr dest!: answer_typed(1) split: option.splits sum.splits prod.splits intro: lifecycle_view_ok)

lemma route_get_ok:
  assumes "route_get e path s D = Some (Inr (Inr (c, j), s', D'))" and "payloads_ok s"
  shows "json_ok j"
  using assms(1) get_lifecycle_ok [OF _ assms(2)] active_view_ok [OF assms(2)]
  by (auto simp: route_get_def forwarding_defs bind_sum_Inr configuration_ok status_view_ok edge_nodes_view_ok metrics_view_ok json_ok_build
      dest!: answer_typed dest: queries_ok split: if_splits)



end
