(* ===== verification/Mqtt_Client.thy ===== *)
theory Mqtt_Client
  imports Json
begin

text \<open>
  \<^verbatim>\<open>mqtt_client.h\<close> and \<^verbatim>\<open>mqtt_client.cpp\<close>: the wrapper of the Paho client, which no other part of the
  program uses. Paho is a parameter: each of its calls, with the wait for its token, either succeeds or
  throws \<^verbatim>\<open>mqtt::exception\<close>, and changes the state \<open>'c\<close> of the connection. The callback adapter is a
  function-local static object: there is one in the whole program, and it holds the client that was \<open>this\<close>
  when it was made.
\<close>

section \<open>The client\<close>

record 'c paho =
  paho_connect :: "'c \<Rightarrow> bool \<times> 'c"
  paho_disconnect :: "'c \<Rightarrow> bool \<times> 'c"
  paho_connected :: "'c \<Rightarrow> bool"
  paho_publish :: "string \<Rightarrow> string \<Rightarrow> int \<Rightarrow> 'c \<Rightarrow> bool \<times> 'c"
  paho_subscribe :: "string \<Rightarrow> int \<Rightarrow> 'c \<Rightarrow> bool \<times> 'c"

text \<open>\<open>connection\<close> is null or the Paho client; \<open>message_callback\<close> names the function registered.\<close>

record 'c mqtt_client =
  connection :: "'c option"
  message_callback :: "nat option"
  messages_published :: u64
  messages_received :: u64

definition new_client :: "'c \<Rightarrow> 'c mqtt_client" where
  "new_client c = \<lparr>connection = Some c, message_callback = None, messages_published = 0, messages_received = 0\<rparr>"

definition kDefaultQos :: int where
  "kDefaultQos = 1"

definition mqtt_connect :: "'c paho \<Rightarrow> 'c mqtt_client \<Rightarrow> bool \<times> 'c mqtt_client" where
  "mqtt_connect P m =
     (case connection m of
        None \<Rightarrow> (False, m)
      | Some c \<Rightarrow>
          (let (ok, c') = paho_connect P c; m' = m\<lparr>connection := Some c'\<rparr>
           in if ok then (paho_connected P c', m') else (False, m')))"

definition isConnected :: "'c paho \<Rightarrow> 'c mqtt_client \<Rightarrow> bool" where
  "isConnected P m = (case connection m of None \<Rightarrow> False | Some c \<Rightarrow> paho_connected P c)"

text \<open>An exception of the library is only logged.\<close>

definition mqtt_disconnect :: "'c paho \<Rightarrow> 'c mqtt_client \<Rightarrow> 'c mqtt_client" where
  "mqtt_disconnect P m =
     (case connection m of
        None \<Rightarrow> m
      | Some c \<Rightarrow> if paho_connected P c then m\<lparr>connection := Some (snd (paho_disconnect P c))\<rparr> else m)"

text \<open>The handler catches the exceptions of Paho, not those of printing the payload.\<close>

definition publish :: "'c paho \<Rightarrow> json_lib \<Rightarrow> string \<Rightarrow> json \<Rightarrow> int \<Rightarrow> 'c mqtt_client \<Rightarrow> json_error + bool \<times> 'c mqtt_client" where
  "publish P lib topic payload qos m =
     (case connection m of
        None \<Rightarrow> Inr (False, m)
      | Some c \<Rightarrow>
          if \<not> paho_connected P c then Inr (False, m)
          else bind_sum (json_dump lib payload) (\<lambda>serialized.
            let (ok, c') = paho_publish P topic serialized (if 0 < qos then qos else kDefaultQos) c;
                m' = m\<lparr>connection := Some c'\<rparr>
            in Inr (if ok then (True, m'\<lparr>messages_published := messages_published m' + 1\<rparr>) else (False, m'))))"

definition subscribe :: "'c paho \<Rightarrow> string \<Rightarrow> int \<Rightarrow> 'c mqtt_client \<Rightarrow> bool \<times> 'c mqtt_client" where
  "subscribe P topic qos m =
     (case connection m of
        None \<Rightarrow> (False, m)
      | Some c \<Rightarrow>
          if \<not> paho_connected P c then (False, m)
          else (let (ok, c') = paho_subscribe P topic (if 0 < qos then qos else kDefaultQos) c
                in (ok, m\<lparr>connection := Some c'\<rparr>)))"

section \<open>Several clients\<close>

text \<open>The clients of the program by number, the client the adapter belongs to once it exists, and the clients
  whose Paho object has the adapter as its callback. \<open>delivered\<close> lists the calls of the registered functions.\<close>

record 'c mqtt_world =
  mqtt_clients :: "nat \<Rightarrow> 'c mqtt_client"
  adapter_owner :: "nat option"
  listening :: "nat \<Rightarrow> bool"
  delivered :: "(nat \<times> string \<times> json) list"

definition upd_client :: "nat \<Rightarrow> ('c mqtt_client \<Rightarrow> 'c mqtt_client) \<Rightarrow> 'c mqtt_world \<Rightarrow> 'c mqtt_world" where
  "upd_client i f w = w\<lparr>mqtt_clients := (mqtt_clients w)(i := f (mqtt_clients w i))\<rparr>"

definition registerMessageCallback :: "nat \<Rightarrow> nat option \<Rightarrow> 'c mqtt_world \<Rightarrow> 'c mqtt_world" where
  "registerMessageCallback i callback w =
     (let w1 = upd_client i (\<lambda>m. m\<lparr>message_callback := callback\<rparr>) w
      in if connection (mqtt_clients w1 i) = None then w1
         else w1\<lparr>adapter_owner := (case adapter_owner w1 of None \<Rightarrow> Some i | Some j \<Rightarrow> Some j),
                 listening := (listening w1)(i := True)\<rparr>)"

text \<open>A payload that is not JSON is only logged; what the registered function throws is not caught.\<close>

definition onMessageArrived :: "json_lib \<Rightarrow> nat \<Rightarrow> string \<Rightarrow> string \<Rightarrow> 'c mqtt_world \<Rightarrow> 'c mqtt_world" where
  "onMessageArrived lib i topic raw_payload w =
     (let w1 = upd_client i (\<lambda>m. m\<lparr>messages_received := messages_received m + 1\<rparr>) w
      in case message_callback (mqtt_clients w1 i) of
           None \<Rightarrow> w1
         | Some f \<Rightarrow>
             (case json_parse lib raw_payload of
                Inl e \<Rightarrow> w1
              | Inr payload \<Rightarrow> w1\<lparr>delivered := delivered w1 @ [(f, topic, payload)]\<rparr>))"

text \<open>A message that Paho receives on the connection of client \<open>i\<close>.\<close>

definition message_arrived :: "json_lib \<Rightarrow> nat \<Rightarrow> string \<Rightarrow> string \<Rightarrow> 'c mqtt_world \<Rightarrow> 'c mqtt_world" where
  "message_arrived lib i topic raw_payload w =
     (if \<not> listening w i then w
      else case adapter_owner w of None \<Rightarrow> w | Some j \<Rightarrow> onMessageArrived lib j topic raw_payload w)"

section \<open>Properties\<close>

text \<open>a message is counted as published exactly when the call reports success, and it goes out with a quality
  of service of at least one, whatever was asked for; without a connection nothing is sent and nothing
  changes.\<close>

theorem publish_counts:
  assumes "publish P lib topic payload qos m = Inr (ok, m')"
  shows "messages_published m' = messages_published m + (if ok then 1 else 0) \<and> messages_received m' = messages_received m \<and>
    (if isConnected P m
     then \<exists>serialized q c'. json_dump lib payload = Inr serialized \<and> 1 \<le> q \<and> (0 < qos \<longrightarrow> q = qos) \<and>
       paho_publish P topic serialized q (the (connection m)) = (ok, c') \<and> connection m' = Some c'
     else \<not> ok \<and> m' = m)"
proof (cases "isConnected P m")
  case True
  then obtain c where c: "connection m = Some c" "paho_connected P c" by (auto simp: isConnected_def split: option.splits)
  with assms obtain serialized where s: "json_dump lib payload = Inr serialized" by (auto simp: publish_def bind_sum_Inr)
  define q where "q = (if 0 < qos then qos else kDefaultQos)"
  then have q: "1 \<le> q" "0 < qos \<longrightarrow> q = qos" by (auto simp: kDefaultQos_def)
  obtain b c' where b: "paho_publish P topic serialized q c = (b, c')" by fastforce
  have "ok = b" "m' = (if b then m\<lparr>connection := Some c', messages_published := messages_published m + 1\<rparr> else m\<lparr>connection := Some c'\<rparr>)"
    using assms c s b by (auto simp: publish_def Let_def simp flip: q_def split: if_splits)
  with True c s b q show ?thesis by auto
next
  case False
  then show ?thesis using assms by (auto simp: publish_def isConnected_def split: option.splits)
qed

text \<open>C39: with two clients in the program, each with its function registered, what arrives at the second client is
  counted and delivered to the function of the first: the adapter both connections call back was made for
  the first.\<close>

theorem second_client_hijacked:
  assumes "adapter_owner w = None" and "i \<noteq> j"
    and "connection (mqtt_clients w i) \<noteq> None" and "connection (mqtt_clients w j) \<noteq> None"
    and "json_parse lib raw = Inr payload"
  shows "let w' = message_arrived lib j topic raw (registerMessageCallback j (Some g) (registerMessageCallback i (Some f) w))
    in delivered w' = delivered w @ [(f, topic, payload)] \<and>
       messages_received (mqtt_clients w' i) = messages_received (mqtt_clients w i) + 1 \<and>
       messages_received (mqtt_clients w' j) = messages_received (mqtt_clients w j)"
  using assms by (auto simp: registerMessageCallback_def message_arrived_def onMessageArrived_def upd_client_def Let_def)

definition demo_paho :: "unit paho" where
  "demo_paho = \<lparr>paho_connect = (\<lambda>c. (True, c)), paho_disconnect = (\<lambda>c. (True, c)), paho_connected = (\<lambda>_. True),
     paho_publish = (\<lambda>_ _ _ c. (True, c)), paho_subscribe = (\<lambda>_ _ c. (True, c))\<rparr>"

definition demo_mqtt :: "unit mqtt_world" where
  "demo_mqtt = \<lparr>mqtt_clients = (\<lambda>_. new_client ()), adapter_owner = None, listening = (\<lambda>_. False), delivered = []\<rparr>"

theorem publish_counts_witness:
  "\<exists>m'. publish demo_paho demo_lib ''t'' J_Null 0 (new_client ()) = Inr (True, m') \<and> messages_published m' = 1"
proof -
  obtain m' where "publish demo_paho demo_lib ''t'' J_Null 0 (new_client ()) = Inr (True, m')"
    by (simp add: publish_def demo_paho_def demo_lib_def new_client_def)
  from publish_counts [OF this] this show ?thesis by (auto simp: new_client_def)
qed

theorem second_client_hijacked_witness:
  "delivered (message_arrived demo_lib 1 ''t'' ''null'' (registerMessageCallback 1 (Some 11) (registerMessageCallback 0 (Some 10) demo_mqtt))) =
   [(10, ''t'', J_Null)]"
  using second_client_hijacked [of demo_mqtt 0 1 demo_lib "''null''" J_Null "''t''" 11 10]
  by (simp add: demo_mqtt_def new_client_def demo_lib_def Let_def)

end
