(* ===== verification/Unit_Tests.thy ===== *)
theory Unit_Tests
  imports Experiment
begin

text \<open>
  The unit tests of the repository, run on the model: each lemma has the name of a test of
  \<^verbatim>\<open>test_edge_node.cpp\<close>, \<^verbatim>\<open>test_resource_allocator.cpp\<close>, \<^verbatim>\<open>test_task.cpp\<close>, \<^verbatim>\<open>test_task_profile.cpp\<close>,
  \<^verbatim>\<open>test_task_scheduler.cpp\<close> or \<^verbatim>\<open>test_metrics_collector.cpp\<close> and states what that test expects. What a
  test expects of a double within some units in the last place holds of the model exactly. Fixtures are
  states built with the operations of the components; a test whose outcome depends on a draw or on the
  clock holds for all of them.
\<close>

section \<open>Fixtures\<close>

definition makeCapacity :: resource_capacity where
  "makeCapacity = \<lparr>cap_cpu_percent = dbl 100, cap_ram_mb = dbl 16384, cap_bandwidth_mbps = dbl 100, latency_ms = 10\<rparr>"

definition node :: edge_node where
  "node = new_edge_node ''E01'' makeCapacity"

definition makeEdge :: "string \<Rightarrow> double \<Rightarrow> int \<Rightarrow> edge_node" where
  "makeEdge eid cpu_cap lat =
     new_edge_node eid \<lparr>cap_cpu_percent = cpu_cap, cap_ram_mb = dbl 16384, cap_bandwidth_mbps = dbl 100, latency_ms = lat\<rparr>"

definition makeRequirements :: "int \<Rightarrow> requirements" where
  "makeRequirements d = mk_req 10 50 1 d HIGH"

definition makeTask :: "string \<Rightarrow> task_priority \<Rightarrow> json task" where
  "makeTask tid p = new_task 0 tid ''DEV1'' ''ultrasonic'' (mk_req 10 50 1 1000 p) (J_Obj [])"

definition makeSchedTask :: "string \<Rightarrow> task_priority \<Rightarrow> int \<Rightarrow> json task" where
  "makeSchedTask tid p d = new_task 0 tid ''DEV1'' ''temperature'' (mk_req 1 1 1 d p) (J_Obj [])"

text \<open>A program with the given strategies and nothing in it; an edge that is registered, one that is not, and a
  task, each with the next reference.\<close>

definition blank :: "allocation_strategy \<Rightarrow> scheduling_strategy \<Rightarrow> json executor" where
  "blank st sch = demo_json\<lparr>strategy := st, sched_strategy := sch\<rparr>"

definition with_edge :: "edge_node \<Rightarrow> json executor \<Rightarrow> json executor" where
  "with_edge n s =
     (let (r, s1) = make_node n s
      in case registerEdgeNode (Some r) s1 of Inl f \<Rightarrow> s1 | Inr s2 \<Rightarrow> s2)"

definition with_task :: "json task \<Rightarrow> json executor \<Rightarrow> json executor" where
  "with_task t s = snd (make_task t s)"

definition verdict :: "fault + allocation_result \<times> json executor \<Rightarrow> (bool \<times> string) option" where
  "verdict r = (case r of Inl f \<Rightarrow> None | Inr (result, s) \<Rightarrow> Some (success result, result_edge_id result))"

text \<open>The outcomes of allocating new tasks one after the other.\<close>

fun allocate_all :: "json task list \<Rightarrow> json executor \<Rightarrow> (bool \<times> string) option list" where
  "allocate_all [] s = []"
| "allocate_all (t # ts) s =
     (let r = allocateTask (next_task s) (with_task t s)
      in verdict r # (case r of Inl f \<Rightarrow> [] | Inr (result, s') \<Rightarrow> allocate_all ts s'))"

definition two_edges :: "allocation_strategy \<Rightarrow> edge_node \<Rightarrow> edge_node \<Rightarrow> json task \<Rightarrow> json executor" where
  "two_edges st m n t = with_task t (with_edge n (with_edge m (blank st FIFO)))"

section \<open>Edge nodes\<close>

lemmas node_defs = node_def makeCapacity_def makeEdge_def new_edge_node_def getAvailableCpuPercent_def getAvailableRamMb_def
  getAvailableBandwidthMbps_def canAllocate_def allocateResources_def deallocateResources_def getQueueLength_def

lemma InitialStateHasFullAvailableResources:
  "getAvailableCpuPercent node = dbl 100 \<and> getAvailableRamMb node = dbl 16384 \<and> is_available node \<and> getQueueLength node = 0"
  by (simp add: node_defs)

lemma CanAllocateReflectsAvailableCapacity:
  "canAllocate (dbl 50) (dbl 1000) (dbl 10) node \<and> \<not> canAllocate (dbl 150) (dbl 1000) (dbl 10) node"
  by (simp add: node_defs eval)

lemma AllocateResourcesReducesAvailability:
  "getAvailableCpuPercent (allocateResources (dbl 30) (dbl 500) (dbl 5) node) = dbl 70 \<and>
   getAvailableRamMb (allocateResources (dbl 30) (dbl 500) (dbl 5) node) = dbl (16384 - 500) \<and>
   getAvailableBandwidthMbps (allocateResources (dbl 30) (dbl 500) (dbl 5) node) = dbl (100 - 5)"
  by (simp add: node_defs eval)

lemma DeallocateResourcesRestoresAvailability:
  "getAvailableCpuPercent (deallocateResources (dbl 30) (dbl 500) (dbl 5) (allocateResources (dbl 30) (dbl 500) (dbl 5) node)) = dbl 100 \<and>
   getAvailableRamMb (deallocateResources (dbl 30) (dbl 500) (dbl 5) (allocateResources (dbl 30) (dbl 500) (dbl 5) node)) = dbl 16384"
  by (simp add: node_defs eval)

lemma DeallocateNeverGoesNegative:
  "getAvailableCpuPercent (deallocateResources (dbl 1000) (dbl 1000) (dbl 1000) node) = dbl 100"
  by (simp add: node_defs eval max_def)

lemma QueueOperationsAreFifo:
  "getQueueLength (enqueueTask 2 (enqueueTask 1 node)) = 2 \<and>
   fst (dequeueTask (enqueueTask 2 (enqueueTask 1 node))) = Some 1 \<and>
   getQueueLength (snd (dequeueTask (enqueueTask 2 (enqueueTask 1 node)))) = 1"
  by (simp add: node_defs enqueueTask_def dequeueTask_def)

lemma DequeueOnEmptyQueueReturnsNull: "fst (dequeueTask node) = None"
  by (simp add: node_defs dequeueTask_def)

lemma UnavailableNodeCannotAllocate: "\<not> canAllocate (dbl 1) (dbl 1) (dbl 1) (setAvailable False node)"
  by (simp add: node_defs setAvailable_def)

text \<open>The test runs fifty rounds; this is any number of rounds, each with its two draws.\<close>

fun fluctuate :: "(double \<times> double) list \<Rightarrow> edge_node \<Rightarrow> edge_node" where
  "fluctuate [] n = n"
| "fluctuate (d # ds) n = simulateResourceFluctuation (fst d) (snd d) (fluctuate ds n)"

lemma ResourceFluctuationStaysWithinCapacity:
  "0 \<le> getAvailableCpuPercent (fluctuate ds node) \<and> getAvailableCpuPercent (fluctuate ds node) \<le> dbl 100"
proof -
  have cap: "capacity (fluctuate ds node) = makeCapacity" for ds by (induction ds) (simp_all add: node_def new_edge_node_def)
  have "0 \<le> used_cpu_percent (current_usage (fluctuate ds node)) \<and> used_cpu_percent (current_usage (fluctuate ds node)) \<le> dbl 100"
  proof (cases ds)
    case (Cons d ds)
    then show ?thesis using clamp_bounds [of 0 "dbl 100"] cap [of ds]
      by (simp add: simulateResourceFluctuation_def Let_def makeCapacity_def dbl_nonneg)
  qed (simp add: node_defs dbl_nonneg)
  then show ?thesis
    by (simp add: getAvailableCpuPercent_def cap makeCapacity_def double_diff_le double_diff_nonneg_iff)
qed

section \<open>The resource allocator\<close>

lemmas fixture_defs = verdict_def with_task_def with_edge_def blank_def demo_json_def make_task_def make_node_def registerEdgeNode_def

lemma FailsGracefullyWithNoEdgeNodes:
  "verdict (allocateTask 0 (with_task (makeTask ''T1'' HIGH) (blank MULTI_CONSTRAINT FIFO))) = Some (False, '''')"
  "\<exists>result s'. allocateTask 0 (with_task (makeTask ''T1'' HIGH) (blank MULTI_CONSTRAINT FIFO)) = Inr (result, s') \<and>
     total_allocations s' = 1 \<and> failed_allocations s' = 1"
  by (simp_all add: fixture_defs allocateTask_def run_strategy_def getViableEdges_def refused_def no_result_def allocateMultiConstraint_def)

text \<open>Two edges, registered in either order: the registry is ordered by name.\<close>

lemma two_edges_simps:
  assumes "edge_id m < edge_id n"
  shows "edge_nodes (two_edges st m n t) = [(edge_id m, Some 0), (edge_id n, Some 1)]"
    "edge_nodes (two_edges st n m t) = [(edge_id m, Some 1), (edge_id n, Some 0)]"
  using assms by (simp_all add: two_edges_def fixture_defs not_less_iff_gr_or_eq less_imp_not_less)

lemma two_edges_frame [simp]:
  "nodes (two_edges st m n t) 0 = m" "nodes (two_edges st m n t) (Suc 0) = n" "tasks (two_edges st m n t) 0 = t"
  "strategy (two_edges st m n t) = st" "weights (two_edges st m n t) = default_weights"
  by (simp_all add: two_edges_def fixture_defs)

lemma makeEdge_simps [simp]: "edge_id (makeEdge e c l) = e" "is_available (makeEdge e c l)" "task_queue (makeEdge e c l) = []"
  by (simp_all add: makeEdge_def new_edge_node_def)

lemma makeTask_simps [simp]:
  "cpu_percent (reqs (makeTask tid p)) = dbl 10" "ram_mb (reqs (makeTask tid p)) = dbl 50"
  "bandwidth_mbps (reqs (makeTask tid p)) = dbl 1" "priority (reqs (makeTask tid p)) = p"
  by (simp_all add: makeTask_def new_task_def mk_req_def)

lemma makeEdge_hosts:
  "x \<le> dbl 80 \<Longrightarrow> canAllocate (dbl 10) (dbl 50) (dbl 1) (allocateResources x 0 0 (makeEdge eid (dbl 100) l))"
  "canAllocate (dbl 10) (dbl 50) (dbl 1) (makeEdge eid (dbl 100) l)"
proof -
  assume "x \<le> dbl 80"
  then have "dbl 100 - dbl 80 \<le> dbl 100 - x" by (intro double_diff_mono) auto
  moreover have "dbl 10 \<le> dbl 100 - dbl 80" by (simp add: eval)
  ultimately have "dbl 10 \<le> dbl 100 - x" by simp
  then show "canAllocate (dbl 10) (dbl 50) (dbl 1) (allocateResources x 0 0 (makeEdge eid (dbl 100) l))"
    by (simp add: node_defs dbl_le_iff)
qed (simp add: node_defs eval)

lemma viable:
  assumes "edge_id m < edge_id n" "is_available m" "is_available n" "canAllocate (dbl 10) (dbl 50) (dbl 1) m" "canAllocate (dbl 10) (dbl 50) (dbl 1) n"
  shows "getViableEdges 0 (two_edges st m n (makeTask tid p)) = [0, 1]" "getViableEdges 0 (two_edges st n m (makeTask tid p)) = [1, 0]"
  using assms by (simp_all add: getViableEdges_def two_edges_simps)

lemma total_frame [simp]:
  "edge_score 0 (s\<lparr>total_allocations := k\<rparr>) r = edge_score 0 s r" "getViableEdges 0 (s\<lparr>total_allocations := k\<rparr>) = getViableEdges 0 s"
  for s :: "json executor"
  by (simp_all add: edge_score_def getViableEdges_def)

lemma names_in_order: "''E01'' < (''E02'' :: string)" "''E01'' < (''E03'' :: string)" "''E_FAST'' < (''E_SLOW'' :: string)"
  by code_simp+

subsection \<open>The scores of two loaded edges\<close>

text \<open>Bounds of the scores by multiples of 1/256, on which the arithmetic of doubles is exact.\<close>

lemma fl_256: assumes "\<bar>m\<bar> \<le> 2 ^ 53" shows "fl (of_int m / 256) = of_int m / 256"
proof -
  have "(2 :: rat) powi - 8 = 1 / 256" by code_simp
  with fl_exact [OF assms, of "- 8"] show ?thesis by (simp only: times_divide_eq_right mult_1_right)
qed

lemma add_256: "\<bar>m\<bar> \<le> 1000 \<Longrightarrow> \<bar>n\<bar> \<le> 1000 \<Longrightarrow> dbl (of_int m / 256) + dbl (of_int n / 256) = dbl (of_int (m + n) / 256)"
  by (simp add: dbl_plus fl_256 add_divide_distrib)

lemma sum_256:
  "dbl (40 / 256) + dbl (51 / 256) + dbl (38 / 256) + dbl (33 / 256) + dbl (38 / 256) + dbl (18 / 256) = dbl (218 / 256)"
  "dbl (16 / 256) + dbl (52 / 256) + dbl (39 / 256) + dbl (36 / 256) + dbl (39 / 256) + dbl (20 / 256) = dbl (202 / 256)"
  using add_256 [of 40 51] add_256 [of 91 38] add_256 [of 129 33] add_256 [of 162 38] add_256 [of 200 18]
    add_256 [of 16 52] add_256 [of 68 39] add_256 [of 107 36] add_256 [of 143 39] add_256 [of 182 20] by simp_all

lemma clamp_upper: "v \<le> w \<Longrightarrow> lo \<le> w \<Longrightarrow> w \<le> hi \<Longrightarrow> clamp v lo hi \<le> w"
  by (auto simp: clamp_def)
lemma clamp_lower: "w \<le> v \<Longrightarrow> lo \<le> w \<Longrightarrow> w \<le> hi \<Longrightarrow> w \<le> clamp v lo hi"
  by (auto simp: clamp_def)

lemma parts:
 "normalizeCpuScore (allocateResources (dbl 75) 0 0 (makeEdge eid (dbl 100) l)) \<le> dbl (16/64)" 
 "dbl (40/64) \<le> normalizeCpuScore (allocateResources (dbl 35) 0 0 (makeEdge eid (dbl 100) l))" 
 "normalizeRamScore (allocateResources c 0 0 (makeEdge eid d l)) = 1" 
 "normalizeBandwidthScore (allocateResources c 0 0 (makeEdge eid d l)) = 1" 
 "normalizeQueueScore (allocateResources c 0 0 (makeEdge eid d l)) = 1" 
 "normalizeLatencyScore (allocateResources c 0 0 (makeEdge eid d 10)) \<le> dbl (59/64)" 
 "dbl (57/64) \<le> normalizeLatencyScore (allocateResources c 0 0 (makeEdge eid d 8)) " 
  subgoal using fl_256 [of 64] unfolding normalizeCpuScore_def Let_def
    by (auto intro!: clamp_upper simp: node_defs eval fl_mono)
  subgoal using fl_256 [of 160] unfolding normalizeCpuScore_def Let_def
    by (auto intro!: clamp_lower simp: node_defs eval fl_mono)
  subgoal by (simp add: node_defs normalizeRamScore_def eval clamp_def)
  subgoal by (simp add: node_defs normalizeBandwidthScore_def eval clamp_def)
  subgoal by (simp add: node_defs normalizeQueueScore_def eval clamp_def)
  subgoal
  proof -
    have "5 / 64 \<le> fl (1 / 10)" using fl_mono [of "5 / 64" "1 / 10"] fl_256 [of 20] by (simp add: field_simps)
    then have "fl (1 - fl (1 / 10)) \<le> fl (59 / 64)" by (intro fl_mono) simp
    moreover have "fl (1 / 100) \<le> fl (59 / 64)" "fl (59 / 64) \<le> 1" using fl_256 [of 236] by (simp_all add: fl_mono)
    ultimately show ?thesis unfolding normalizeLatencyScore_def
      by (intro clamp_upper) (simp_all add: node_defs getLatencyMs_def dbl_of_int_def eval)
  qed
  subgoal
  proof -
    have "fl (2 / 25) \<le> 7 / 64" using fl_mono [of "2 / 25" "7 / 64"] fl_256 [of 28] by (simp add: field_simps)
    then have "fl (57 / 64) \<le> fl (1 - fl (2 / 25))" by (intro fl_mono) simp
    moreover have "fl (1 / 100) \<le> fl (57 / 64)" "fl (57 / 64) \<le> 1" using fl_256 [of 228] by (simp_all add: fl_mono)
    ultimately show ?thesis unfolding normalizeLatencyScore_def
      by (intro clamp_lower) (simp_all add: node_defs getLatencyMs_def dbl_of_int_def eval)
  qed
  done

lemma product_le:
  assumes "fl w' = w'" "fl b = b" "0 \<le> w" "w \<le> w'" "0 \<le> v" "v \<le> dbl b" "w' * b \<le> c"
  shows "dbl w * v \<le> dbl c"
proof -
  have "dbl w * v \<le> dbl w' * dbl b" using assms by (intro double_mult_mono) (auto simp: dbl_le dbl_nonneg)
  also have "\<dots> \<le> dbl c" using assms by (simp add: dbl_times dbl_le_iff fl_mono)
  finally show ?thesis .
qed

lemma product_ge:
  assumes "fl w' = w'" "fl b = b" "0 \<le> w'" "w' \<le> w" "0 \<le> b" "dbl b \<le> v" "c \<le> w' * b"
  shows "dbl c \<le> dbl w * v"
proof -
  have "dbl c \<le> dbl w' * dbl b" using assms by (simp add: dbl_times dbl_le_iff fl_mono)
  also have "\<dots> \<le> dbl w * v" using assms by (intro double_mult_mono) (auto simp: dbl_le dbl_nonneg)
  finally show ?thesis .
qed

lemma scores:
  "calculateAllocationScore default_weights (allocateResources (dbl 75) 0 0 (makeEdge e (dbl 100) 10)) HIGH <
   calculateAllocationScore default_weights (allocateResources (dbl 35) 0 0 (makeEdge f (dbl 100) 8)) HIGH"
  (is "?a < ?b")
proof -
  let ?m = "allocateResources (dbl 75) 0 0 (makeEdge e (dbl 100) 10)" and ?n = "allocateResources (dbl 35) 0 0 (makeEdge f (dbl 100) 8)"
  note p = parts(1) [of e 10] parts(6) [of "dbl 75" e "dbl 100"] parts(2) [of f 8] parts(7) [of "dbl 35" f "dbl 100"]
  note n = normalize_bounds [of ?m]
  have "dbl (25 / 100) * normalizeCpuScore ?m \<le> dbl (16 / 256)"
    using p(1) n fl_256 [of 64] by (intro product_le [of "64 / 256" "64 / 256"]) auto
  moreover have "dbl (15 / 100) * normalizeLatencyScore ?m \<le> dbl (36 / 256)"
    using p(2) order_trans [OF dbl_nonneg conjunct1 [OF n(4)]] fl_256 [of 39] fl_256 [of 236] by (intro product_le [of "39 / 256" "236 / 256"]) auto
  moreover have "dbl (10 / 100) * dbl (75 / 100) \<le> dbl (20 / 256)"
    using fl_256 [of 26] fl_256 [of 192] by (intro product_le [of "26 / 256" "192 / 256"]) (auto simp: dbl_nonneg)
  ultimately have "?a \<le> dbl (202 / 256) * dbl 100"
    unfolding sum_256(2) [symmetric] calculateAllocationScore_def Let_def
    using n order_trans [OF dbl_nonneg conjunct1 [OF n(4)]]
    by (intro double_mult_mono double_add_mono)
      (auto simp: default_weights_def parts dbl_le dbl_nonneg intro!: double_add_nonneg double_mult_nonneg)
  moreover have "dbl (40 / 256) \<le> dbl (25 / 100) * normalizeCpuScore ?n"
    using p(3) fl_256 [of 64] fl_256 [of 160] by (intro product_ge [of "64 / 256" "160 / 256"]) auto
  moreover have "dbl (33 / 256) \<le> dbl (15 / 100) * normalizeLatencyScore ?n"
    using p(4) fl_256 [of 38] fl_256 [of 228] by (intro product_ge [of "38 / 256" "228 / 256"]) auto
  moreover have "dbl (18 / 256) \<le> dbl (10 / 100) * dbl (75 / 100)"
    using fl_256 [of 25] fl_256 [of 192] by (intro product_ge [of "25 / 256" "192 / 256"]) (auto simp: dbl_le)
  ultimately have "dbl (218 / 256) * dbl 100 \<le> ?b"
    unfolding sum_256(1) [symmetric] calculateAllocationScore_def Let_def
    by (intro double_mult_mono double_add_mono double_add_nonneg) (auto simp: default_weights_def parts dbl_le dbl_nonneg)
  moreover have "dbl (202 / 256) * dbl 100 < dbl (218 / 256) * dbl 100"
  proof -
    have f: "fl (101 / 128) = 101 / 128" "fl (109 / 128) = 109 / 128" "fl (2525 / 32) = 2525 / 32" "fl (2725 / 32) = 2725 / 32"
      using fl_256 [of 202] fl_256 [of 218] fl_256 [of 20200] fl_256 [of 21800] by (simp_all add: field_simps)
    show ?thesis by (simp add: dbl_times dbl_less_iff f)
  qed
  ultimately show ?thesis using \<open>?a \<le> _\<close> by simp
qed

lemma above_lowest: "0 \<le> x \<Longrightarrow> - dbl_max < x"
proof -
  have "- dbl_max < 0" by (simp add: double_iffs rat_of_ops rat_of_dbl_max)
  then show "0 \<le> x \<Longrightarrow> - dbl_max < x" by simp
qed

lemma below_greatest: "n \<le> 2 ^ 64 \<Longrightarrow> dbl (of_int n) < dbl_max"
  using dbl_of_int_less_max [of n] by (simp add: dbl_of_int_def)

subsection \<open>The tests\<close>

lemma MultiConstraintPrefersLeastLoadedNode:
  "verdict (allocateTask 0 (two_edges MULTI_CONSTRAINT (allocateResources (dbl 75) 0 0 (makeEdge ''E01'' (dbl 100) 10))
     (allocateResources (dbl 35) 0 0 (makeEdge ''E03'' (dbl 100) 8)) (makeTask ''T1045'' HIGH))) = Some (True, ''E03'')"
  using scores [of "''E01''" "''E03''"] above_lowest [OF conjunct1 [OF score_bounds [OF default_weights_ok]]]
  by (simp add: verdict_def allocateTask_def run_strategy_def allocateMultiConstraint_def viable makeEdge_hosts edge_score_def
      names_in_order two_edges_simps dbl_le)

lemma LeastLoadPicksLowestCpuUsageEdge:
  "verdict (allocateTask 0 (two_edges LEAST_LOAD (allocateResources (dbl 80) 0 0 (makeEdge ''E01'' (dbl 100) 10))
     (allocateResources (dbl 10) 0 0 (makeEdge ''E02'' (dbl 100) 10)) (makeTask ''T1'' HIGH))) = Some (True, ''E02'')"
proof -
  have "used_cpu (allocateResources (dbl 80) 0 0 (makeEdge e (dbl 100) l)) = dbl 80"
    "used_cpu (allocateResources (dbl 10) 0 0 (makeEdge e (dbl 100) l)) = dbl 10" for e l
    by (simp_all add: used_cpu_def node_defs eval)
  then show ?thesis using below_greatest [of 80] below_greatest [of 10]
    by (simp add: verdict_def allocateTask_def run_strategy_def allocateLeastLoad_def viable makeEdge_hosts names_in_order two_edges_simps dbl_le dbl_less_iff)
qed

lemma PriorityBasedRoutesCriticalTaskToLowestLatency:
  "verdict (allocateTask 0 (two_edges PRIORITY_BASED (makeEdge ''E_SLOW'' (dbl 100) 50) (makeEdge ''E_FAST'' (dbl 100) 5)
     (makeTask ''T1'' CRITICAL))) = Some (True, ''E_FAST'')"
proof -
  have "getLatencyMs (makeEdge e c l) = l" for e c l by (simp add: getLatencyMs_def node_defs)
  then show ?thesis
    by (simp add: verdict_def allocateTask_def run_strategy_def allocatePriorityBased_def is_high_priority_def int64_max_def
        viable makeEdge_hosts names_in_order two_edges_simps)
qed
text \<open>The state of a round: the two edges, and whose turn it is.\<close>

definition round_at :: "u64 \<Rightarrow> edge_node \<Rightarrow> edge_node \<Rightarrow> json executor \<Rightarrow> bool" where
  "round_at i m n s \<longleftrightarrow> strategy s = ROUND_ROBIN \<and> edge_nodes s = [(''E01'', Some 0), (''E02'', Some 1)] \<and> round_robin_index s = i \<and>
     nodes s 0 = m \<and> nodes s (Suc 0) = n"

abbreviation one_more :: "edge_node \<Rightarrow> edge_node" where
  "one_more n \<equiv> allocateResources (dbl 10) (dbl 50) (dbl 1) n"

lemma round_turn:
  assumes "round_at i m n s" "canAllocate (dbl 10) (dbl 50) (dbl 1) m" "canAllocate (dbl 10) (dbl 50) (dbl 1) n"
  shows "\<exists>s'. round_at (i + 1) (if even (unat i) then one_more m else m) (if even (unat i) then n else one_more n) s' \<and>
    allocate_all (makeTask tid p # ts) s = Some (True, edge_id (if even (unat i) then m else n)) # allocate_all ts s'"
proof -
  let ?s = "with_task (makeTask tid p) s"
  have "is_available m" "is_available n" using assms(2,3) by (simp_all add: canAllocate_def Let_def)
  then have v: "getViableEdges (next_task s) (?s\<lparr>total_allocations := k\<rparr>) = [0, 1]" for k
    using assms by (simp add: getViableEdges_def round_at_def with_task_def make_task_def)
  define j where "j = [0 :: nref, 1] ! (unat i mod 2)"
  have j: "j = (if even (unat i) then 0 else Suc 0)" by (simp add: j_def parity_cases mod2_eq_if)
  have chosen: "[0, Suc 0] ! (unat i mod Suc (Suc 0)) = j" by (simp add: j_def numeral_2_eq_2)
  let ?r = "allocateTask (next_task s) ?s"
  obtain result s' where r: "?r = Inr (result, s')" "success result" "result_edge_id result = edge_id (nodes s j)"
    "strategy s' = strategy s" "edge_nodes s' = edge_nodes s" "round_robin_index s' = round_robin_index s + 1"
    "nodes s' = (nodes s)(j := one_more (nodes s j))"
    using assms(1) v
    by (simp add: allocateTask_def run_strategy_def allocateRoundRobin_def round_at_def granted_def upd_task_def upd_node_def db_def
        no_result_def with_task_def make_task_def chosen Let_def)
  have "allocate_all (makeTask tid p # ts) s = Some (True, edge_id (nodes s j)) # allocate_all ts s'"
    using r by (simp add: verdict_def Let_def)
  moreover have "round_at (i + 1) (if even (unat i) then one_more m else m) (if even (unat i) then n else one_more n) s'"
    using assms(1) r j by (simp add: round_at_def)
  ultimately show ?thesis using assms(1) j by (auto simp: round_at_def)
qed

lemma RoundRobinCyclesThroughViableEdges:
  "allocate_all [makeTask ''T0'' HIGH, makeTask ''T1'' HIGH, makeTask ''T2'' HIGH, makeTask ''T3'' HIGH]
     (with_edge (makeEdge ''E02'' (dbl 100) 10) (with_edge (makeEdge ''E01'' (dbl 100) 10) (blank ROUND_ROBIN FIFO))) =
   [Some (True, ''E01''), Some (True, ''E02''), Some (True, ''E01''), Some (True, ''E02'')]"
  (is "allocate_all [?a, ?b, ?c, ?d] ?s = _")
proof -
  let ?m = "makeEdge ''E01'' (dbl 100) 10" and ?n = "makeEdge ''E02'' (dbl 100) 10"
  have host: "canAllocate (dbl 10) (dbl 50) (dbl 1) (makeEdge e (dbl 100) 10)"
    "canAllocate (dbl 10) (dbl 50) (dbl 1) (one_more (makeEdge e (dbl 100) 10))"
    "canAllocate (dbl 10) (dbl 50) (dbl 1) (one_more (one_more (makeEdge e (dbl 100) 10)))" for e
    by (simp_all add: node_defs dbl_le_iff dbl_minus dbl_plus)
  have "round_at 0 ?m ?n ?s" by (simp add: round_at_def fixture_defs names_in_order)
  then obtain s1 where 1: "round_at 1 (one_more ?m) ?n s1"
    "allocate_all [?a, ?b, ?c, ?d] ?s = Some (True, ''E01'') # allocate_all [?b, ?c, ?d] s1"
    using round_turn [of 0 ?m ?n ?s "''T0''" HIGH "[?b, ?c, ?d]"] host by auto
  then obtain s2 where 2: "round_at 2 (one_more ?m) (one_more ?n) s2"
    "allocate_all [?b, ?c, ?d] s1 = Some (True, ''E02'') # allocate_all [?c, ?d] s2"
    using round_turn [of 1 "one_more ?m" ?n s1 "''T1''" HIGH "[?c, ?d]"] host by (auto simp: allocateResources_def)
  then obtain s3 where 3: "round_at 3 (one_more (one_more ?m)) (one_more ?n) s3"
    "allocate_all [?c, ?d] s2 = Some (True, ''E01'') # allocate_all [?d] s3"
    using round_turn [of 2 "one_more ?m" "one_more ?n" s2 "''T2''" HIGH "[?d]"] host by (auto simp: allocateResources_def)
  then have "allocate_all [?d] s3 = [Some (True, ''E02'')]"
    using round_turn [of 3 "one_more (one_more ?m)" "one_more ?n" s3 "''T3''" HIGH "[]"] host by (auto simp: allocateResources_def)
  with 1 2 3 show ?thesis by simp
qed

lemma AllocationRespectsResourceCapacityLimits:
  "verdict (allocateTask 0 (with_task (makeTask ''T1'' HIGH) (with_edge (makeEdge ''E01'' (dbl 5) 10) (blank MULTI_CONSTRAINT FIFO)))) = Some (False, '''')"
proof -
  have "\<not> canAllocate (dbl 10) (dbl 50) (dbl 1) (makeEdge ''E01'' (dbl 5) 10)" by (simp add: node_defs dbl_le_iff)
  then show ?thesis
    by (simp add: fixture_defs allocateTask_def run_strategy_def allocateMultiConstraint_def getViableEdges_def refused_def no_result_def)
qed

lemma SuccessRateComputedCorrectly:
  "getSuccessRate (blank MULTI_CONSTRAINT FIFO) = 0"
  "\<exists>result s'. allocateTask 0 (with_task (makeTask ''T1'' HIGH) (with_edge (makeEdge ''E01'' (dbl 100) 10) (blank MULTI_CONSTRAINT FIFO))) = Inr (result, s') \<and>
     getSuccessRate s' = dbl 100"
proof -
  let ?s = "with_task (makeTask ''T1'' HIGH) (with_edge (makeEdge ''E01'' (dbl 100) 10) (blank MULTI_CONSTRAINT FIFO))"
  have "getViableEdges 0 ?s = [0]" using makeEdge_hosts(2) [of "''E01''"] by (simp add: getViableEdges_def fixture_defs)
  moreover have "- dbl_max < edge_score 0 ?s r" for r
    using above_lowest [OF conjunct1 [OF score_bounds [OF default_weights_ok]]] by (simp add: edge_score_def fixture_defs)
  moreover have "strategy ?s = MULTI_CONSTRAINT" "total_allocations ?s = 0" "successful_allocations ?s = 0" by (simp_all add: fixture_defs)
  moreover have "(1 :: double) / 1 * dbl 100 = dbl 100" by simp
  ultimately show "\<exists>result s'. allocateTask 0 ?s = Inr (result, s') \<and> getSuccessRate s' = dbl 100"
    by (simp add: allocateTask_def run_strategy_def allocateMultiConstraint_def granted_def getSuccessRate_def upd_task_def upd_node_def db_def
        dbl_of_u64_def dbl_of_int_def one_dbl [symmetric])
qed (simp add: getSuccessRate_def fixture_defs)

lemma WeightsAreConfigurable:
  "weights (setAllocationWeights \<lparr>cpu_weight = 1, ram_weight = 0, bandwidth_weight = 0, latency_weight = 0, queue_weight = 0, priority_weight = 0\<rparr> s) =
     \<lparr>cpu_weight = 1, ram_weight = 0, bandwidth_weight = 0, latency_weight = 0, queue_weight = 0, priority_weight = 0\<rparr>"
  by (simp add: setAllocationWeights_def)

section \<open>Tasks\<close>

lemma ConstructorSetsFieldsCorrectly:
  fixes t :: "json task"
  assumes "t = new_task now ''T001'' ''US001'' ''ultrasonic'' (makeRequirements 100) (J_Obj [(''distance_cm'', J_Num (dbl (352 / 10)))])"
  shows "task_id t = ''T001'' \<and> device_id t = ''US001'' \<and> sensor_type t = ''ultrasonic'' \<and> status t = CREATED \<and> assigned_edge_id t = ''''"
  by (simp add: assms new_task_def)

text \<open>The deadline is ten seconds, and the clock is read within them.\<close>

lemma DeadlineNotExceededImmediatelyAfterCreation:
  assumes "0 \<le> ns" "ns \<le> 10 ^ 10"
  shows "\<not> isDeadlineExceeded (start + ns) (new_task start ''T002'' ''US001'' ''ultrasonic'' (makeRequirements 10000) (J_Obj []))"
  using assms by (simp add: isDeadlineExceeded_def getElapsedTimeMs_def to_millis_nonneg new_task_def makeRequirements_def mk_req_def)

text \<open>A sleep of twenty milliseconds lasts no less.\<close>

lemma DeadlineExceededAfterShortTimeout:
  assumes "20 * 10 ^ 6 \<le> ns"
  shows "isDeadlineExceeded (start + ns) (new_task start ''T003'' ''US001'' ''ultrasonic'' (makeRequirements 1) (J_Obj []))"
  using assms by (simp add: isDeadlineExceeded_def getElapsedTimeMs_def to_millis_nonneg new_task_def makeRequirements_def mk_req_def)

lemma StatusTransitionsPersist:
  "status (setStatus QUEUED t) = QUEUED" "assigned_edge_id (setAssignedEdgeId ''E01'' t) = ''E01''"
  by (simp_all add: setStatus_def setAssignedEdgeId_def)

lemma JsonRoundTripPreservesRequirements:
  assumes "json_lib_ok lib"
    and "t = setStatus COMPLETED (setAssignedEdgeId ''E02'' (new_task start ''T005'' ''CAM001'' ''camera'' (makeRequirements 50)
      (J_Obj [(''frame_number'', J_Int 1)])))"
  shows "\<exists>restored. fromJson lib now (toJson t) = Inr restored \<and> task_id restored = task_id t \<and> device_id restored = device_id t \<and>
    sensor_type restored = sensor_type t \<and> assigned_edge_id restored = assigned_edge_id t \<and> status restored = status t \<and>
    cpu_percent (reqs restored) = cpu_percent (reqs t)"
proof -
  have "proper_priority (priority (reqs t))" "proper_status (status t)"
    by (simp_all add: assms(2) setStatus_def setAssignedEdgeId_def new_task_def makeRequirements_def mk_req_def proper_priority_def
        proper_status_def priority_of_int_def status_of_int_def)
  from fromJson_toJson [OF assms(1) this, of now] show ?thesis by simp
qed

lemma PriorityOrderingMatchesSpecExample:
  "priority_to_int LOW < priority_to_int MEDIUM \<and> priority_to_int MEDIUM < priority_to_int HIGH \<and> priority_to_int HIGH < priority_to_int CRITICAL"
  by simp

section \<open>Task profiles\<close>

lemma AddedProfileIsRetrievable:
  assumes "ps' = addProfile ''test_sensor_type'' (mk_req 42 123 (5 / 2) 250 MEDIUM) ps"
  shows "hasProfile ps' ''test_sensor_type'' \<and> getRequirements ps' ''test_sensor_type'' = mk_req 42 123 (5 / 2) 250 MEDIUM"
  by (simp add: assms hasProfile_def getRequirements_def addProfile_def)

lemma UnknownSensorTypeReturnsConservativeFallback:
  assumes "\<not> hasProfile ps ''nonexistent_sensor_xyz''"
  shows "0 < cpu_percent (getRequirements ps ''nonexistent_sensor_xyz'') \<and> 0 < ram_mb (getRequirements ps ''nonexistent_sensor_xyz'') \<and>
    priority (getRequirements ps ''nonexistent_sensor_xyz'') = LOW"
  using assms by (simp add: hasProfile_def getRequirements_def fallback_requirements_def mk_req_def zero_dbl dbl_less_iff)

lemma DefaultProfilesMatchSpecValues:
  assumes "ps' = loadProfiles Open_Failed ps"
  shows "hasProfile ps' ''ultrasonic'' \<and> getRequirements ps' ''ultrasonic'' = mk_req 10 50 1 100 HIGH \<and>
    hasProfile ps' ''camera'' \<and> getRequirements ps' ''camera'' = mk_req 60 1024 20 50 CRITICAL"
  by (simp add: assms loadProfiles_def initializeDefaultProfiles_def hasProfile_def getRequirements_def)

section \<open>The task scheduler\<close>

text \<open>An edge with tasks scheduled on it in turn, numbered from 0, and the tasks handed out, each search with its own readings of the clock.\<close>

definition schedule_all :: "scheduling_strategy \<Rightarrow> json task list \<Rightarrow> json executor" where
  "schedule_all sch ts =
     fold (\<lambda>t s. scheduleTask (Some 0) (Some (next_task s)) (with_task t s)) ts (with_edge (makeEdge ''E01'' (dbl 100) 10) (blank ROUND_ROBIN sch))"

fun next_all :: "(nat \<Rightarrow> int \<times> int) list \<Rightarrow> json executor \<Rightarrow> tref option list" where
  "next_all [] s = []"
| "next_all (clk # clks) s = (case getNextTask clk (Some 0) s of (t, s') \<Rightarrow> t # next_all clks s')"

text \<open>The same, read off the queue.\<close>

fun picks :: "scheduling_strategy \<Rightarrow> (tref \<Rightarrow> json task) \<Rightarrow> (nat \<Rightarrow> int \<times> int) list \<Rightarrow> tref list \<Rightarrow> tref option list" where
  "picks sch ts [] q = []"
| "picks sch ts (clk # clks) q =
     (if q = [] then None # picks sch ts clks q
      else let i = pick sch clk ts q in Some (q ! i) # picks sch ts clks (remove_at i q))"

lemma next_all_picks: "next_all clks s = picks (sched_strategy s) (tasks s) clks (task_queue (nodes s 0))"
proof (induction clks arbitrary: s)
  case (Cons clk clks)
  show ?case
    by (cases "task_queue (nodes s 0) = []")
      (simp_all add: Cons getNextTask_empty getNextTask_take Let_def, simp add: upd_node_def)
qed simp

lemma scheduled:
  assumes "task_queue (nodes s 0) = [0..<next_task s]"
  shows "fold (\<lambda>t s. scheduleTask (Some 0) (Some (next_task s)) (with_task t s)) ts s = s' \<Longrightarrow>
    sched_strategy s' = sched_strategy s \<and> next_task s' = next_task s + length ts \<and> task_queue (nodes s' 0) = [0..<next_task s'] \<and>
    (\<forall>i<next_task s'. reqs (tasks s' i) = reqs (if i < next_task s then tasks s i else ts ! (i - next_task s)) \<and>
       creation_time (tasks s' i) = creation_time (if i < next_task s then tasks s i else ts ! (i - next_task s)))"
  using assms
proof (induction ts arbitrary: s)
  case (Cons t ts)
  let ?s = "scheduleTask (Some 0) (Some (next_task s)) (with_task t s)"
  have s: "task_queue (nodes ?s 0) = [0..<next_task ?s]" "next_task ?s = Suc (next_task s)" "sched_strategy ?s = sched_strategy s"
    "tasks ?s = (tasks s)(next_task s := setStatus QUEUED t)"
    using Cons.prems(2) by (simp_all add: scheduleTask_def with_task_def make_task_def upd_task_def upd_node_def enqueueTask_def fun_eq_iff)
  show ?case using Cons.IH [of ?s] Cons.prems(1) s
    by (auto simp: less_Suc_eq nth_Cons')
qed simp

lemma schedule_all_simps [simp]:
  "sched_strategy (schedule_all sch ts) = sch" "task_queue (nodes (schedule_all sch ts) 0) = [0..<length ts]"
  "i < length ts \<Longrightarrow> reqs (tasks (schedule_all sch ts) i) = reqs (ts ! i)"
  "i < length ts \<Longrightarrow> creation_time (tasks (schedule_all sch ts) i) = creation_time (ts ! i)"
proof -
  let ?s = "with_edge (makeEdge ''E01'' (dbl 100) 10) (blank ROUND_ROBIN sch)"
  have s: "task_queue (nodes ?s 0) = [0..<next_task ?s]" "next_task ?s = 0" "sched_strategy ?s = sch"
    by (simp_all add: fixture_defs)
  note * = scheduled [OF s(1) schedule_all_def [of sch ts, symmetric], unfolded s(2,3)]
  show "sched_strategy (schedule_all sch ts) = sch" "task_queue (nodes (schedule_all sch ts) 0) = [0..<length ts]"
    "i < length ts \<Longrightarrow> reqs (tasks (schedule_all sch ts) i) = reqs (ts ! i)"
    "i < length ts \<Longrightarrow> creation_time (tasks (schedule_all sch ts) i) = creation_time (ts ! i)"
    using * by simp_all
qed

lemma makeSchedTask_simps [simp]:
  "priority (reqs (makeSchedTask tid p d)) = p" "deadline_ms (reqs (makeSchedTask tid p d)) = d" "creation_time (makeSchedTask tid p d) = 0"
  by (simp_all add: makeSchedTask_def new_task_def mk_req_def)

lemmas pick_defs = next_all_picks pick_def max_element_def min_element_def remove_at_def priority_less_def remaining_less_def getRemainingTimeMs_def
  getElapsedTimeMs_def upt_rec numeral_2_eq_2 numeral_3_eq_3

lemma FifoReturnsTasksInInsertionOrder:
  "next_all [clk] (schedule_all FIFO [makeSchedTask ''T1'' LOW 1000, makeSchedTask ''T2'' CRITICAL 1000]) = [Some 0]"
  by (simp add: pick_defs)

lemma PriorityBasedReturnsHighestPriorityFirst:
  "next_all [c1, c2, c3, c4] (schedule_all SCHED_PRIORITY_BASED
     [makeSchedTask ''T101'' HIGH 1000, makeSchedTask ''T102'' LOW 1000, makeSchedTask ''T103'' CRITICAL 1000, makeSchedTask ''T104'' MEDIUM 1000]) =
   [Some 2, Some 0, Some 3, Some 1]"
  by (simp add: pick_defs)

lemma EarliestDeadlineFirstOrdersByRemainingTime:
  "next_all [\<lambda>_. (now, now)] (schedule_all EARLIEST_DEADLINE_FIRST [makeSchedTask ''T_LONG'' LOW 5000, makeSchedTask ''T_SHORT'' LOW 50]) = [Some 1]"
  by (simp add: pick_defs)

lemma GetNextTaskOnEmptyQueueReturnsNull: "next_all [clk] (schedule_all SCHED_PRIORITY_BASED []) = [None]"
  by (simp add: pick_defs)

lemma RemainingTasksArePreservedAfterSelection:
  "next_all [c1, c2] (schedule_all SCHED_PRIORITY_BASED [makeSchedTask ''T_LOW'' LOW 1000, makeSchedTask ''T_HIGH'' HIGH 1000]) = [Some 1, Some 0]"
  "getQueueLength (nodes (snd (getNextTask c1 (Some 0)
     (schedule_all SCHED_PRIORITY_BASED [makeSchedTask ''T_LOW'' LOW 1000, makeSchedTask ''T_HIGH'' HIGH 1000]))) 0) = 1"
  by (simp_all add: pick_defs getNextTask_take getQueueLength_def)

lemma NullEdgeOrTaskIsHandledSafely:
  "scheduleTask None None s = s" "getNextTask clk None s = (None, s)"
  by (simp_all add: scheduleTask_def getNextTask_def)

section \<open>Metrics\<close>

definition two_idle :: "json executor" where
  "two_idle = with_edge (makeEdge ''E02'' (dbl 100) 15) (with_edge (makeEdge ''E01'' (dbl 100) 15) (blank MULTI_CONSTRAINT FIFO))"

lemma CollectReturnsZeroedSnapshotWithNoActivity:
  "\<exists>p. collect sqrt_of 1 two_idle = Inr p \<and> throughput_tasks_per_second p = 0 \<and> deadline_miss_rate_percent p = 0"
  by (simp add: collect_def two_idle_def fixture_defs names_in_order getAverageLatency_def dbl_of_u64_def)

lemma ZeroElapsedTimeDoesNotDivideByZero:
  "\<exists>p. collect sqrt_of 0 two_idle = Inr p \<and> throughput_tasks_per_second p = 0"
  by (simp add: collect_def two_idle_def fixture_defs names_in_order getAverageLatency_def)

lemma JsonSerializationContainsAllSpecMetrics:
  "\<exists>j. collectAsJson sqrt_of 1 two_idle = Inr j \<and>
     (\<forall>k\<in>{''average_latency_ms'', ''average_waiting_time_ms'', ''deadline_miss_rate_percent'', ''average_cpu_utilization_percent'',
        ''load_imbalance_stddev'', ''throughput_tasks_per_second'', ''task_success_rate_percent''}. contains k j)"
  by (simp add: collectAsJson_def collect_def two_idle_def fixture_defs names_in_order getAverageLatency_def snapshot_fields_def build_def)

lemma row_starts: "\<exists>cells. table_row fixed2 (name, p) = name @ cells"
  by (simp add: table_row_def setw_def)

lemma ComparisonTableIncludesAllStrategyNames:
  "\<exists>a b c. formatComparisonTable fixed2 [(r, p), (m, q)] = a @ r @ b @ m @ c"
proof -
  obtain b c where "table_row fixed2 (r, p) = r @ b" "table_row fixed2 (m, q) = m @ c" using row_starts by meson
  then have "formatComparisonTable fixed2 [(r, p), (m, q)] =
      (table_header @ newline @ replicate 108 (CHR ''-'') @ newline) @ r @ (b @ newline) @ m @ (c @ newline)"
    by (simp add: formatComparisonTable_def)
  then show ?thesis by blast
qed

end
