(* ===== verification/Spec2Isabelle.thy ===== *)
theory Spec2Isabelle
  imports Database_Properties Web_Simulation Comparison Answer_Types Mqtt_Client Unit_Tests
begin

text \<open>
  A verification development for the edge IoT task allocation simulator: a C++ program that generates
  tasks from simulated sensors, places each on an edge node under several constraints, runs them with one
  thread per node, stores what happens in SQLite and reports metrics, as a batch experiment on the command
  line or behind a web interface. This theory holds no definitions; it imports all others.

  \<^bold>\<open>The program and its parts.\<close> A device (\<^verbatim>\<open>iot_device\<close>, \<^verbatim>\<open>sensor_simulator\<close>) yields a reading. The
  task manager makes a task of it with the requirements its profile asks for. The resource allocator asks
  the resource monitor for the nodes, picks one by one of four strategies and reserves CPU, RAM and bandwidth on
  it, retrying while there is no room. The task scheduler puts the task into the queue of the node and
  hands it out again by one of four policies. The executor's worker of the node runs it, decides by its
  deadline whether it completed or failed, and releases what was reserved. The database manager records each
  step, the metrics collector reads the counters, the live runtime does all this in a thread of its own while the
  HTTP server answers requests and changes the strategies, and \<^verbatim>\<open>main\<close> puts the parts together.

  \<^bold>\<open>Which theory models which file.\<close> Definitions have the names of the functions, records the fields of
  the classes. The state of a component is a record that extends that of the component it is built on, in the
  order store, monitor, allocator, scheduler, task manager, executor, controller or runtime; so an
  operation runs unchanged in every later state, and a property of it holds there too.
  \<^item> \<open>Prelude\<close>: machine types, faults, \<^verbatim>\<open>std::map\<close> as a list sorted by key, \<^verbatim>\<open>std::min_element\<close> and
    the search loops of the allocator, decimal numbers, and the locales \<open>registry\<close>, \<open>erasable_registry\<close>, \<open>fifo\<close> and
    \<open>preference\<close>. \<open>Text\<close>: searching and splitting strings. \<open>Binary64\<close>: the type \<^verbatim>\<open>double\<close> as the
    rationals that are fixed by rounding to nearest, ties to even, with rounded operations.
  \<^item> \<open>Constants\<close>: \<^verbatim>\<open>constants.h\<close>. \<open>Tasks\<close>, \<open>Task_Json\<close>: \<^verbatim>\<open>task.h\<close>, \<^verbatim>\<open>task.cpp\<close>. \<open>Task_Profiles\<close>:
    \<^verbatim>\<open>task_profile\<close>. \<open>Edge_Node\<close>: \<^verbatim>\<open>edge_node\<close>. \<open>Store\<close>: the shared objects and the log of database calls.
  \<^item> \<open>Resource_Monitor\<close>, \<open>Resource_Allocator\<close>, \<open>Task_Scheduler\<close>, \<open>Task_Manager\<close>, \<open>Task_Executor\<close>,
    \<open>Resource_Controller\<close>, \<open>Metrics\<close>, \<open>Logger\<close>, \<open>Mqtt_Client\<close>: the files of the same names.
  \<^item> \<open>Devices\<close>: \<^verbatim>\<open>iot_device\<close>, \<^verbatim>\<open>sensor_simulator\<close> and the device fleets. \<open>Config\<close>: the command line,
    \<^verbatim>\<open>simulation_config\<close>. \<open>Json\<close>: the values of the JSON library.
  \<^item> \<open>Sqlite\<close>, \<open>Database_Manager\<close>, \<open>Database_Properties\<close>: \<^verbatim>\<open>database_manager\<close> over an arbitrary SQLite.
  \<^item> \<open>Startup\<close>, \<open>Experiment\<close>, \<open>Web_Main\<close>, \<open>Program\<close>: \<^verbatim>\<open>main.cpp\<close>, from the creation of the fleet
    to the exit code. \<open>Live_Runtime\<close>: \<^verbatim>\<open>live_runtime\<close>. \<open>Http_Message\<close>, \<open>Http_Server\<close>, \<open>Answer_Types\<close>:
    \<^verbatim>\<open>http_api_server\<close>.
  \<^item> \<open>Simulation\<close>: the producer and the workers as a step relation that interleaves them. \<open>Bandwidth\<close>,
    \<open>Conservation\<close>, \<open>Counters\<close>, \<open>Persistence\<close>: its invariants. \<open>Whole_Experiment\<close>, \<open>Live_Simulation\<close>: the
    sequential definitions of \<^verbatim>\<open>runExperiment\<close> and \<^verbatim>\<open>processingLoop\<close> refine it. \<open>Comparison\<close>: the
    experiments of \<^verbatim>\<open>--compare\<close> one after another. \<open>Web_Simulation\<close>: the web program with its clients refines it.
  \<^item> \<open>Unit_Tests\<close>: what the unit tests of the repository assert, proved of the model.

  \<^bold>\<open>What the groups of lemmas show.\<close>
  \<^item> Accounting. The arithmetic of doubles is monotone and exact enough that reserving after a successful check
    never exceeds a capacity with an even significand, that releasing keeps the usage between zero and the
    capacity, and that bandwidths, which are multiples of a half, are conserved exactly: in every
    reachable state each node reserves the sum of what its queued and running tasks asked for.
  \<^item> Conservation. In every reachable state each task is in one place, none is lost, none runs twice, and the
    tasks can always be drained. The executor's, the scheduler's and the allocator's counters agree with the
    states of the tasks, and so do the rates the metrics collector computes from them. The log of the database
    stores a task before any call that names it.
  \<^item> Choice. Each strategy is the interpretation of one locale, \<open>placement\<close>, which gives the outcome of a
    request with and without retries; each picks the first best node of its own order. The scheduler is an
    interpretation of \<open>dispatcher\<close>; priority scheduling is a stable sort; earliest deadline first is
    exact on a clock that moves between the comparisons, for deadlines a millisecond apart.
  \<^item> Whole runs. An experiment never faults and accounts for all its tasks; so does the processing thread of
    the live runtime, with the server changing strategies meanwhile; \<^verbatim>\<open>main\<close>, run on a command line, prints the
    results of such an experiment, closes the database and exits with code 0. With \<^verbatim>\<open>--compare\<close> it prints a row
    for each of the four experiments, and what one of them leaves in the queues of its nodes does not disturb the
    next: the invariants hold of the registered nodes, and nobody touches the others. Clients of the web
    program, whatever they send, only make steps the simulation could make without them.
  \<^item> Interfaces. Tasks survive JSON and the database, configurations the command line, texts the encoding
    of URLs; a request is read alike however the network cuts it up; an answer is framed so that it can be
    read back; every answer is a well-typed JSON value; no statement of SQLite is left open; queries end.
  \<^item> Faults. What the code gets wrong is proved too: a task stranded by the reallocation, a
    health check that deadlocks, a malformed body that ends the server, a failure to bind that is
    reported as success, a callback that reaches the wrong client, a reservation over an odd capacity.

  \<^bold>\<open>Faults, errors and loops.\<close> A null dereference, a mutex locked twice, \<^verbatim>\<open>std::terminate\<close> and a division by
  zero are values of \<open>fault\<close>, exceptions of the libraries values of their own types; operations that can end
  so return a sum. Loops are structural recursions with the number of turns the code allows: 201
  attempts of an allocation (200 retries), fifty polls of the server's start. The wait for the queues has as many polls
  as the clock allows, an argument. Reading the rows of a query is a \<open>partial_function\<close> that has no value if
  SQLite never says that it is done; \<open>queries_return\<close> shows that it has one otherwise. The web program
  waits as long as the server runs; its model has fuel and no value when it runs out. The
  properties of whole runs ask for fewer than \<open>2 ^ 63\<close> tasks, beyond which the counters would wrap.

  \<^bold>\<open>Parameters.\<close> SQLite (a record of its functions on an abstract connection), the JSON library's getters, parser
  and printer, the Paho client, the calls of the sockets, the clock readings, the random draws, the square
  root, the printing of doubles, and what other threads do while a thread sleeps or waits. What is
  assumed of one is a named predicate (\<open>json_lib_ok\<close>, \<open>statements_ok\<close>, \<open>rows_finite\<close>, \<open>columns_ok\<close>, \<open>uniform\<close>,
  \<open>draws_ok\<close>, \<open>run_by_workers\<close>, \<open>compared_by_workers\<close>), and a concrete instance satisfies it in the witness of the property.

  \<^bold>\<open>Not modelled.\<close> The meaning of the SQL texts (they are arguments of SQLite); the log lines the components
  write, but for those of \<^verbatim>\<open>main.cpp\<close>; destructors and the accessors that only return a field; the unit tests as a program; the sleeping times themselves; access to shared
  data without a lock, as the step relation takes what a thread does under its locks as one step. The web
  dashboard is not C++ code.
\<close>

end
